(* ===== verification/Prelude.thy ===== *)
theory Prelude
  imports
    Complex_Main
    "HOL-Library.Word"
    "HOL-Library.Log_Nat"
    "HOL-Library.Char_ord"
begin

text \<open>
  What every component shares: the names of the Rust types (machine integers, bytes, instants and
  durations), the \<open>Result\<close> type, decimal printing of integers, and generic lemmas on lists and
  words. Instants and durations are counted in nanoseconds.
\<close>

unbundle bit_operations_syntax

named_theorems model_defs \<open>definitions of operations that a component's proofs unfold\<close>
named_theorems inv_intros \<open>preservation of a component's invariant by its operations\<close>

section \<open>Types of the language\<close>

type_synonym u8 = "8 word"
type_synonym u32 = "32 word"
type_synonym u64 = "64 word"
type_synonym i64 = "64 word"
type_synonym usize = "64 word"
type_synonym bytes = "u8 list"
type_synonym instant = nat
type_synonym duration = nat

text \<open>A \<open>Result<T, E>\<close> is \<open>'e + 'a\<close>: \<open>Inl\<close> is \<open>Err\<close>, \<open>Inr\<close> is \<open>Ok\<close>.\<close>

abbreviation (input) is_ok :: "'e + 'a \<Rightarrow> bool" where
  "is_ok r \<equiv> \<not> isl r"

definition from_millis :: "nat \<Rightarrow> duration" where
  "from_millis n = n * 1000000"

definition from_secs :: "nat \<Rightarrow> duration" where
  "from_secs n = n * 1000000000"

text \<open>
  The \<open>?\<close> operator and \<open>map_err\<close>: sequencing that stops at the first error, and a change of the
  error that leaves a success alone.
\<close>

fun and_then :: "'e + 'a \<Rightarrow> ('a \<Rightarrow> 'e + 'b) \<Rightarrow> 'e + 'b" where
  "and_then (Inl e) f = Inl e"
| "and_then (Inr x) f = f x"

fun map_err :: "('e \<Rightarrow> 'd) \<Rightarrow> 'e + 'a \<Rightarrow> 'd + 'a" where
  "map_err g (Inl e) = Inl (g e)"
| "map_err g (Inr x) = Inr x"

lemma and_then_eq_Inr [simp]: "and_then r f = Inr y \<longleftrightarrow> (\<exists>x. r = Inr x \<and> f x = Inr y)"
  by (cases r) auto

lemma and_then_eq_Inl: "and_then r f = Inl e \<longleftrightarrow> r = Inl e \<or> (\<exists>x. r = Inr x \<and> f x = Inl e)"
  by (cases r) auto

lemma map_err_eq_Inr [simp]: "map_err g r = Inr x \<longleftrightarrow> r = Inr x"
  by (cases r) auto

lemma map_err_eq_Inl [simp]: "map_err g r = Inl d \<longleftrightarrow> (\<exists>e. r = Inl e \<and> d = g e)"
  by (cases r) auto

section \<open>Machine words\<close>

lemma unat_less_add1 [simp]:
  fixes x :: "'a::len word"
  assumes "x < y"
  shows "unat (x + 1) = unat x + 1"
proof -
  have "unat x < unat y" and "unat y < 2 ^ LENGTH('a)"
    using assms by (simp_all add: word_less_nat_alt)
  then have "unat x + 1 < 2 ^ LENGTH('a)" by linarith
  then show ?thesis
    by (simp add: unat_word_ariths)
qed

section \<open>Decimal printing\<close>

text \<open>\<open>to_string\<close> of an unsigned integer: its decimal digits, most significant first.\<close>

definition digit_char :: "nat \<Rightarrow> char" where
  "digit_char d = char_of (48 + d)"

definition char_digit :: "char \<Rightarrow> nat option" where
  "char_digit c = (let n = of_char c :: nat in if 48 \<le> n \<and> n \<le> 57 then Some (n - 48) else None)"

fun dec_string :: "nat \<Rightarrow> string" where
  "dec_string n = (if n < 10 then [digit_char n] else dec_string (n div 10) @ [digit_char (n mod 10)])"

declare dec_string.simps [simp del]

definition digits_val :: "nat list \<Rightarrow> nat" where
  "digits_val ds = foldl (\<lambda>v d. v * 10 + d) 0 ds"

lemma digits_val_Nil [simp]: "digits_val [] = 0"
  by (simp add: digits_val_def)

lemma digits_val_snoc [simp]: "digits_val (ds @ [d]) = digits_val ds * 10 + d"
  by (simp add: digits_val_def)

lemma char_digit_digit_char [simp]: "d < 10 \<Longrightarrow> char_digit (digit_char d) = Some d"
  by (simp add: char_digit_def digit_char_def of_char_of)

text \<open>\<open>to_string\<close> of a signed and of an unsigned integer.\<close>

definition i64_string :: "i64 \<Rightarrow> string" where
  "i64_string n = (if sint n < 0 then ''-'' @ dec_string (nat (- sint n)) else dec_string (nat (sint n)))"

definition u64_string :: "u64 \<Rightarrow> string" where
  "u64_string n = dec_string (unat n)"

lemma dec_string_digits:
  "\<exists>ds. map char_digit (dec_string n) = map Some ds \<and> ds \<noteq> [] \<and> digits_val ds = n"
proof (induction n rule: dec_string.induct)
  case (1 n)
  show ?case
  proof (cases "n < 10")
    case True
    then have "map char_digit (dec_string n) = map Some [n]" and "digits_val [n] = n"
      by (simp_all add: dec_string.simps [of n] digits_val_def)
    then show ?thesis by blast
  next
    case False
    with 1 obtain ds where ds: "map char_digit (dec_string (n div 10)) = map Some ds"
      and val: "digits_val ds = n div 10" by blast
    have "map char_digit (dec_string n) = map Some (ds @ [n mod 10])"
      using False ds by (simp add: dec_string.simps [of n])
    moreover have "digits_val (ds @ [n mod 10]) = n"
      using val by simp
    ultimately show ?thesis by blast
  qed
qed

end
