(* ===== verification/CircuitBreaker.thy ===== *)
theory CircuitBreaker
  imports Prelude
begin

text \<open>
  src/core/utils/circuit_breaker.rs, and the contract that both circuit breakers of the program
  keep. The atomics and the mutex of the source are the fields of one record; every method is one
  step, at the instant it reads from the clock.
\<close>

section \<open>The contract: consecutive failures open the circuit\<close>

text \<open>\<open>trailing os\<close> counts the failures (\<open>False\<close>) after the last success of a history.\<close>

definition trailing :: "bool list \<Rightarrow> nat" where
  "trailing os = length (takeWhile Not (rev os))"

definition has_failure_run :: "nat \<Rightarrow> bool list \<Rightarrow> bool" where
  "has_failure_run n os \<longleftrightarrow> (\<exists>xs ys. os = xs @ replicate n False @ ys)"

lemma trailing_Nil [simp]: "trailing [] = 0"
  and trailing_success [simp]: "trailing (os @ [True]) = 0"
  and trailing_failure [simp]: "trailing (os @ [False]) = Suc (trailing os)"
  by (simp_all add: trailing_def)

lemma le_trailing_iff: "n \<le> trailing os \<longleftrightarrow> (\<exists>xs. os = xs @ replicate n False)"
proof (induction os arbitrary: n rule: rev_induct)
  case Nil
  then show ?case by auto
next
  case (snoc b os)
  show ?case
  proof (cases n)
    case 0
    then show ?thesis by simp
  next
    case (Suc m)
    have rep: "replicate (Suc m) False = replicate m False @ [False]"
      by (metis replicate_Suc replicate_append_same)
    show ?thesis
      using snoc [of m] by (cases b) (auto simp: Suc rep simp del: replicate_Suc append_assoc simp flip: append_assoc)
  qed
qed

lemma has_failure_run_Nil: "0 < n \<Longrightarrow> \<not> has_failure_run n []"
  by (simp add: has_failure_run_def)

lemma has_failure_run_snoc:
  assumes "0 < n"
  shows "has_failure_run n (os @ [b]) \<longleftrightarrow> has_failure_run n os \<or> n \<le> trailing (os @ [b])"
proof
  assume "has_failure_run n (os @ [b])"
  then obtain xs ys where eq: "os @ [b] = xs @ replicate n False @ ys"
    by (auto simp: has_failure_run_def)
  show "has_failure_run n os \<or> n \<le> trailing (os @ [b])"
  proof (cases ys rule: rev_cases)
    case Nil
    with eq show ?thesis by (auto simp: le_trailing_iff)
  next
    case (snoc zs z)
    with eq have "os = xs @ replicate n False @ zs" by simp
    then show ?thesis by (auto simp: has_failure_run_def)
  qed
next
  assume "has_failure_run n os \<or> n \<le> trailing (os @ [b])"
  then show "has_failure_run n (os @ [b])"
    by (auto simp: has_failure_run_def le_trailing_iff) (metis append_Nil2 append_assoc)+
qed

text \<open>
  The operations a client of a breaker calls are the recording of an outcome at an instant. While
  the circuit is not blocked, a failure counts up and blocks at the threshold, a success clears the
  count.
\<close>

locale breaker =
  fixes success :: "instant \<Rightarrow> 'b \<Rightarrow> 'b"
    and failure :: "instant \<Rightarrow> 'b \<Rightarrow> 'b"
    and blocked :: "'b \<Rightarrow> bool"
    and failures :: "'b \<Rightarrow> nat"
    and threshold :: "'b \<Rightarrow> nat"
    and inv :: "'b \<Rightarrow> bool"
  assumes success_keeps: "inv b \<Longrightarrow> \<not> blocked b \<Longrightarrow>
      \<not> blocked (success t b) \<and> failures (success t b) = 0 \<and> inv (success t b)
      \<and> threshold (success t b) = threshold b"
    and failure_counts: "inv b \<Longrightarrow> \<not> blocked b \<Longrightarrow> failures b + 1 < threshold b \<Longrightarrow>
      \<not> blocked (failure t b) \<and> failures (failure t b) = failures b + 1 \<and> inv (failure t b)
      \<and> threshold (failure t b) = threshold b"
    and failure_blocks: "inv b \<Longrightarrow> \<not> blocked b \<Longrightarrow> threshold b \<le> failures b + 1 \<Longrightarrow>
      blocked (failure t b)"
begin

definition record_outcome :: "instant \<times> bool \<Rightarrow> 'b \<Rightarrow> 'b" where
  "record_outcome = (\<lambda>(t, ok). if ok then success t else failure t)"

lemma not_blocked_yet:
  assumes "inv b" "\<not> blocked b" "failures b = 0" "0 < threshold b"
    and "\<And>k. \<not> blocked (fold record_outcome (take k hist) b)"
  shows "inv (fold record_outcome hist b) \<and> failures (fold record_outcome hist b) = trailing (map snd hist)
    \<and> threshold (fold record_outcome hist b) = threshold b
    \<and> \<not> has_failure_run (threshold b) (map snd hist)"
  using assms(5)
proof (induction hist rule: rev_induct)
  case Nil
  then show ?case using assms by (simp add: has_failure_run_Nil)
next
  case (snoc x hist)
  let ?b = "fold record_outcome hist b"
  obtain t ok where x: "x = (t, ok)" by (cases x)
  have free: "\<not> blocked ?b" "\<not> blocked (record_outcome x ?b)"
    using snoc.prems [of "length hist"] snoc.prems [of "Suc (length hist)"] by simp_all
  have "\<not> blocked (fold record_outcome (take k hist) b)" for k
    using snoc.prems [of "min k (length hist)"] by (simp add: min_def split: if_splits)
  with snoc.IH have IH: "inv ?b" "failures ?b = trailing (map snd hist)" "threshold ?b = threshold b"
    "\<not> has_failure_run (threshold b) (map snd hist)" by blast+
  show ?case
  proof (cases ok)
    case True
    then show ?thesis
      using success_keeps [OF IH(1) free(1), of t] IH assms(4)
      by (simp add: x record_outcome_def has_failure_run_snoc)
  next
    case False
    then have "failures ?b + 1 < threshold ?b"
      using free(2) failure_blocks [OF IH(1) free(1), of t]
      by (intro not_le_imp_less notI) (simp add: x record_outcome_def)
    from failure_counts [OF IH(1) free(1) this, of t] this False show ?thesis
      using IH assms(4) by (simp add: x record_outcome_def has_failure_run_snoc)
  qed
qed

text \<open>The circuit blocks during a history exactly when the history has a long enough run of failures.\<close>

lemma blocks_iff_failure_run:
  assumes "inv b" "\<not> blocked b" "failures b = 0" "0 < threshold b"
  shows "(\<exists>k. blocked (fold record_outcome (take k hist) b)) \<longleftrightarrow> has_failure_run (threshold b) (map snd hist)"
proof
  assume "has_failure_run (threshold b) (map snd hist)"
  then show "\<exists>k. blocked (fold record_outcome (take k hist) b)"
    using not_blocked_yet [OF assms] by blast
next
  assume "\<exists>k. blocked (fold record_outcome (take k hist) b)"
  define k where "k = (LEAST k. blocked (fold record_outcome (take k hist) b))"
  have bl: "blocked (fold record_outcome (take k hist) b)"
    unfolding k_def by (rule LeastI_ex) fact
  have before: "\<not> blocked (fold record_outcome (take j hist) b)" if "j < k" for j
    using that not_less_Least unfolding k_def by blast
  have "k \<noteq> 0" using bl assms(2) by (auto intro: ccontr)
  then obtain m where m: "k = Suc m" by (cases k) auto
  have len: "m < length hist"
  proof (rule ccontr)
    assume "\<not> m < length hist"
    then have "take k hist = take m hist" using m by simp
    then show False using bl before [of m] m by simp
  qed
  let ?b = "fold record_outcome (take m hist) b"
  obtain t ok where x: "hist ! m = (t, ok)" by (cases "hist ! m")
  have free: "\<not> blocked (fold record_outcome (take j (take m hist)) b)" for j
    using before [of "min j m"] m by (simp add: min_def split: if_splits)
  note IH = not_blocked_yet [OF assms free]
  have tk: "take k hist = take m hist @ [hist ! m]"
    using len m by (simp add: take_Suc_conv_app_nth)
  have nb: "\<not> blocked ?b" using before [of m] m by simp
  have "\<not> ok" using bl success_keeps [of ?b t] IH nb by (auto simp: tk x record_outcome_def)
  then have "blocked (failure t ?b)" using bl by (simp add: tk x record_outcome_def)
  then have "threshold b \<le> trailing (map snd (take m hist)) + 1"
    using failure_counts [of ?b t] IH nb by (intro leI notI) simp
  then have "has_failure_run (threshold b) (map snd (take k hist))"
    using assms(4) \<open>\<not> ok\<close> by (simp add: tk x has_failure_run_snoc)
  moreover have "map snd hist = map snd (take k hist) @ map snd (drop k hist)"
    by (metis append_take_drop_id map_append)
  ultimately show "has_failure_run (threshold b) (map snd hist)"
    unfolding has_failure_run_def by (metis append_assoc)
qed

end

section \<open>The simple circuit breaker\<close>

record circuit_breaker =
  failure_count :: u32
  open_flag :: bool
  cb_threshold :: u32
  cb_reset_timeout :: duration
  last_failure_or_opened_time :: "instant option"

definition circuit_breaker_new :: "u32 \<Rightarrow> duration \<Rightarrow> circuit_breaker" where
  "circuit_breaker_new threshold timeout =
     \<lparr>failure_count = 0, open_flag = False, cb_threshold = threshold, cb_reset_timeout = timeout,
      last_failure_or_opened_time = None\<rparr>"

definition record_success :: "instant \<Rightarrow> circuit_breaker \<Rightarrow> circuit_breaker" where
  "record_success now b =
     b\<lparr>open_flag := False, failure_count := 0, last_failure_or_opened_time := None\<rparr>"

text \<open>\<open>fetch_add\<close> wraps and returns the old count; \<open>swap\<close> returns the old flag.\<close>

definition record_failure :: "instant \<Rightarrow> circuit_breaker \<Rightarrow> circuit_breaker" where
  "record_failure now b =
     (if open_flag b then
        (if last_failure_or_opened_time b \<noteq> None then b\<lparr>last_failure_or_opened_time := Some now\<rparr> else b)
      else
        (let current_failures = failure_count b + 1;
             b1 = b\<lparr>failure_count := failure_count b + 1\<rparr>
         in if cb_threshold b \<le> current_failures then
              (let already_open = open_flag b1; b2 = b1\<lparr>open_flag := True\<rparr>
               in if \<not> already_open then b2\<lparr>last_failure_or_opened_time := Some now\<rparr> else b2)
            else b1))"

definition is_open :: "instant \<Rightarrow> circuit_breaker \<Rightarrow> circuit_breaker \<times> bool" where
  "is_open now b =
     (if \<not> open_flag b then (b, False)
      else
        (case last_failure_or_opened_time b of
           Some opened_at \<Rightarrow>
             if cb_reset_timeout b \<le> now - opened_at then
               (b\<lparr>open_flag := False, failure_count := 0, last_failure_or_opened_time := None\<rparr>, False)
             else (b, True)
         | None \<Rightarrow> (b\<lparr>open_flag := False, failure_count := 0\<rparr>, False)))"

definition get_reset_timeout :: "circuit_breaker \<Rightarrow> duration" where
  "get_reset_timeout b = cb_reset_timeout b"

subsection \<open>The states a breaker reaches\<close>

text \<open>
  Open if and only if the opening time is known (the inconsistent state that the source guards
  against is never reached), and a closed breaker has counted fewer failures than the threshold.
\<close>

definition breaker_inv :: "circuit_breaker \<Rightarrow> bool" where
  "breaker_inv b \<longleftrightarrow>
     (if open_flag b then last_failure_or_opened_time b \<noteq> None
      else last_failure_or_opened_time b = None
        \<and> unat (failure_count b) < max 1 (unat (cb_threshold b)))"

datatype breaker_call = Success instant | Failure instant | Check instant

fun breaker_step :: "breaker_call \<Rightarrow> circuit_breaker \<Rightarrow> circuit_breaker" where
  "breaker_step (Success now) b = record_success now b"
| "breaker_step (Failure now) b = record_failure now b"
| "breaker_step (Check now) b = fst (is_open now b)"

lemma unat_Suc_le:
  fixes c :: u32
  shows "unat c + 1 < 2 ^ 32 \<Longrightarrow> unat (c + 1) = unat c + 1"
  by (simp add: unat_word_ariths)

lemma count_below:
  fixes c t :: u32
  assumes "unat c < max 1 (unat t)"
  shows "unat (c + 1) = unat c + 1"
proof -
  have "unat t < 2 ^ 32" using unsigned_less [of t, where 'a = nat] by simp
  with assms show ?thesis by (intro unat_Suc_le) (auto simp: max_def split: if_splits)
qed

lemma record_failure_closed:
  assumes "breaker_inv b" "\<not> open_flag b"
  shows "record_failure now b =
    (if unat (cb_threshold b) \<le> unat (failure_count b) + 1
     then b\<lparr>failure_count := failure_count b + 1, open_flag := True, last_failure_or_opened_time := Some now\<rparr>
     else b\<lparr>failure_count := failure_count b + 1\<rparr>)"
  using assms count_below [of "failure_count b" "cb_threshold b"]
  by (simp add: record_failure_def breaker_inv_def Let_def word_le_nat_alt)

lemma breaker_inv_new: "breaker_inv (circuit_breaker_new thr timeout)"
  by (simp add: breaker_inv_def circuit_breaker_new_def)

lemma breaker_inv_success: "breaker_inv (record_success now b)"
  by (simp add: breaker_inv_def record_success_def)

lemma breaker_inv_failure:
  assumes "breaker_inv b"
  shows "breaker_inv (record_failure now b)"
proof (cases "open_flag b")
  case True
  with assms show ?thesis by (simp add: record_failure_def breaker_inv_def)
next
  case False
  with assms count_below [of "failure_count b" "cb_threshold b"] show ?thesis
    by (auto simp: record_failure_closed breaker_inv_def)
qed

lemma breaker_inv_check: "breaker_inv b \<Longrightarrow> breaker_inv (fst (is_open now b))"
  by (auto simp: breaker_inv_def is_open_def split: option.splits if_splits)

lemmas breaker_inv_intros [inv_intros] =
  breaker_inv_new breaker_inv_success breaker_inv_failure breaker_inv_check

lemma breaker_inv_step: "breaker_inv b \<Longrightarrow> breaker_inv (breaker_step c b)"
  by (cases c) (simp_all add: inv_intros)

lemma breaker_inv_run: "breaker_inv b \<Longrightarrow> breaker_inv (fold breaker_step cs b)"
  by (induction cs arbitrary: b) (simp_all add: breaker_inv_step)

interpretation simple: breaker record_success record_failure open_flag
  "\<lambda>b. unat (failure_count b)" "\<lambda>b. max 1 (unat (cb_threshold b))" breaker_inv
proof unfold_locales
  fix b :: circuit_breaker and t :: instant
  assume b: "breaker_inv b" "\<not> open_flag b"
  then show "\<not> open_flag (record_success t b) \<and> unat (failure_count (record_success t b)) = 0
      \<and> breaker_inv (record_success t b)
      \<and> max 1 (unat (cb_threshold (record_success t b))) = max 1 (unat (cb_threshold b))"
    by (simp add: record_success_def breaker_inv_def)
  have inv: "breaker_inv (record_failure t b)"
    using b by (simp add: inv_intros)
  have count: "unat (failure_count b + 1) = unat (failure_count b) + 1"
    using b by (intro count_below [of _ "cb_threshold b"]) (simp add: breaker_inv_def)
  {
    assume "unat (failure_count b) + 1 < max 1 (unat (cb_threshold b))"
    with b count inv show "\<not> open_flag (record_failure t b)
        \<and> unat (failure_count (record_failure t b)) = unat (failure_count b) + 1
        \<and> breaker_inv (record_failure t b)
        \<and> max 1 (unat (cb_threshold (record_failure t b))) = max 1 (unat (cb_threshold b))"
      by (simp add: record_failure_closed max_def split: if_splits)
  }
  assume "max 1 (unat (cb_threshold b)) \<le> unat (failure_count b) + 1"
  with b show "open_flag (record_failure t b)"
    by (simp add: record_failure_closed)
qed

text \<open>
  From a new breaker, a history of recorded outcomes opens the circuit at some point if and only
  if it contains \<open>threshold\<close> consecutive failures (at least one, when the threshold is 0).
\<close>

theorem breaker_opens_on_consecutive_failures:
  "(\<exists>k. open_flag (fold (\<lambda>(t, ok). if ok then record_success t else record_failure t)
          (take k hist) (circuit_breaker_new thr timeout)))
   \<longleftrightarrow> (\<exists>xs ys. map snd hist = xs @ replicate (max 1 (unat thr)) False @ ys)"
proof -
  have "simple.record_outcome = (\<lambda>(t, ok). if ok then record_success t else record_failure t)"
    by (rule simple.record_outcome_def)
  then show ?thesis
    using simple.blocks_iff_failure_run [of "circuit_breaker_new thr timeout" hist]
    by (simp add: breaker_inv_new has_failure_run_def) (simp add: circuit_breaker_new_def)
qed

text \<open>
  In every state that calls reach from a new breaker: an open circuit has its opening time, so
  the source's inconsistent branch is dead, and a closed circuit has counted fewer failures than the
  threshold, so the 32-bit counter never wraps.
\<close>

theorem breaker_reachable_consistent:
  "let b = fold breaker_step cs (circuit_breaker_new thr timeout)
   in (open_flag b \<longleftrightarrow> last_failure_or_opened_time b \<noteq> None)
    \<and> (if open_flag b then True
       else unat (failure_count b) + 1 < 2 ^ 32 \<and> unat (failure_count b) < max 1 (unat (cb_threshold b)))"
proof -
  let ?b = "fold breaker_step cs (circuit_breaker_new thr timeout)"
  have "breaker_inv ?b"
    by (intro breaker_inv_run breaker_inv_new)
  moreover have "unat (cb_threshold ?b) < 2 ^ 32"
    using unsigned_less [of "cb_threshold ?b", where 'a = nat] by simp
  ultimately show ?thesis
    by (auto simp: breaker_inv_def Let_def max_def split: if_splits)
qed

lemma breaker_timeout_facts:
  assumes "open_flag b" "last_failure_or_opened_time b = Some opened"
  shows "snd (is_open now b) \<longleftrightarrow> now - opened < cb_reset_timeout b"
    and "open_flag (fst (is_open now b)) \<longleftrightarrow> now - opened < cb_reset_timeout b"
    and "fst (is_open now b) = (if now - opened < cb_reset_timeout b then b else record_success now b)"
    and "last_failure_or_opened_time (record_failure t b) = Some t"
  using assms by (simp_all add: is_open_def record_success_def record_failure_def not_less)

text \<open>
  A check of an open circuit answers "open" exactly until the reset timeout has elapsed since
  the last recorded failure; after that it closes the circuit and clears the failures. Failures
  recorded while open move that instant forward.
\<close>

theorem breaker_timeout:
  assumes "open_flag b" "last_failure_or_opened_time b = Some opened"
  shows "(snd (is_open now b) \<longleftrightarrow> now - opened < cb_reset_timeout b)
    \<and> (open_flag (fst (is_open now b)) \<longleftrightarrow> now - opened < cb_reset_timeout b)
    \<and> (fst (is_open now b) = (if now - opened < cb_reset_timeout b then b else record_success now b))
    \<and> (last_failure_or_opened_time (record_failure t b) = Some t)"
  by (intro conjI breaker_timeout_facts [OF assms])

theorem breaker_timeout_witness:
  "snd (is_open 150 (record_failure 100 (circuit_breaker_new 1 60)))
   \<and> \<not> snd (is_open 160 (record_failure 100 (circuit_breaker_new 1 60)))"
proof -
  let ?b = "record_failure 100 (circuit_breaker_new 1 60)"
  have b: "open_flag ?b" "last_failure_or_opened_time ?b = Some 100" "cb_reset_timeout ?b = 60"
    by (simp_all add: record_failure_def circuit_breaker_new_def)
  show ?thesis
    using breaker_timeout [OF b(1,2), of 150] breaker_timeout [OF b(1,2), of 160] b(3) by simp
qed

end
