(* ===== verification/CircuitBreakerSdk.thy ===== *)
theory CircuitBreakerSdk
  imports CircuitBreaker
begin

text \<open>
  src/core/utils/circuit_breaker_sdk.rs: the breaker with the states Closed, Open and HalfOpen, its
  configuration and its metrics. The counters keep their width and wrap as \<open>fetch_add\<close> does. A
  method runs as one step at the instant \<open>now\<close> that its calls of \<open>Instant::now()\<close> read; \<open>execute\<close>
  reads the clock before and after the operation. Logging has no state and is left out.
\<close>

section \<open>Configuration and errors\<close>

datatype circuit_breaker_error =
    CircuitOpen
  | OperationFailed string
  | ConfigError string

fun circuit_breaker_error_display :: "circuit_breaker_error \<Rightarrow> string" where
  "circuit_breaker_error_display CircuitOpen = ''Circuit breaker is open''"
| "circuit_breaker_error_display (OperationFailed msg) = ''Operation failed: '' @ msg"
| "circuit_breaker_error_display (ConfigError msg) = ''Configuration error: '' @ msg"

datatype circuit_state = Closed | Open | HalfOpen

record circuit_breaker_config =
  failure_threshold :: u32
  reset_timeout :: duration
  success_threshold :: u32
  half_open_max_requests :: u32
  sliding_window_size :: usize
  enable_logging :: bool

definition cb_config_default :: circuit_breaker_config where
  "cb_config_default =
     \<lparr>failure_threshold = 5, reset_timeout = from_secs 30, success_threshold = 3,
      half_open_max_requests = 5, sliding_window_size = 100, enable_logging = True\<rparr>"

definition with_failure_threshold :: "u32 \<Rightarrow> circuit_breaker_config \<Rightarrow> circuit_breaker_config" where
  "with_failure_threshold threshold c = c\<lparr>failure_threshold := threshold\<rparr>"

definition with_reset_timeout :: "duration \<Rightarrow> circuit_breaker_config \<Rightarrow> circuit_breaker_config" where
  "with_reset_timeout timeout c = c\<lparr>reset_timeout := timeout\<rparr>"

definition with_success_threshold :: "u32 \<Rightarrow> circuit_breaker_config \<Rightarrow> circuit_breaker_config" where
  "with_success_threshold threshold c = c\<lparr>success_threshold := threshold\<rparr>"

definition with_half_open_max_requests :: "u32 \<Rightarrow> circuit_breaker_config \<Rightarrow> circuit_breaker_config" where
  "with_half_open_max_requests max_requests c = c\<lparr>half_open_max_requests := max_requests\<rparr>"

definition with_sliding_window_size :: "usize \<Rightarrow> circuit_breaker_config \<Rightarrow> circuit_breaker_config" where
  "with_sliding_window_size n c = c\<lparr>sliding_window_size := n\<rparr>"

definition with_logging :: "bool \<Rightarrow> circuit_breaker_config \<Rightarrow> circuit_breaker_config" where
  "with_logging enable c = c\<lparr>enable_logging := enable\<rparr>"

definition cb_config_validate :: "circuit_breaker_config \<Rightarrow> circuit_breaker_error + unit" where
  "cb_config_validate c =
     (if failure_threshold c = 0 then Inl (ConfigError ''Failure threshold must be greater than 0'')
      else if success_threshold c = 0 then Inl (ConfigError ''Success threshold must be greater than 0'')
      else if half_open_max_requests c = 0 then
        Inl (ConfigError ''Half-open max requests must be greater than 0'')
      else if sliding_window_size c = 0 then
        Inl (ConfigError ''Sliding window size must be greater than 0'')
      else Inr ())"

section \<open>The breaker\<close>

record cb_metrics =
  total_requests :: u64
  successful_requests :: u64
  failed_requests :: u64
  rejected_requests :: u64
  state_transitions :: u64
  time_in_open_state :: duration
  time_in_half_open_state :: duration
  last_failure_time :: "instant option"
  last_success_time :: "instant option"

record circuit_breaker_sdk =
  cb_config :: circuit_breaker_config
  sdk_failure_count :: u32
  success_count :: u32
  half_open_requests :: u32
  cb_state :: circuit_state
  last_state_change :: instant
  metrics :: cb_metrics

definition cb_metrics_default :: cb_metrics where
  "cb_metrics_default =
     \<lparr>total_requests = 0, successful_requests = 0, failed_requests = 0, rejected_requests = 0,
      state_transitions = 0, time_in_open_state = 0, time_in_half_open_state = 0,
      last_failure_time = None, last_success_time = None\<rparr>"

definition sdk_new :: "instant \<Rightarrow> circuit_breaker_config \<Rightarrow> circuit_breaker_error + circuit_breaker_sdk" where
  "sdk_new now config =
     and_then (cb_config_validate config) (\<lambda>_.
       Inr \<lparr>cb_config = config, sdk_failure_count = 0, success_count = 0, half_open_requests = 0,
            cb_state = Closed, last_state_change = now, metrics = cb_metrics_default\<rparr>)"

definition sdk_with_defaults :: "instant \<Rightarrow> circuit_breaker_error + circuit_breaker_sdk" where
  "sdk_with_defaults now = sdk_new now cb_config_default"

definition should_attempt_reset :: "instant \<Rightarrow> circuit_breaker_sdk \<Rightarrow> bool" where
  "should_attempt_reset now b \<longleftrightarrow> reset_timeout (cb_config b) \<le> now - last_state_change b"

definition count_transition :: "cb_metrics \<Rightarrow> cb_metrics" where
  "count_transition m = m\<lparr>state_transitions := state_transitions m + 1\<rparr>"

definition transition_to_open :: "instant \<Rightarrow> circuit_breaker_sdk \<Rightarrow> circuit_breaker_sdk" where
  "transition_to_open now b =
     (if cb_state b \<noteq> Open then
        b\<lparr>cb_state := Open, last_state_change := now, metrics := count_transition (metrics b)\<rparr>
      else b)"

definition transition_to_half_open :: "instant \<Rightarrow> circuit_breaker_sdk \<Rightarrow> circuit_breaker_sdk" where
  "transition_to_half_open now b =
     (if cb_state b = Open then
        b\<lparr>cb_state := HalfOpen, half_open_requests := 0, success_count := 0, last_state_change := now,
          metrics := count_transition (metrics b)\<rparr>
      else b)"

definition transition_to_closed :: "instant \<Rightarrow> circuit_breaker_sdk \<Rightarrow> circuit_breaker_sdk" where
  "transition_to_closed now b =
     (if cb_state b \<noteq> Closed then
        b\<lparr>cb_state := Closed, sdk_failure_count := 0, success_count := 0, half_open_requests := 0,
          last_state_change := now, metrics := count_transition (metrics b)\<rparr>
      else b)"

definition record_rejected_request :: "circuit_breaker_sdk \<Rightarrow> circuit_breaker_sdk" where
  "record_rejected_request b =
     b\<lparr>metrics := (metrics b)\<lparr>rejected_requests := rejected_requests (metrics b) + 1\<rparr>\<rparr>"

definition allow_request :: "instant \<Rightarrow> circuit_breaker_sdk \<Rightarrow> circuit_breaker_sdk \<times> bool" where
  "allow_request now b0 =
     (let b = b0\<lparr>metrics := (metrics b0)\<lparr>total_requests := total_requests (metrics b0) + 1\<rparr>\<rparr>
      in case cb_state b of
           Closed \<Rightarrow> (b, True)
         | Open \<Rightarrow>
             if should_attempt_reset now b then (transition_to_half_open now b, True)
             else (record_rejected_request b, False)
         | HalfOpen \<Rightarrow>
             if half_open_requests b < half_open_max_requests (cb_config b) then
               (b\<lparr>half_open_requests := half_open_requests b + 1\<rparr>, True)
             else (record_rejected_request b, False))"

definition sdk_record_success :: "instant \<Rightarrow> circuit_breaker_sdk \<Rightarrow> circuit_breaker_sdk" where
  "sdk_record_success now b0 =
     (let b = b0\<lparr>success_count := success_count b0 + 1,
                 metrics := (metrics b0)\<lparr>successful_requests := successful_requests (metrics b0) + 1,
                                        last_success_time := Some now\<rparr>\<rparr>
      in case cb_state b0 of
           Closed \<Rightarrow> b\<lparr>sdk_failure_count := 0\<rparr>
         | HalfOpen \<Rightarrow>
             if success_threshold (cb_config b) \<le> success_count b then transition_to_closed now b else b
         | Open \<Rightarrow> b)"

definition sdk_record_failure :: "instant \<Rightarrow> circuit_breaker_sdk \<Rightarrow> circuit_breaker_sdk" where
  "sdk_record_failure now b0 =
     (let b = b0\<lparr>sdk_failure_count := sdk_failure_count b0 + 1,
                 metrics := (metrics b0)\<lparr>failed_requests := failed_requests (metrics b0) + 1,
                                        last_failure_time := Some now\<rparr>\<rparr>
      in case cb_state b0 of
           Closed \<Rightarrow>
             if failure_threshold (cb_config b) \<le> sdk_failure_count b then transition_to_open now b else b
         | HalfOpen \<Rightarrow> transition_to_open now b
         | Open \<Rightarrow> b)"

text \<open>
  \<open>execute\<close> runs the operation, a change of the world with a result (an error as the text it
  displays), only when the request is allowed; it may end at a later instant.
\<close>

definition sdk_execute ::
  "instant \<Rightarrow> instant \<Rightarrow> ('w \<Rightarrow> 'w \<times> (string + 'a)) \<Rightarrow> 'w \<Rightarrow> circuit_breaker_sdk
   \<Rightarrow> 'w \<times> circuit_breaker_sdk \<times> (circuit_breaker_error + 'a)" where
  "sdk_execute start finish operation w b =
     (let (b1, allowed) = allow_request start b
      in if \<not> allowed then (w, b1, Inl CircuitOpen)
         else
           (let (w', r) = operation w
            in case r of
                 Inr result \<Rightarrow> (w', sdk_record_success finish b1, Inr result)
               | Inl err \<Rightarrow> (w', sdk_record_failure finish b1, Inl (OperationFailed err))))"

definition sdk_reset :: "instant \<Rightarrow> circuit_breaker_sdk \<Rightarrow> circuit_breaker_sdk" where
  "sdk_reset now b =
     b\<lparr>sdk_failure_count := 0, success_count := 0, half_open_requests := 0, cb_state := Closed,
       last_state_change := now\<rparr>"

lemmas sdk_defs [model_defs] =
  allow_request_def sdk_record_success_def sdk_record_failure_def sdk_reset_def
  transition_to_open_def transition_to_half_open_def transition_to_closed_def
  record_rejected_request_def count_transition_def should_attempt_reset_def Let_def

section \<open>Steps and reachable states\<close>

inductive sdk_step :: "circuit_breaker_sdk \<Rightarrow> circuit_breaker_sdk \<Rightarrow> bool" where
  request: "sdk_step b (fst (allow_request now b))"
| success: "sdk_step b (sdk_record_success now b)"
| failure: "sdk_step b (sdk_record_failure now b)"
| reset: "sdk_step b (sdk_reset now b)"

inductive sdk_reachable :: "circuit_breaker_config \<Rightarrow> circuit_breaker_sdk \<Rightarrow> bool" for config where
  start: "sdk_new now config = Inr b \<Longrightarrow> sdk_reachable config b"
| step: "sdk_reachable config b \<Longrightarrow> sdk_step b b' \<Longrightarrow> sdk_reachable config b'"

text \<open>
  The invariant: each state's own counter is below the limit that would have left the state.
\<close>

definition sdk_inv :: "circuit_breaker_sdk \<Rightarrow> bool" where
  "sdk_inv b \<longleftrightarrow>
     (case cb_state b of
        Closed \<Rightarrow> unat (sdk_failure_count b) < unat (failure_threshold (cb_config b))
      | Open \<Rightarrow> True
      | HalfOpen \<Rightarrow>
          unat (success_count b) < unat (success_threshold (cb_config b))
          \<and> unat (half_open_requests b) \<le> unat (half_open_max_requests (cb_config b)))
     \<and> cb_config_validate (cb_config b) = Inr ()"

lemma cb_config_valid_iff:
  "cb_config_validate c = Inr () \<longleftrightarrow>
     0 < unat (failure_threshold c) \<and> 0 < unat (success_threshold c)
     \<and> 0 < unat (half_open_max_requests c) \<and> 0 < unat (sliding_window_size c)"
  by (auto simp: cb_config_validate_def unat_gt_0)

lemma count_below_u32:
  fixes c t :: u32
  shows "unat c < unat t \<Longrightarrow> unat (c + 1) = unat c + 1"
  by (rule count_below [of c t]) (auto simp: max_def)

lemma sdk_inv_new: "sdk_new now config = Inr b \<Longrightarrow> sdk_inv b"
  by (auto simp: sdk_new_def sdk_inv_def cb_config_valid_iff)

lemma sdk_inv_request: "sdk_inv b \<Longrightarrow> sdk_inv (fst (allow_request now b))"
  using count_below_u32 [of "half_open_requests b" "half_open_max_requests (cb_config b)"]
  by (cases "cb_state b")
     (auto simp: model_defs sdk_inv_def cb_config_valid_iff word_less_nat_alt)

lemma sdk_inv_success: "sdk_inv b \<Longrightarrow> sdk_inv (sdk_record_success now b)"
  using count_below_u32 [of "success_count b" "success_threshold (cb_config b)"]
  by (cases "cb_state b")
     (auto simp: model_defs sdk_inv_def cb_config_valid_iff word_le_nat_alt not_le)

lemma sdk_inv_failure: "sdk_inv b \<Longrightarrow> sdk_inv (sdk_record_failure now b)"
  using count_below_u32 [of "sdk_failure_count b" "failure_threshold (cb_config b)"]
  by (cases "cb_state b")
     (auto simp: model_defs sdk_inv_def cb_config_valid_iff word_le_nat_alt not_le)

lemma sdk_inv_reset: "sdk_inv b \<Longrightarrow> sdk_inv (sdk_reset now b)"
  by (auto simp: model_defs sdk_inv_def cb_config_valid_iff)

lemmas sdk_inv_intros [inv_intros] =
  sdk_inv_new sdk_inv_request sdk_inv_success sdk_inv_failure sdk_inv_reset

lemma sdk_inv_step: "sdk_step b b' \<Longrightarrow> sdk_inv b \<Longrightarrow> sdk_inv b'"
  by (induction rule: sdk_step.induct) (simp_all add: inv_intros)

lemma config_kept: "sdk_step b b' \<Longrightarrow> cb_config b' = cb_config b"
  by (induction rule: sdk_step.induct)
     (auto simp: model_defs split: circuit_state.splits)

lemma sdk_reachable_inv: "sdk_reachable config b \<Longrightarrow> sdk_inv b \<and> cb_config b = config"
proof (induction rule: sdk_reachable.induct)
  case (start now b)
  then show ?case by (simp add: inv_intros) (auto simp: sdk_new_def)
next
  case (step b b')
  then show ?case using sdk_inv_step config_kept by metis
qed

section \<open>The contract of the breaker\<close>

text \<open>
  The breaker keeps the contract \<open>breaker\<close> of the simple one until it opens: recorded outcomes in
  the Closed state count, clear and open as that contract says.
\<close>

interpretation sdk: breaker sdk_record_success sdk_record_failure "\<lambda>b. cb_state b = Open"
  "\<lambda>b. unat (sdk_failure_count b)" "\<lambda>b. unat (failure_threshold (cb_config b))"
  "\<lambda>b. sdk_inv b \<and> cb_state b \<noteq> HalfOpen"
proof unfold_locales
  fix b :: circuit_breaker_sdk and t :: instant
  assume b: "sdk_inv b \<and> cb_state b \<noteq> HalfOpen" "cb_state b \<noteq> Open"
  then have closed: "cb_state b = Closed" and inv: "sdk_inv b"
    by (cases "cb_state b"; simp)+
  then have count: "unat (sdk_failure_count b + 1) = unat (sdk_failure_count b) + 1"
    using count_below_u32 [of "sdk_failure_count b" "failure_threshold (cb_config b)"]
    by (simp add: sdk_inv_def)
  show "cb_state (sdk_record_success t b) \<noteq> Open \<and> unat (sdk_failure_count (sdk_record_success t b)) = 0
      \<and> (sdk_inv (sdk_record_success t b) \<and> cb_state (sdk_record_success t b) \<noteq> HalfOpen)
      \<and> unat (failure_threshold (cb_config (sdk_record_success t b))) = unat (failure_threshold (cb_config b))"
    using sdk_inv_success [OF inv, of t] closed by (simp add: sdk_record_success_def Let_def)
  {
    assume "unat (sdk_failure_count b) + 1 < unat (failure_threshold (cb_config b))"
    then show "cb_state (sdk_record_failure t b) \<noteq> Open
        \<and> unat (sdk_failure_count (sdk_record_failure t b)) = unat (sdk_failure_count b) + 1
        \<and> (sdk_inv (sdk_record_failure t b) \<and> cb_state (sdk_record_failure t b) \<noteq> HalfOpen)
        \<and> unat (failure_threshold (cb_config (sdk_record_failure t b)))
          = unat (failure_threshold (cb_config b))"
      using sdk_inv_failure [OF inv, of t] closed count
      by (simp add: sdk_record_failure_def Let_def word_le_nat_alt)
  }
  assume "unat (failure_threshold (cb_config b)) \<le> unat (sdk_failure_count b) + 1"
  with closed count show "cb_state (sdk_record_failure t b) = Open"
    by (simp add: sdk_record_failure_def transition_to_open_def Let_def word_le_nat_alt)
qed

text \<open>
  From a new breaker with a valid configuration, a history of recorded outcomes opens the
  circuit at some point if and only if it contains \<open>failure_threshold\<close> consecutive failures.
\<close>

theorem sdk_opens_on_consecutive_failures:
  assumes "sdk_new now config = Inr b"
  shows "(\<exists>k. cb_state (fold (\<lambda>(t, ok). if ok then sdk_record_success t else sdk_record_failure t)
            (take k hist) b) = Open)
     \<longleftrightarrow> (\<exists>xs ys. map snd hist = xs @ replicate (unat (failure_threshold config)) False @ ys)"
proof -
  have "sdk.record_outcome = (\<lambda>(t, ok). if ok then sdk_record_success t else sdk_record_failure t)"
    by (rule sdk.record_outcome_def)
  moreover have "sdk_inv b" by (rule sdk_inv_new) fact
  moreover have "cb_state b = Closed" "cb_config b = config" "sdk_failure_count b = 0"
    "0 < unat (failure_threshold config)"
    using assms by (auto simp: sdk_new_def cb_config_valid_iff)
  ultimately show ?thesis
    using sdk.blocks_iff_failure_run [of b hist] by (simp add: has_failure_run_def)
qed

definition default_breaker :: "instant \<Rightarrow> circuit_breaker_sdk" where
  "default_breaker now =
     \<lparr>cb_config = cb_config_default, sdk_failure_count = 0, success_count = 0,
      half_open_requests = 0, cb_state = Closed, last_state_change = now,
      metrics = cb_metrics_default\<rparr>"

lemma sdk_new_defaults: "sdk_new now cb_config_default = Inr (default_breaker now)"
  by (simp add: sdk_new_def cb_config_validate_def default_breaker_def)
     (simp add: cb_config_default_def)

theorem sdk_opens_on_consecutive_failures_witness:
  "\<exists>b. sdk_new 0 cb_config_default = Inr b
     \<and> (\<exists>k. cb_state (fold (\<lambda>(t, ok). if ok then sdk_record_success t else sdk_record_failure t)
            (take k ((0, True) # map (\<lambda>t. (t, False)) [1..<6])) b) = Open)"
proof -
  have five: "unat (failure_threshold cb_config_default) = 5"
    by (simp add: cb_config_default_def)
  have "map snd ((0, True) # map (\<lambda>t. (t, False)) [1..<6]) = [True] @ replicate 5 False @ []"
    by (simp add: eval_nat_numeral upt_rec)
  then have "\<exists>xs ys. map snd ((0, True) # map (\<lambda>t. (t, False)) [1..<6]) =
      xs @ replicate (unat (failure_threshold cb_config_default)) False @ ys"
    unfolding five by blast
  then have "\<exists>k. cb_state (fold (\<lambda>(t, ok). if ok then sdk_record_success t else sdk_record_failure t)
      (take k ((0, True) # map (\<lambda>t. (t, False)) [1..<6])) (default_breaker 0)) = Open"
    by (rule sdk_opens_on_consecutive_failures [OF sdk_new_defaults, THEN iffD2])
  with sdk_new_defaults show ?thesis by blast
qed

section \<open>The state machine\<close>

lemma sdk_transitions_facts:
  assumes "sdk_reachable config b"
  shows "cb_state (fst (allow_request now b)) =
      (if cb_state b = Open \<and> reset_timeout config \<le> now - last_state_change b then HalfOpen
       else cb_state b)"
    and "cb_state (sdk_record_success now b) =
      (if cb_state b = HalfOpen \<and> unat (success_threshold config) \<le> unat (success_count b) + 1
       then Closed else cb_state b)"
    and "cb_state (sdk_record_failure now b) =
      (case cb_state b of
         Closed \<Rightarrow> if unat (failure_threshold config) \<le> unat (sdk_failure_count b) + 1 then Open else Closed
       | HalfOpen \<Rightarrow> Open
       | Open \<Rightarrow> Open)"
proof -
  have inv: "sdk_inv b" and conf: "cb_config b = config"
    using sdk_reachable_inv [OF assms] by simp_all
  have half: "cb_state b = HalfOpen \<Longrightarrow> unat (success_count b + 1) = unat (success_count b) + 1"
    using inv count_below_u32 [of "success_count b" "success_threshold config"]
    by (simp add: sdk_inv_def conf)
  have closed: "cb_state b = Closed \<Longrightarrow> unat (sdk_failure_count b + 1) = unat (sdk_failure_count b) + 1"
    using inv count_below_u32 [of "sdk_failure_count b" "failure_threshold config"]
    by (simp add: sdk_inv_def conf)
  show "cb_state (fst (allow_request now b)) =
      (if cb_state b = Open \<and> reset_timeout config \<le> now - last_state_change b then HalfOpen
       else cb_state b)"
    by (cases "cb_state b") (simp_all add: model_defs conf)
  show "cb_state (sdk_record_success now b) =
      (if cb_state b = HalfOpen \<and> unat (success_threshold config) \<le> unat (success_count b) + 1
       then Closed else cb_state b)"
    using half by (cases "cb_state b") (simp_all add: model_defs conf word_le_nat_alt)
  show "cb_state (sdk_record_failure now b) =
      (case cb_state b of
         Closed \<Rightarrow> if unat (failure_threshold config) \<le> unat (sdk_failure_count b) + 1 then Open else Closed
       | HalfOpen \<Rightarrow> Open
       | Open \<Rightarrow> Open)"
    using closed by (cases "cb_state b") (simp_all add: model_defs conf word_le_nat_alt)
qed

text \<open>
  C22. The state machine of a reachable breaker, with its guards over the integers (no counter that
  guards a transition wraps): a request leaves Open for HalfOpen only once the reset timeout has
  elapsed and changes no other state; a success closes a HalfOpen circuit at the success threshold
  and changes no other state; a failure opens a HalfOpen circuit at once and a Closed one at the
  failure threshold.
\<close>

theorem sdk_transitions:
  assumes "sdk_reachable config b"
  shows "(cb_state (fst (allow_request now b)) =
      (if cb_state b = Open \<and> reset_timeout config \<le> now - last_state_change b then HalfOpen
       else cb_state b))
    \<and> (cb_state (sdk_record_success now b) =
      (if cb_state b = HalfOpen \<and> unat (success_threshold config) \<le> unat (success_count b) + 1
       then Closed else cb_state b))
    \<and> (cb_state (sdk_record_failure now b) =
      (case cb_state b of
         Closed \<Rightarrow> if unat (failure_threshold config) \<le> unat (sdk_failure_count b) + 1 then Open else Closed
       | HalfOpen \<Rightarrow> Open
       | Open \<Rightarrow> Open))"
  by (intro conjI sdk_transitions_facts [OF assms])

lemma sdk_reachable_defaults: "sdk_reachable cb_config_default (default_breaker now)"
  by (rule sdk_reachable.start [OF sdk_new_defaults])

theorem sdk_transitions_witness:
  "cb_state (sdk_record_failure 9 (default_breaker 0)) = Closed"
  using sdk_transitions [OF sdk_reachable_defaults [of 0], of 9, THEN conjunct2, THEN conjunct2]
  by (simp add: default_breaker_def cb_config_default_def)

section \<open>Requests through the breaker\<close>

text \<open>
  An open circuit whose timeout has not elapsed rejects: the operation does not run (the world
  it changes is untouched), the caller gets the error \<open>CircuitOpen\<close>, and of the breaker only the
  counts of total and rejected requests move.
\<close>

theorem execute_rejects_while_open:
  assumes "cb_state b = Open" "start - last_state_change b < reset_timeout (cb_config b)"
  shows "sdk_execute start finish operation w b =
    (w, b\<lparr>metrics := (metrics b)\<lparr>total_requests := total_requests (metrics b) + 1,
                                rejected_requests := rejected_requests (metrics b) + 1\<rparr>\<rparr>,
     Inl CircuitOpen)"
  using assms by (simp add: sdk_execute_def model_defs)

theorem execute_rejects_while_open_witness:
  "\<exists>b. cb_state b = Open
     \<and> fst (sdk_execute 10 11 (\<lambda>n :: nat. (n + 1, Inr ())) 0 b) = 0
     \<and> snd (snd (sdk_execute 10 11 (\<lambda>n :: nat. (n + 1, Inr ())) 0 b)) = Inl CircuitOpen"
proof -
  let ?b = "\<lparr>cb_config = cb_config_default, sdk_failure_count = 5, success_count = 0,
    half_open_requests = 0, cb_state = Open, last_state_change = 5, metrics = cb_metrics_default\<rparr>"
  have "cb_state ?b = Open" "10 - last_state_change ?b < reset_timeout (cb_config ?b)"
    by (simp_all add: cb_config_default_def from_secs_def)
  note this(1) execute_rejects_while_open [OF this, of 11 "\<lambda>n :: nat. (n + 1, Inr ())" 0]
  then show ?thesis by (intro exI [of _ ?b]) simp
qed

subsection \<open>Recovery\<close>

definition execute_ok :: "instant \<times> instant \<Rightarrow> circuit_breaker_sdk \<Rightarrow> circuit_breaker_sdk" where
  "execute_ok = (\<lambda>(start, finish) b.
     fst (snd (sdk_execute start finish (\<lambda>w. (w, Inr () :: string + unit)) () b)))"

lemma execute_ok_closed: "cb_state b = Closed \<Longrightarrow> cb_state (fold execute_ok ts b) = Closed"
  by (induction ts arbitrary: b) (auto simp: execute_ok_def sdk_execute_def model_defs)

text \<open>HalfOpen after \<open>n\<close> successes: the request that entered the state has not been counted.\<close>

definition half_open_after :: "nat \<Rightarrow> circuit_breaker_sdk \<Rightarrow> bool" where
  "half_open_after n b \<longleftrightarrow>
     cb_state b = HalfOpen \<and> unat (success_count b) = n \<and> unat (half_open_requests b) + 1 = n
     \<and> n < unat (success_threshold (cb_config b)) \<and> n \<le> unat (half_open_max_requests (cb_config b)) + 1"

lemma execute_ok_half_open:
  assumes "half_open_after n b"
  shows "cb_config (execute_ok t b) = cb_config b"
    and "if n = unat (half_open_max_requests (cb_config b)) + 1 then half_open_after n (execute_ok t b)
      else if unat (success_threshold (cb_config b)) = n + 1 then cb_state (execute_ok t b) = Closed
      else half_open_after (n + 1) (execute_ok t b)"
proof -
  have count: "unat (success_count b + 1) = n + 1"
    using assms count_below_u32 [of "success_count b" "success_threshold (cb_config b)"]
    by (simp add: half_open_after_def)
  have req: "unat (half_open_requests b + 1) = n"
    if "n \<noteq> unat (half_open_max_requests (cb_config b)) + 1"
    using that assms count_below_u32 [of "half_open_requests b" "half_open_max_requests (cb_config b)"]
    by (simp add: half_open_after_def)
  show "cb_config (execute_ok t b) = cb_config b"
    using assms by (cases t) (auto simp: half_open_after_def execute_ok_def sdk_execute_def model_defs)
  show "if n = unat (half_open_max_requests (cb_config b)) + 1 then half_open_after n (execute_ok t b)
      else if unat (success_threshold (cb_config b)) = n + 1 then cb_state (execute_ok t b) = Closed
      else half_open_after (n + 1) (execute_ok t b)"
    using assms count req
    by (cases t) (auto simp: half_open_after_def execute_ok_def sdk_execute_def model_defs
        word_less_nat_alt word_le_nat_alt)
qed

lemma half_open_run:
  assumes "half_open_after n b"
  shows "cb_state (fold execute_ok ts b) =
    (if unat (success_threshold (cb_config b)) \<le> unat (half_open_max_requests (cb_config b)) + 1
        \<and> unat (success_threshold (cb_config b)) \<le> n + length ts
     then Closed else HalfOpen)"
  using assms
proof (induction ts arbitrary: n b)
  case Nil
  then show ?case by (auto simp: half_open_after_def)
next
  case (Cons t ts)
  note step = execute_ok_half_open [OF Cons.prems, of t]
  have bounds: "n < unat (success_threshold (cb_config b))" "n \<le> unat (half_open_max_requests (cb_config b)) + 1"
    using Cons.prems by (simp_all add: half_open_after_def)
  consider "n = unat (half_open_max_requests (cb_config b)) + 1"
    | "n < unat (half_open_max_requests (cb_config b)) + 1" "unat (success_threshold (cb_config b)) = n + 1"
    | "n < unat (half_open_max_requests (cb_config b)) + 1" "n + 1 < unat (success_threshold (cb_config b))"
    using bounds by linarith
  then show ?case
  proof cases
    case 1
    then have "half_open_after n (execute_ok t b)" using step(2) by simp
    from Cons.IH [OF this] show ?thesis using step(1) 1 bounds by simp
  next
    case 2
    then have "cb_state (execute_ok t b) = Closed" using step(2) by simp
    then show ?thesis using 2 by (simp add: execute_ok_closed)
  next
    case 3
    then have "half_open_after (n + 1) (execute_ok t b)" using step(2) by simp
    from Cons.IH [OF this] show ?thesis using step(1) by simp
  qed
qed

text \<open>
  C5. Recovery of an open circuit: once the timeout has elapsed and every operation succeeds,
  \<open>success_threshold\<close> calls of \<open>execute\<close> close the circuit, provided the success threshold is at
  most one more than \<open>half_open_max_requests\<close> (the request that enters HalfOpen is admitted without
  being counted). With a larger threshold, which the validation accepts, the circuit stays HalfOpen
  however many calls follow: it never closes again without a manual reset.
\<close>

theorem sdk_recovery:
  assumes "sdk_reachable config b" "cb_state b = Open"
    and "last_state_change b + reset_timeout config \<le> start"
    and "unat (success_threshold config) \<le> Suc (length ts)"
  shows "cb_state (fold (\<lambda>(start, finish) b.
            fst (snd (sdk_execute start finish (\<lambda>w. (w, Inr () :: string + unit)) () b)))
          ((start, finish) # ts) b) =
    (if unat (success_threshold config) \<le> unat (half_open_max_requests config) + 1 then Closed
     else HalfOpen)"
proof -
  have conf: "cb_config b = config" and valid: "cb_config_validate config = Inr ()"
    using sdk_reachable_inv [OF assms(1)] by (auto simp: sdk_inv_def)
  let ?b = "execute_ok (start, finish) b"
  have elapsed: "reset_timeout config \<le> start - last_state_change b" using assms(3) by simp
  have b: "cb_config ?b = config"
    "if unat (success_threshold config) = 1 then cb_state ?b = Closed else half_open_after 1 ?b"
    using assms(2) elapsed valid
    by (auto simp: execute_ok_def sdk_execute_def model_defs conf half_open_after_def cb_config_valid_iff
        word_le_nat_alt)
  have "cb_state (fold execute_ok ((start, finish) # ts) b) =
    (if unat (success_threshold config) \<le> unat (half_open_max_requests config) + 1 then Closed
     else HalfOpen)"
  proof (cases "unat (success_threshold config) = 1")
    case True
    then show ?thesis using b(2) by (simp add: execute_ok_closed)
  next
    case False
    then have "half_open_after 1 ?b" using b(2) by simp
    from half_open_run [OF this, of ts] show ?thesis using b(1) assms(4) by simp
  qed
  then show ?thesis by (simp only: execute_ok_def)
qed

theorem sdk_recovery_witness:
  "\<exists>b. sdk_reachable (with_failure_threshold 1 cb_config_default) b \<and> cb_state b = Open
     \<and> cb_state (fold (\<lambda>(start, finish) b.
            fst (snd (sdk_execute start finish (\<lambda>w. (w, Inr () :: string + unit)) () b)))
          ((from_secs 40, from_secs 41) # [(from_secs 42, from_secs 43), (from_secs 44, from_secs 45)]) b) = Closed"
proof -
  let ?c = "with_failure_threshold 1 cb_config_default"
  let ?fresh = "\<lparr>cb_config = ?c, sdk_failure_count = 0, success_count = 0, half_open_requests = 0,
    cb_state = Closed, last_state_change = 0, metrics = cb_metrics_default\<rparr>"
  let ?b = "sdk_record_failure 1 ?fresh"
  have "sdk_new 0 ?c = Inr ?fresh"
    by (simp add: sdk_new_def cb_config_validate_def) (simp add: cb_config_default_def with_failure_threshold_def)
  then have reach: "sdk_reachable ?c ?b"
    by (rule sdk_reachable.step [OF sdk_reachable.start]) (rule sdk_step.failure)
  have st: "cb_state ?b = Open" "last_state_change ?b = 1"
    by (simp_all add: model_defs cb_config_default_def with_failure_threshold_def)
  have c: "unat (success_threshold ?c) = 3" "unat (half_open_max_requests ?c) = 5"
    "reset_timeout ?c = from_secs 30"
    by (simp_all add: cb_config_default_def with_failure_threshold_def)
  show ?thesis
    using sdk_recovery [OF reach st(1), of "from_secs 40" 
      "[(from_secs 42, from_secs 43), (from_secs 44, from_secs 45)]" "from_secs 41"] reach st c
    by (intro exI [of _ ?b] conjI) (simp_all only: from_secs_def, simp)
qed

subsection \<open>Metrics\<close>

definition balanced :: "circuit_breaker_sdk \<Rightarrow> bool" where
  "balanced b \<longleftrightarrow> total_requests (metrics b) =
     successful_requests (metrics b) + failed_requests (metrics b) + rejected_requests (metrics b)"

lemma execute_balanced: "balanced b \<Longrightarrow> balanced (fst (snd (sdk_execute start finish operation w b)))"
  by (cases "cb_state b")
     (auto simp: balanced_def sdk_execute_def model_defs split: sum.splits prod.splits)

text \<open>
  The metrics balance: through any sequence of calls of \<open>execute\<close> on a new breaker, whatever the
  operations return and however long they take, every request is counted exactly once, as successful,
  failed or rejected (in the 64-bit arithmetic of the counters).
\<close>

theorem execute_metrics_balance:
  assumes "sdk_new now config = Inr b"
  shows "let m = metrics (fold (\<lambda>(start, finish, w, operation) b.
                   fst (snd (sdk_execute start finish operation w b))) calls b)
         in total_requests m = successful_requests m + failed_requests m + rejected_requests m"
proof -
  have "balanced b"
    using assms by (auto simp: sdk_new_def balanced_def cb_metrics_default_def)
  then have "balanced (fold (\<lambda>(start, finish, w, operation) b.
      fst (snd (sdk_execute start finish operation w b))) calls b)"
    by (induction calls arbitrary: b) (auto simp: execute_balanced)
  then show ?thesis by (simp add: balanced_def Let_def)
qed

theorem execute_metrics_balance_witness:
  "\<exists>b. sdk_new 0 cb_config_default = Inr b
     \<and> total_requests (metrics (fst (snd (sdk_execute 1 2 (\<lambda>w. (w, Inl ''x'' :: string + unit)) () b)))) = 1
     \<and> failed_requests (metrics (fst (snd (sdk_execute 1 2 (\<lambda>w. (w, Inl ''x'' :: string + unit)) () b)))) = 1"
  using execute_metrics_balance [OF sdk_new_defaults [of 0],
      of "[(1, 2, (), \<lambda>w. (w, Inl ''x'' :: string + unit))]"] sdk_new_defaults [of 0]
  by (intro exI conjI) (assumption, simp_all add: sdk_execute_def model_defs default_breaker_def cb_metrics_default_def)

end
