(* ===== verification/Lru.thy ===== *)
theory Lru
  imports Prelude
begin

text \<open>
  The interface of the lru crate's \<open>LruCache\<close>, which the Base58 cache, the deduplicator and the
  consumer's caches rely on. The crate is not part of the repository: its operations are a record
  \<open>lru_ops\<close> that the definitions take as an argument, and its documented contract is the locale
  \<open>lru_cache\<close>: the entries from the most to the least recently used, a lookup or an insertion moves
  its key to the front, and an insertion beyond the capacity drops the last entry.
\<close>

section \<open>The interface\<close>

text \<open>\<open>get_mut\<close> returns the value and, for the write through the reference, the cache it leaves.\<close>

record ('k, 'v, 'c) lru_ops =
  lru_new :: "nat \<Rightarrow> 'c"
  lru_get :: "'k \<Rightarrow> 'c \<Rightarrow> 'c \<times> 'v option"
  lru_get_mut :: "'k \<Rightarrow> 'c \<Rightarrow> 'c \<times> ('v \<times> ('v \<Rightarrow> 'c)) option"
  lru_put :: "'k \<Rightarrow> 'v \<Rightarrow> 'c \<Rightarrow> 'c"

definition touch :: "'k \<Rightarrow> 'v \<Rightarrow> ('k \<times> 'v) list \<Rightarrow> ('k \<times> 'v) list" where
  "touch k v xs = (k, v) # filter (\<lambda>p. fst p \<noteq> k) xs"

lemma map_of_touch [simp]: "map_of (touch k v xs) = (map_of xs)(k \<mapsto> v)"
proof
  fix x
  show "map_of (touch k v xs) x = ((map_of xs)(k \<mapsto> v)) x"
    by (induction xs) (auto simp: touch_def)
qed

lemma fst_set_touch [simp]: "fst ` set (touch k v xs) = insert k (fst ` set xs)"
  by (force simp: touch_def)

lemma map_fst_filter_ne: "map fst (filter (\<lambda>p. fst p \<noteq> k) xs) = filter (\<lambda>x. x \<noteq> k) (map fst xs)"
  by (induction xs) auto

lemma distinct_touch: "distinct (map fst xs) \<Longrightarrow> distinct (map fst (touch k v xs))"
  by (simp add: touch_def map_fst_filter_ne)

lemma filter_ne_absent: "map_of xs k = None \<Longrightarrow> filter (\<lambda>p. fst p \<noteq> k) xs = xs"
  by (induction xs) (auto split: if_splits)

lemma take_map_of_Some: "map_of (take n xs) k = Some v \<Longrightarrow> map_of xs k = Some v"
  by (induction xs arbitrary: n) (auto simp: take_Cons split: nat.splits if_splits)

lemma filter_take_present:
  "distinct (map fst xs) \<Longrightarrow> map_of (take n xs) k = Some v \<Longrightarrow>
   filter (\<lambda>p. fst p \<noteq> k) (take n xs) = take (n - 1) (filter (\<lambda>p. fst p \<noteq> k) xs)"
proof (induction xs arbitrary: n)
  case Nil
  then show ?case by simp
next
  case (Cons x xs)
  obtain m where m: "n = Suc m" using Cons.prems(2) by (cases n) auto
  show ?case
  proof (cases "fst x = k")
    case True
    then have "k \<notin> fst ` set xs" using Cons.prems(1) by auto
    then have "filter (\<lambda>p. fst p \<noteq> k) xs = xs" "filter (\<lambda>p. fst p \<noteq> k) (take m xs) = take m xs"
      by (auto simp: filter_id_conv dest!: in_set_takeD)
    then show ?thesis using True m by simp
  next
    case False
    then have "map_of (take m xs) k = Some v" using Cons.prems(2) m by (auto split: if_splits)
    moreover from this obtain j where "m = Suc j" by (cases m) auto
    ultimately show ?thesis using Cons.IH [of m] Cons.prems(1) False m by simp
  qed
qed

lemma filter_take_absent:
  "map_of (take n xs) k = None \<Longrightarrow> take n (filter (\<lambda>p. fst p \<noteq> k) xs) = take n xs"
proof (induction xs arbitrary: n)
  case (Cons x xs)
  then show ?case by (cases n) (auto split: if_splits)
qed simp

text \<open>Bringing a key to the front commutes with the cut at the capacity.\<close>

lemma touch_take:
  assumes "distinct (map fst xs)" "0 < n"
  shows "take n (touch k v (take n xs)) = take n (touch k v xs)"
proof (cases "map_of (take n xs) k")
  case None
  obtain m where m: "n = Suc m" using assms(2) by (cases n) auto
  have "take m (filter (\<lambda>p. fst p \<noteq> k) xs) = take m (take n (filter (\<lambda>p. fst p \<noteq> k) xs))"
    using m by simp
  also have "\<dots> = take m xs"
    using filter_take_absent [OF None] m by simp
  finally show ?thesis
    using filter_ne_absent [OF None] m by (simp add: touch_def)
next
  case (Some w)
  then show ?thesis
    using filter_take_present [OF assms(1) Some] assms(2) by (cases n) (simp_all add: touch_def)
qed

lemma touch_take_hit:
  assumes "distinct (map fst xs)" "map_of (take n xs) k = Some w"
  shows "touch k v (take n xs) = take n (touch k v xs)"
  using filter_take_present [OF assms] assms(2) by (cases n) (auto simp: touch_def)

locale lru_cache =
  fixes ops :: "('k, 'v, 'c) lru_ops"
    and entries :: "'c \<Rightarrow> ('k \<times> 'v) list"
    and cap :: "'c \<Rightarrow> nat"
  assumes new: "0 < n \<Longrightarrow> entries (lru_new ops n) = [] \<and> cap (lru_new ops n) = n"
    and get_hit: "map_of (entries c) k = Some v \<Longrightarrow>
      (\<exists>c'. lru_get ops k c = (c', Some v) \<and> entries c' = touch k v (entries c) \<and> cap c' = cap c)"
    and get_miss: "map_of (entries c) k = None \<Longrightarrow>
      (\<exists>c'. lru_get ops k c = (c', None) \<and> entries c' = entries c \<and> cap c' = cap c)"
    and get_mut_hit: "map_of (entries c) k = Some v \<Longrightarrow>
      (\<exists>c' w. lru_get_mut ops k c = (c', Some (v, w)) \<and> entries c' = touch k v (entries c) \<and> cap c' = cap c
        \<and> (\<forall>v'. entries (w v') = touch k v' (entries c) \<and> cap (w v') = cap c))"
    and get_mut_miss: "map_of (entries c) k = None \<Longrightarrow>
      (\<exists>c'. lru_get_mut ops k c = (c', None) \<and> entries c' = entries c \<and> cap c' = cap c)"
    and put: "entries (lru_put ops k v c) = take (cap c) (touch k v (entries c))
      \<and> cap (lru_put ops k v c) = cap c"
begin

text \<open>A property of all entries is kept by lookups, and by insertions of entries that have it.\<close>

lemma get_sound:
  assumes "lru_get ops k c = (c', r)" "\<forall>p \<in> set (entries c). Q p"
  shows "r = map_of (entries c) k" "\<forall>p \<in> set (entries c'). Q p" "cap c' = cap c"
    "r \<noteq> None \<longrightarrow> Q (k, the r)"
proof -
  show "r = map_of (entries c) k" "cap c' = cap c" "r \<noteq> None \<longrightarrow> Q (k, the r)"
    using assms get_hit [of c k] get_miss [of c k] by (cases "map_of (entries c) k"; auto dest: map_of_SomeD)+
  show "\<forall>p \<in> set (entries c'). Q p"
    using assms get_hit [of c k] get_miss [of c k]
    by (cases "map_of (entries c) k") (auto simp: touch_def dest: map_of_SomeD)
qed

lemma put_sound:
  assumes "\<forall>p \<in> set (entries c). Q p" "Q (k, v)"
  shows "\<forall>p \<in> set (entries (lru_put ops k v c)). Q p"
  using assms put [of k v c] by (auto simp: touch_def dest!: in_set_takeD)

end

section \<open>A reference instance\<close>

text \<open>The contract holds of a bounded list in recency order.\<close>

definition list_lru_get :: "'k \<Rightarrow> nat \<times> ('k \<times> 'v) list \<Rightarrow> (nat \<times> ('k \<times> 'v) list) \<times> 'v option" where
  "list_lru_get k c =
     (case map_of (snd c) k of
        Some v \<Rightarrow> ((fst c, touch k v (snd c)), Some v)
      | None \<Rightarrow> (c, None))"

definition list_lru_get_mut ::
  "'k \<Rightarrow> nat \<times> ('k \<times> 'v) list \<Rightarrow> (nat \<times> ('k \<times> 'v) list) \<times> ('v \<times> ('v \<Rightarrow> nat \<times> ('k \<times> 'v) list)) option" where
  "list_lru_get_mut k c =
     (case map_of (snd c) k of
        Some v \<Rightarrow> ((fst c, touch k v (snd c)), Some (v, \<lambda>v'. (fst c, touch k v' (snd c))))
      | None \<Rightarrow> (c, None))"

definition list_lru_put :: "'k \<Rightarrow> 'v \<Rightarrow> nat \<times> ('k \<times> 'v) list \<Rightarrow> nat \<times> ('k \<times> 'v) list" where
  "list_lru_put k v c = (fst c, take (fst c) (touch k v (snd c)))"

definition list_lru :: "('k, 'v, nat \<times> ('k \<times> 'v) list) lru_ops" where
  "list_lru = \<lparr>lru_new = \<lambda>n. (n, []), lru_get = list_lru_get, lru_get_mut = list_lru_get_mut,
               lru_put = list_lru_put\<rparr>"

lemmas list_lru_defs = list_lru_def list_lru_get_def list_lru_get_mut_def list_lru_put_def

interpretation list_lru: lru_cache list_lru snd fst
  by unfold_locales (auto simp: list_lru_defs)

end
