(* ===== verification/Base58Cache.thy ===== *)
theory Base58Cache
  imports Lru
begin

text \<open>
  src/core/utils/base58_cache.rs: a Base58 codec (the bs58 crate: the arguments \<open>enc\<close> and \<open>dec\<close>)
  with one LRU cache per direction. A lock of a cache can be poisoned by a thread that panicked while
  it held it; whether each of a call's two lock attempts finds it so is an argument of the call.
\<close>

record ('ec, 'dc) base58_cache =
  encode_cache :: 'ec
  decode_cache :: 'dc

definition base58_cache_new ::
  "(bytes, string, 'ec) lru_ops \<Rightarrow> (string, bytes, 'dc) lru_ops \<Rightarrow> usize \<Rightarrow> ('ec, 'dc) base58_cache" where
  "base58_cache_new eops dops max_size =
     (let nz_max_size = (if max_size = 0 then 1000 else unat max_size)
      in \<lparr>encode_cache = lru_new eops nz_max_size, decode_cache = lru_new dops nz_max_size\<rparr>)"

definition base58_encode ::
  "(bytes, string, 'ec) lru_ops \<Rightarrow> (bytes \<Rightarrow> string) \<Rightarrow> bool \<Rightarrow> bool \<Rightarrow> bytes
   \<Rightarrow> ('ec, 'dc) base58_cache \<Rightarrow> ('ec, 'dc) base58_cache \<times> string" where
  "base58_encode eops enc poisoned1 poisoned2 data b =
     (if poisoned1 then (b, enc data)
      else
        (let (c, cached) = lru_get eops data (encode_cache b);
             b1 = b\<lparr>encode_cache := c\<rparr>
         in case cached of
              Some cached_val \<Rightarrow> (b1, cached_val)
            | None \<Rightarrow>
                (let encoded_value = enc data
                 in (if poisoned2 then b1 else b1\<lparr>encode_cache := lru_put eops data encoded_value c\<rparr>,
                     encoded_value))))"

definition base58_decode ::
  "(string, bytes, 'dc) lru_ops \<Rightarrow> (string \<Rightarrow> string + bytes) \<Rightarrow> bool \<Rightarrow> bool \<Rightarrow> string
   \<Rightarrow> ('ec, 'dc) base58_cache \<Rightarrow> ('ec, 'dc) base58_cache \<times> (string + bytes)" where
  "base58_decode dops dec poisoned1 poisoned2 encoded_str b =
     (if poisoned1 then (b, dec encoded_str)
      else
        (let (c, cached) = lru_get dops encoded_str (decode_cache b);
             b1 = b\<lparr>decode_cache := c\<rparr>
         in case cached of
              Some cached_val \<Rightarrow> (b1, Inr cached_val)
            | None \<Rightarrow>
                (case dec encoded_str of
                   Inl e \<Rightarrow> (b1, Inl e)
                 | Inr decoded_value \<Rightarrow>
                     (if poisoned2 then b1
                      else b1\<lparr>decode_cache := lru_put dops encoded_str decoded_value c\<rparr>,
                      Inr decoded_value))))"

section \<open>Calls on one cache\<close>

datatype b58_request = Encode bool bool bytes | Decode bool bool string

datatype b58_answer = Encoded string | Decoded "string + bytes"

fun b58_direct :: "(bytes \<Rightarrow> string) \<Rightarrow> (string \<Rightarrow> string + bytes) \<Rightarrow> b58_request \<Rightarrow> b58_answer" where
  "b58_direct enc dec (Encode _ _ data) = Encoded (enc data)"
| "b58_direct enc dec (Decode _ _ s) = Decoded (dec s)"

fun b58_call ::
  "(bytes, string, 'ec) lru_ops \<Rightarrow> (string, bytes, 'dc) lru_ops \<Rightarrow> (bytes \<Rightarrow> string)
   \<Rightarrow> (string \<Rightarrow> string + bytes) \<Rightarrow> b58_request \<Rightarrow> ('ec, 'dc) base58_cache
   \<Rightarrow> ('ec, 'dc) base58_cache \<times> b58_answer" where
  "b58_call eops dops enc dec (Encode p1 p2 data) b =
     (let (b', s) = base58_encode eops enc p1 p2 data b in (b', Encoded s))"
| "b58_call eops dops enc dec (Decode p1 p2 s) b =
     (let (b', r) = base58_decode dops dec p1 p2 s b in (b', Decoded r))"

fun b58_run ::
  "(bytes, string, 'ec) lru_ops \<Rightarrow> (string, bytes, 'dc) lru_ops \<Rightarrow> (bytes \<Rightarrow> string)
   \<Rightarrow> (string \<Rightarrow> string + bytes) \<Rightarrow> b58_request list \<Rightarrow> ('ec, 'dc) base58_cache \<Rightarrow> b58_answer list" where
  "b58_run eops dops enc dec [] b = []"
| "b58_run eops dops enc dec (c # cs) b =
     (let (b', a) = b58_call eops dops enc dec c b in a # b58_run eops dops enc dec cs b')"

section \<open>Transparency\<close>

text \<open>Every cached entry is what the codec gives; a decoding error is never cached.\<close>

definition cache_sound ::
  "('ec \<Rightarrow> (bytes \<times> string) list) \<Rightarrow> ('dc \<Rightarrow> (string \<times> bytes) list) \<Rightarrow> (bytes \<Rightarrow> string)
   \<Rightarrow> (string \<Rightarrow> string + bytes) \<Rightarrow> ('ec, 'dc) base58_cache \<Rightarrow> bool" where
  "cache_sound eent dent enc dec b \<longleftrightarrow>
     (\<forall>p \<in> set (eent (encode_cache b)). enc (fst p) = snd p)
     \<and> (\<forall>p \<in> set (dent (decode_cache b)). dec (fst p) = Inr (snd p))"

lemma base58_encode_sound:
  assumes E: "lru_cache eops eent ecap" and sound: "cache_sound eent dent enc dec b"
  shows "snd (base58_encode eops enc p1 p2 data b) = enc data"
    and "cache_sound eent dent enc dec (fst (base58_encode eops enc p1 p2 data b))"
proof -
  obtain c r where g: "lru_get eops data (encode_cache b) = (c, r)" by fastforce
  have e: "\<forall>p \<in> set (eent (encode_cache b)). enc (fst p) = snd p"
    using sound by (simp add: cache_sound_def)
  note got = lru_cache.get_sound [OF E g e]
  note stored = lru_cache.put_sound [OF E got(2), of data "enc data"]
  show "snd (base58_encode eops enc p1 p2 data b) = enc data"
    using got(4) by (auto simp: base58_encode_def g Let_def split: option.split)
  show "cache_sound eent dent enc dec (fst (base58_encode eops enc p1 p2 data b))"
    using sound got(2) stored
    by (auto simp: base58_encode_def g Let_def cache_sound_def split: option.split)
qed

lemma base58_decode_sound:
  assumes D: "lru_cache dops dent dcap" and sound: "cache_sound eent dent enc dec b"
  shows "snd (base58_decode dops dec p1 p2 s b) = dec s"
    and "cache_sound eent dent enc dec (fst (base58_decode dops dec p1 p2 s b))"
proof -
  obtain c r where g: "lru_get dops s (decode_cache b) = (c, r)" by fastforce
  have d: "\<forall>p \<in> set (dent (decode_cache b)). dec (fst p) = Inr (snd p)"
    using sound by (simp add: cache_sound_def)
  note got = lru_cache.get_sound [OF D g d]
  note stored = lru_cache.put_sound [OF D got(2), of s]
  show "snd (base58_decode dops dec p1 p2 s b) = dec s"
    using got(4) by (auto simp: base58_decode_def g Let_def split: option.split sum.split)
  show "cache_sound eent dent enc dec (fst (base58_decode dops dec p1 p2 s b))"
    using sound got(2) stored
    by (auto simp: base58_decode_def g Let_def cache_sound_def split: option.split sum.split)
qed

lemma b58_call_sound:
  assumes "lru_cache eops eent ecap" "lru_cache dops dent dcap" "cache_sound eent dent enc dec b"
  shows "\<exists>b'. b58_call eops dops enc dec c b = (b', b58_direct enc dec c) \<and> cache_sound eent dent enc dec b'"
proof (cases c)
  case (Encode p1 p2 data)
  then show ?thesis
    using base58_encode_sound [OF assms(1,3), of p1 p2 data] by (auto simp: split_beta)
next
  case (Decode p1 p2 s)
  then show ?thesis
    using base58_decode_sound [OF assms(2,3), of p1 p2 s] by (auto simp: split_beta)
qed

lemma b58_run_sound:
  assumes "lru_cache eops eent ecap" "lru_cache dops dent dcap" "cache_sound eent dent enc dec b"
  shows "b58_run eops dops enc dec cs b = map (b58_direct enc dec) cs"
  using assms(3)
proof (induction cs arbitrary: b)
  case (Cons c cs)
  then show ?case
    using b58_call_sound [OF assms(1,2) Cons.prems, of c] by auto
qed simp

text \<open>
  C26. The caches are transparent: whatever the capacity, whichever calls come before and whichever
  locks are poisoned, every \<open>encode\<close> and \<open>decode\<close> of a run answers what the Base58 codec itself
  answers, decoding errors included.
\<close>

theorem base58_cache_transparent:
  assumes "lru_cache eops eent ecap" "lru_cache dops dent dcap"
  shows "b58_run eops dops enc dec calls (base58_cache_new eops dops max_size)
    = map (b58_direct enc dec) calls"
proof -
  let ?n = "if max_size = 0 then 1000 else unat max_size"
  have "0 < ?n" by (simp add: unat_gt_0)
  from lru_cache.new [OF assms(1) this] lru_cache.new [OF assms(2) this]
  have "cache_sound eent dent enc dec (base58_cache_new eops dops max_size)"
    by (simp add: cache_sound_def base58_cache_new_def Let_def)
  then show ?thesis by (rule b58_run_sound [OF assms])
qed

theorem base58_cache_transparent_witness:
  "b58_run list_lru list_lru (\<lambda>bs. map (\<lambda>b. CHR ''1'') bs)
     (\<lambda>s. if s = ''0'' then Inl ''provided string contained invalid character'' else Inr [0])
     [Encode False False [0], Encode False False [0], Decode False True ''0'', Decode True True ''1'']
     (base58_cache_new list_lru list_lru 1)
   = [Encoded ''1'', Encoded ''1'', Decoded (Inl ''provided string contained invalid character''),
      Decoded (Inr [0])]"
  by (subst base58_cache_transparent [OF list_lru.lru_cache_axioms list_lru.lru_cache_axioms]) simp

end
