(* ===== verification/Deduplicator.thy ===== *)
theory Deduplicator
  imports Lru
begin

text \<open>
  src/core/utils/deduplicator.rs: the time-window deduplicator of message signatures over an LRU
  cache. A poisoned lock is taken over (\<open>into_inner\<close>), so it changes nothing.
\<close>

record 'c deduplicator =
  dedup_cache :: 'c
  time_window :: duration

definition deduplicator_new :: "(string, instant, 'c) lru_ops \<Rightarrow> usize \<Rightarrow> duration \<Rightarrow> 'c deduplicator" where
  "deduplicator_new ops max_size window =
     (let nz_max_size = (if max_size = 0 then 10000 else unat max_size)
      in \<lparr>dedup_cache = lru_new ops nz_max_size, time_window = window\<rparr>)"

definition should_process ::
  "(string, instant, 'c) lru_ops \<Rightarrow> instant \<Rightarrow> string \<Rightarrow> 'c deduplicator \<Rightarrow> 'c deduplicator \<times> bool" where
  "should_process ops now signature d =
     (let (c, seen) = lru_get_mut ops signature (dedup_cache d)
      in case seen of
           Some (seen_at, write) \<Rightarrow>
             if now - seen_at < time_window d then (d\<lparr>dedup_cache := write now\<rparr>, False)
             else (d\<lparr>dedup_cache := lru_put ops signature now c\<rparr>, True)
         | None \<Rightarrow> (d\<lparr>dedup_cache := lru_put ops signature now c\<rparr>, True))"

definition dedup_run ::
  "(string, instant, 'c) lru_ops \<Rightarrow> (string \<times> instant) list \<Rightarrow> 'c deduplicator \<Rightarrow> 'c deduplicator" where
  "dedup_run ops hist d = fold (\<lambda>(s, t) d. fst (should_process ops t s d)) hist d"

section \<open>What the cache holds after a history of calls\<close>

text \<open>The signatures of a history with the instant of their last call, the most recent first.\<close>

definition recent :: "('k \<times> 'v) list \<Rightarrow> ('k \<times> 'v) list" where
  "recent hist = fold (\<lambda>(k, v). touch k v) hist []"

lemma recent_snoc [simp]: "recent (hist @ [(k, v)]) = touch k v (recent hist)"
  and recent_Nil [simp]: "recent [] = []"
  by (simp_all add: recent_def)

lemma distinct_recent: "distinct (map fst (recent hist))"
  by (induction hist rule: rev_induct) (auto simp: distinct_touch split: prod.splits)

lemma set_recent: "fst ` set (recent hist) = fst ` set hist"
proof (induction hist rule: rev_induct)
  case (snoc x hist)
  then show ?case by (cases x) simp
qed simp

lemma recent_append_absent:
  "k \<notin> fst ` set post \<Longrightarrow>
   recent (pre @ (k, v) # post)
     = recent post @ (k, v) # filter (\<lambda>p. fst p \<notin> fst ` set post \<and> fst p \<noteq> k) (recent pre)"
proof (induction post rule: rev_induct)
  case Nil
  then show ?case by (simp add: touch_def)
next
  case (snoc x post)
  obtain k' v' where x: "x = (k', v')" by (cases x)
  with snoc.prems have "k \<noteq> k'" "k \<notin> fst ` set post" by auto
  moreover have "recent (pre @ (k, v) # post @ [x]) = touch k' v' (recent (pre @ (k, v) # post))"
    using recent_snoc [of "pre @ (k, v) # post" k' v'] by (simp add: x)
  ultimately show ?case
    using snoc.IH by (simp add: x touch_def) (auto intro: filter_cong)
qed

lemma length_recent: "length (recent hist) = card (fst ` set hist)"
  using distinct_card [OF distinct_recent, of hist] set_recent [of hist] by simp

lemma in_take_recent_iff:
  "map_of (take n (recent hist)) k = Some v \<longleftrightarrow>
   (\<exists>pre post. hist = pre @ (k, v) # post \<and> k \<notin> fst ` set post \<and> card (fst ` set post) < n)"
  (is "?L \<longleftrightarrow> ?R")
proof -
  have main: "map_of (take n (recent hist)) k = (if card (fst ` set post) < n then Some w else None)"
    if "hist = pre @ (k, w) # post" "k \<notin> fst ` set post" for pre post w
  proof -
    have "map_of (recent post) k = None"
      using that(2) by (simp add: map_of_eq_None_iff set_recent)
    then have none: "map_of (take m (recent post)) k = None" for m
      using take_map_of_Some [of m "recent post" k] by (cases "map_of (take m (recent post)) k") auto
    show ?thesis
      using none [of n] none [of "length (recent post)"]
      by (simp add: that(1) recent_append_absent [OF that(2)] map_add_def take_Cons' length_recent)
  qed
  show ?thesis
  proof
    assume L: ?L
    then have "k \<in> fst ` set hist"
      using take_map_of_Some [OF L] set_recent [of hist] by (force dest: map_of_SomeD)
    then obtain pre x post where "hist = pre @ x # post" "fst x = k" "k \<notin> fst ` set post"
      using split_list_last_prop [of hist "\<lambda>p. fst p = k"] by fastforce
    then have *: "hist = pre @ (k, snd x) # post" "k \<notin> fst ` set post" by auto
    from main [OF this] L have "card (fst ` set post) < n" "snd x = v" by (simp_all split: if_splits)
    with * show ?R by blast
  next
    assume ?R
    then show ?L using main by fastforce
  qed
qed

lemma dedup_run_snoc: "dedup_run ops (hist @ [(s, t)]) d = fst (should_process ops t s (dedup_run ops hist d))"
  by (simp add: dedup_run_def)

lemma should_process_step:
  assumes L: "lru_cache ops entries cap"
    and e: "entries (dedup_cache d) = take n (recent hist)" and n: "cap (dedup_cache d) = n" "0 < n"
  shows "entries (dedup_cache (fst (should_process ops t s d))) = take n (recent (hist @ [(s, t)]))"
    and "cap (dedup_cache (fst (should_process ops t s d))) = n"
    and "time_window (fst (should_process ops t s d)) = time_window d"
    and "snd (should_process ops t s d) \<longleftrightarrow>
      \<not> (\<exists>seen. map_of (take n (recent hist)) s = Some seen \<and> t - seen < time_window d)"
proof -
  note hit = lru_cache.get_mut_hit [OF L, of "dedup_cache d" s]
  note miss = lru_cache.get_mut_miss [OF L, of "dedup_cache d" s]
  note put = lru_cache.put [OF L, of s t]
  have same: "touch k v (touch k w xs) = touch k v xs" for k v w and xs :: "(string \<times> instant) list"
    by (simp add: touch_def)
  note cut = touch_take [OF distinct_recent n(2)] touch_take_hit [OF distinct_recent]
  have "entries (dedup_cache (fst (should_process ops t s d))) = take n (recent (hist @ [(s, t)]))
    \<and> cap (dedup_cache (fst (should_process ops t s d))) = n
    \<and> time_window (fst (should_process ops t s d)) = time_window d
    \<and> (snd (should_process ops t s d) \<longleftrightarrow>
      \<not> (\<exists>seen. map_of (take n (recent hist)) s = Some seen \<and> t - seen < time_window d))"
  proof (cases "map_of (take n (recent hist)) s")
    case None
    then obtain c where "lru_get_mut ops s (dedup_cache d) = (c, None)" "entries c = take n (recent hist)" "cap c = n"
      using miss e n by auto
    then show ?thesis using None put [of c] cut(1) by (simp add: should_process_def)
  next
    case (Some seen)
    then obtain c w where g: "lru_get_mut ops s (dedup_cache d) = (c, Some (seen, w))"
      "entries c = touch s seen (take n (recent hist))" "cap c = n"
      "entries (w t) = touch s t (take n (recent hist))" "cap (w t) = n"
      using hit [of seen] e n by auto
    then show ?thesis using Some put [of c] cut(1) [of s t hist] cut(2) [OF Some, of t]
      by (simp add: should_process_def same)
  qed
  then show "entries (dedup_cache (fst (should_process ops t s d))) = take n (recent (hist @ [(s, t)]))"
    and "cap (dedup_cache (fst (should_process ops t s d))) = n"
    and "time_window (fst (should_process ops t s d)) = time_window d"
    and "snd (should_process ops t s d) \<longleftrightarrow>
      \<not> (\<exists>seen. map_of (take n (recent hist)) s = Some seen \<and> t - seen < time_window d)"
    by blast+
qed

lemma dedup_run_inv:
  assumes L: "lru_cache ops entries cap" and n: "n = (if max_size = 0 then 10000 else unat max_size)"
  shows "entries (dedup_cache (dedup_run ops hist (deduplicator_new ops max_size window))) = take n (recent hist)
    \<and> cap (dedup_cache (dedup_run ops hist (deduplicator_new ops max_size window))) = n
    \<and> time_window (dedup_run ops hist (deduplicator_new ops max_size window)) = window"
proof (induction hist rule: rev_induct)
  case Nil
  have "0 < n" by (simp add: n unat_gt_0)
  from lru_cache.new [OF L this] show ?case
    by (simp add: dedup_run_def deduplicator_new_def n [symmetric])
next
  case (snoc x hist)
  have "0 < n" by (simp add: n unat_gt_0)
  with snoc should_process_step [OF L, of "dedup_run ops hist (deduplicator_new ops max_size window)" n hist]
  show ?case by (cases x) (simp add: dedup_run_snoc)
qed

text \<open>
  C18. The exact answer of the deduplicator after any history of calls: a signature is refused if and
  only if it was presented before, its last presentation is less than the window ago, and fewer
  distinct signatures than the capacity (10000 for a capacity of 0) have been presented since. A
  fresh message is thus never lost, and a refused duplicate extends its own window.
\<close>

theorem should_process_iff:
  assumes "lru_cache ops entries cap"
  shows "snd (should_process ops now s (dedup_run ops hist (deduplicator_new ops max_size window)))
    \<longleftrightarrow> \<not> (\<exists>pre seen_at post. hist = pre @ (s, seen_at) # post \<and> s \<notin> fst ` set post
          \<and> now - seen_at < window
          \<and> card (fst ` set post) < (if max_size = 0 then 10000 else unat max_size))"
proof -
  let ?n = "if max_size = 0 then 10000 else unat max_size"
  note inv = dedup_run_inv [OF assms refl, where max_size = max_size and hist = hist and window = window]
  have "0 < ?n" by (simp add: unat_gt_0)
  with inv should_process_step(4) [OF assms, of "dedup_run ops hist (deduplicator_new ops max_size window)" ?n hist now s]
  have "snd (should_process ops now s (dedup_run ops hist (deduplicator_new ops max_size window))) \<longleftrightarrow>
      \<not> (\<exists>seen. map_of (take ?n (recent hist)) s = Some seen \<and> now - seen < window)" by simp
  then show ?thesis
    unfolding in_take_recent_iff by blast
qed

theorem should_process_iff_witness:
  "\<not> snd (should_process list_lru 9 ''a'' (dedup_run list_lru [(''a'', 5), (''b'', 6)] (deduplicator_new list_lru 2 10)))
   \<and> snd (should_process list_lru 99 ''a'' (dedup_run list_lru [(''a'', 5), (''b'', 6)] (deduplicator_new list_lru 2 10)))"
proof -
  have one: "\<exists>pre seen_at post. [(''a'', 5), (''b'', 6)] = pre @ (''a'', seen_at) # post \<and> ''a'' \<notin> fst ` set post
      \<and> (9 :: nat) - seen_at < 10 \<and> card (fst ` set post) < (if (2 :: usize) = 0 then 10000 else unat (2 :: usize))"
    by (rule exI [of _ "[]"], rule exI [of _ 5], rule exI [of _ "[(''b'', 6)]"]) simp
  have two: "\<not> (\<exists>pre seen_at post. [(''a'', 5), (''b'', 6)] = pre @ (''a'', seen_at) # post \<and> ''a'' \<notin> fst ` set post
      \<and> (99 :: nat) - seen_at < 10 \<and> card (fst ` set post) < (if (2 :: usize) = 0 then 10000 else unat (2 :: usize)))"
    by (auto simp: Cons_eq_append_conv)
  show ?thesis
    using one two
      should_process_iff [OF list_lru.lru_cache_axioms, of 9 "''a''" "[(''a'', 5), (''b'', 6)]" 2 10]
      should_process_iff [OF list_lru.lru_cache_axioms, of 99 "''a''" "[(''a'', 5), (''b'', 6)]" 2 10] by blast
qed

end
