(* ===== verification/Float64.thy ===== *)
theory Float64
  imports Prelude
begin

text \<open>
  Rust's \<open>f64\<close>: IEEE 754 binary64 with round to nearest, ties to even, written over the rationals.
  A finite value is its exact rational number; the sign of zero is not kept, since no division by a
  zero value and no sign test occurs in the program. Every operation rounds the exact result with
  \<open>rnd\<close>. The conversions are those of the language: \<open>as u64\<close> and \<open>as i64\<close> truncate and saturate,
  \<open>as f64\<close> rounds, and \<open>str::parse\<close> reads the decimal grammar of the standard library and rounds
  the exact value. The lemmas are what the components rely on: rounding is monotone, leaves the
  results of rounding alone, and is exact on integers of at most 53 bits.
\<close>

section \<open>Rounding\<close>

datatype f64 = NaN | NegInf | Fin rat | PosInf

definition round_even :: "rat \<Rightarrow> int" where
  "round_even y =
     (let f = \<lfloor>y\<rfloor>; d = y - of_int f
      in if d < 1 / 2 then f else if 1 / 2 < d then f + 1 else if even f then f else f + 1)"

text \<open>The exponent of a positive rational: the \<open>k\<close> with \<open>2 ^ k \<le> x < 2 ^ (k + 1)\<close>.\<close>

definition ilog2 :: "rat \<Rightarrow> int" where
  "ilog2 x =
     (let (a, b) = quotient_of x; k = bitlen a - bitlen b
      in if 2 powi k \<le> x then k else k - 1)"

definition ulp_exp :: "rat \<Rightarrow> int" where
  "ulp_exp x = (if x = 0 then - 1074 else max (ilog2 \<bar>x\<bar> - 52) (- 1074))"

definition grid_round :: "rat \<Rightarrow> rat" where
  "grid_round x = of_int (round_even (x / 2 powi ulp_exp x)) * 2 powi ulp_exp x"

definition rnd :: "rat \<Rightarrow> f64" where
  "rnd x = (let r = grid_round x
            in if 2 ^ 1024 \<le> r then PosInf else if r \<le> - (2 ^ 1024) then NegInf else Fin r)"

section \<open>Properties of rounding to an integer\<close>

lemma round_even_of_int [simp]: "round_even (of_int k) = k"
  by (simp add: round_even_def)

lemma round_even_bounds: "of_int (round_even y) - 1 / 2 \<le> y \<and> y \<le> of_int (round_even y) + 1 / 2"
proof -
  have "of_int \<lfloor>y\<rfloor> \<le> y" and "y < of_int \<lfloor>y\<rfloor> + 1"
    by (rule of_int_floor_le) linarith
  then show ?thesis
    unfolding round_even_def Let_def by (simp split: if_split) linarith
qed

lemma round_even_mono:
  assumes "x \<le> y"
  shows "round_even x \<le> round_even y"
proof (cases "\<lfloor>x\<rfloor> = \<lfloor>y\<rfloor>")
  case True
  then show ?thesis
    using assms by (auto simp: round_even_def Let_def)
next
  case False
  moreover have "\<lfloor>x\<rfloor> \<le> \<lfloor>y\<rfloor>"
    using assms by (rule floor_mono)
  ultimately have "\<lfloor>x\<rfloor> + 1 \<le> \<lfloor>y\<rfloor>" by linarith
  moreover have "round_even x \<le> \<lfloor>x\<rfloor> + 1" and "\<lfloor>y\<rfloor> \<le> round_even y"
    by (simp_all add: round_even_def Let_def)
  ultimately show ?thesis by linarith
qed

lemma round_even_le_int: "x \<le> of_int k \<Longrightarrow> round_even x \<le> k"
  using round_even_mono [of x "of_int k"] by simp

lemma round_even_ge_int: "of_int k \<le> x \<Longrightarrow> k \<le> round_even x"
  using round_even_mono [of "of_int k" x] by simp

lemma round_even_minus: "round_even (- y) = - round_even y"
proof (cases "y = of_int \<lfloor>y\<rfloor>")
  case True
  then show ?thesis
    by (metis of_int_minus round_even_of_int)
next
  case False
  have "of_int \<lfloor>y\<rfloor> \<le> y" and "y < of_int \<lfloor>y\<rfloor> + 1"
    by (rule of_int_floor_le) linarith
  with False have "of_int \<lfloor>y\<rfloor> < y" by linarith
  with \<open>y < of_int \<lfloor>y\<rfloor> + 1\<close> have fl: "\<lfloor>- y\<rfloor> = - \<lfloor>y\<rfloor> - 1"
    by (intro floor_unique) auto
  show ?thesis
    by (auto simp: round_even_def Let_def fl field_simps)
qed

section \<open>The exponent of a rational\<close>

lemma ilog2_bounds:
  assumes "0 < x"
  shows "2 powi ilog2 x \<le> x \<and> x < 2 powi (ilog2 x + 1)"
proof -
  obtain a b where q: "quotient_of x = (a, b)" by (cases "quotient_of x")
  have b: "0 < b" and x: "x = of_int a / of_int b"
    using q quotient_of_denom_pos quotient_of_div by blast+
  have a: "0 < a"
    using assms b x by (simp add: zero_less_divide_iff)
  have bits: "2 powi (bitlen n - 1) \<le> (of_int n :: rat) \<and> of_int n < (2 powi bitlen n :: rat)"
    if n: "0 < n" for n
  proof -
    have pos: "1 \<le> bitlen n"
      using n by (simp add: bitlen_ge_iff_power)
    have "of_int (2 ^ nat (bitlen n - 1)) \<le> (of_int n :: rat)"
      and "of_int n < (of_int (2 ^ nat (bitlen n)) :: rat)"
      using bitlen_bounds [OF n] by (simp_all only: of_int_le_iff of_int_less_iff)
    then show ?thesis
      using pos by (simp add: power_int_def)
  qed
  note alo = bits [OF a, THEN conjunct1] and ahi = bits [OF a, THEN conjunct2]
  note blo = bits [OF b, THEN conjunct1] and bhi = bits [OF b, THEN conjunct2]
  define k where "k = bitlen a - bitlen b"
  have lo: "2 powi (k - 1) \<le> x"
  proof -
    have "(2 powi (k - 1) :: rat) = 2 powi (bitlen a - 1) / 2 powi bitlen b"
      by (simp add: k_def power_int_diff)
    also have "\<dots> \<le> of_int a / of_int b"
      using alo bhi a b by (intro frac_le) auto
    finally show ?thesis using x by simp
  qed
  have hi: "x < 2 powi (k + 1)"
  proof -
    have "of_int a / of_int b < (2 powi bitlen a / 2 powi (bitlen b - 1) :: rat)"
      using ahi blo a b by (intro frac_less) auto
    also have "\<dots> = 2 powi (k + 1)"
      by (simp add: k_def power_int_diff power_int_add)
    finally show ?thesis using x by simp
  qed
  show ?thesis
    using lo hi by (auto simp: ilog2_def q Let_def k_def [symmetric])
qed

lemma powi_less_iff: "(2 powi m :: rat) < 2 powi n \<longleftrightarrow> m < n"
  by (meson linorder_not_less one_less_numeral_iff power_int_increasing
      power_int_strict_increasing order_less_imp_le one_le_numeral semiring_norm(76))

lemma powi_le_iff: "(2 powi m :: rat) \<le> 2 powi n \<longleftrightarrow> m \<le> n"
  using powi_less_iff [of n m] by (simp add: not_less [symmetric])

lemma ilog2_unique:
  assumes "2 powi k \<le> x" "x < 2 powi (k + 1)"
  shows "ilog2 x = k"
proof -
  have "0 < x"
    using assms(1) by (meson less_le_trans zero_less_power_int zero_less_numeral)
  from ilog2_bounds [OF this] assms
  have "2 powi ilog2 x < (2 powi (k + 1) :: rat)" and "2 powi k < (2 powi (ilog2 x + 1) :: rat)"
    by (auto intro: le_less_trans)
  then show ?thesis by (simp add: powi_less_iff)
qed

lemma ilog2_mono: "0 < x \<Longrightarrow> x \<le> y \<Longrightarrow> ilog2 x \<le> ilog2 y"
proof -
  assume "0 < x" "x \<le> y"
  then have "2 powi ilog2 x < (2 powi (ilog2 y + 1) :: rat)"
    using ilog2_bounds [of x] ilog2_bounds [of y] by (auto intro: le_less_trans)
  then show ?thesis by (simp add: powi_less_iff)
qed

section \<open>Properties of rounding to the grid\<close>

lemma powi_pos [simp]: "0 < (2 powi e :: rat)"
  by (simp add: zero_less_power_int)

lemma ulp_exp_ge: "- 1074 \<le> ulp_exp x"
  by (simp add: ulp_exp_def)

lemma ulp_exp_minus [simp]: "ulp_exp (- x) = ulp_exp x"
  by (simp add: ulp_exp_def)

lemma ulp_exp_mono: "0 < x \<Longrightarrow> x \<le> y \<Longrightarrow> ulp_exp x \<le> ulp_exp y"
  using ilog2_mono [of x y] by (auto simp: ulp_exp_def)

lemma grid_round_0 [simp]: "grid_round 0 = 0"
  using round_even_of_int [of 0] by (simp add: grid_round_def)

lemma grid_round_minus: "grid_round (- x) = - grid_round x"
  by (simp add: grid_round_def round_even_minus)

lemma grid_round_nonneg: "0 \<le> x \<Longrightarrow> 0 \<le> grid_round x"
  using round_even_ge_int [of 0 "x / 2 powi ulp_exp x"]
  by (simp add: grid_round_def power_int_nonneg_exp order_less_imp_le)

lemma powi_split: "(2 powi n :: rat) = of_int (2 ^ nat (n - e)) * 2 powi e" if "e \<le> n"
proof -
  have "(2 powi n :: rat) = 2 powi (n - e) * 2 powi e"
    by (simp add: power_int_add [symmetric])
  then show ?thesis
    using that by (simp add: power_int_def)
qed

lemma grid_round_le_powi:
  assumes "x \<le> 2 powi n" "ulp_exp x \<le> n"
  shows "grid_round x \<le> 2 powi n"
proof -
  have "x \<le> of_int (2 ^ nat (n - ulp_exp x)) * 2 powi ulp_exp x"
    using assms(1) powi_split [OF assms(2)] by simp
  then have "round_even (x / 2 powi ulp_exp x) \<le> 2 ^ nat (n - ulp_exp x)"
    by (intro round_even_le_int) (simp only: pos_divide_le_eq powi_pos)
  then have "of_int (round_even (x / 2 powi ulp_exp x)) \<le> (of_int (2 ^ nat (n - ulp_exp x)) :: rat)"
    by (simp only: of_int_le_iff)
  then show ?thesis
    unfolding grid_round_def powi_split [OF assms(2)]
    by (intro mult_right_mono) (simp_all add: order_less_imp_le)
qed

lemma grid_round_ge_powi:
  assumes "2 powi n \<le> x" "ulp_exp x \<le> n"
  shows "2 powi n \<le> grid_round x"
proof -
  have "of_int (2 ^ nat (n - ulp_exp x)) * 2 powi ulp_exp x \<le> x"
    using assms(1) powi_split [OF assms(2)] by simp
  then have "2 ^ nat (n - ulp_exp x) \<le> round_even (x / 2 powi ulp_exp x)"
    by (intro round_even_ge_int) (simp only: pos_le_divide_eq powi_pos)
  then have "(of_int (2 ^ nat (n - ulp_exp x)) :: rat) \<le> of_int (round_even (x / 2 powi ulp_exp x))"
    by (simp only: of_int_le_iff)
  then show ?thesis
    unfolding grid_round_def powi_split [OF assms(2)]
    by (intro mult_right_mono) (simp_all add: order_less_imp_le)
qed

lemma grid_round_mono_pos:
  assumes "0 < x" "x \<le> y"
  shows "grid_round x \<le> grid_round y"
proof (cases "ulp_exp x = ulp_exp y")
  case True
  have "round_even (x / 2 powi ulp_exp y) \<le> round_even (y / 2 powi ulp_exp y)"
    using assms by (intro round_even_mono divide_right_mono) (auto simp: order_less_imp_le)
  then show ?thesis
    using True by (simp add: grid_round_def)
next
  case False
  then have lt: "ulp_exp x < ulp_exp y"
    using ulp_exp_mono [OF assms] by simp
  let ?n = "ilog2 y"
  have y: "0 < y" using assms by simp
  have uy: "ulp_exp y = ?n - 52"
    using lt ulp_exp_ge [of x] y by (auto simp: ulp_exp_def max_def split: if_splits)
  have "ilog2 x < ?n"
    using lt uy assms y by (auto simp: ulp_exp_def max_def split: if_splits)
  then have "x < 2 powi ?n"
    using ilog2_bounds [OF assms(1)] powi_le_iff [of "ilog2 x + 1" ?n] by linarith
  then have "grid_round x \<le> 2 powi ?n"
    using lt uy by (intro grid_round_le_powi) auto
  also have "\<dots> \<le> grid_round y"
    using ilog2_bounds [OF y] uy by (intro grid_round_ge_powi) auto
  finally show ?thesis .
qed

lemma grid_round_mono:
  assumes "x \<le> y"
  shows "grid_round x \<le> grid_round y"
proof -
  consider "0 < x" | "x \<le> 0" "0 \<le> y" | "y < 0" using assms by linarith
  then show ?thesis
  proof cases
    case 1
    then show ?thesis using assms by (rule grid_round_mono_pos)
  next
    case 2
    then have "0 \<le> grid_round (- x)" and "0 \<le> grid_round y"
      by (simp_all add: grid_round_nonneg)
    then show ?thesis by (simp add: grid_round_minus)
  next
    case 3
    then have "grid_round (- y) \<le> grid_round (- x)"
      using assms by (intro grid_round_mono_pos) auto
    then show ?thesis by (simp add: grid_round_minus)
  qed
qed

text \<open>Rounding fixes every number of at most 53 significant bits above the smallest subnormal.\<close>

lemma grid_round_fix:
  assumes "x = of_int m * 2 powi e" "ulp_exp x \<le> e"
  shows "grid_round x = x"
proof -
  have x: "x = of_int (m * 2 ^ nat (e - ulp_exp x)) * 2 powi ulp_exp x"
    using assms(1) powi_split [OF assms(2)] by simp
  then have "x / 2 powi ulp_exp x = of_int (m * 2 ^ nat (e - ulp_exp x))"
    using powi_pos [of "ulp_exp x"] by (simp only: nonzero_divide_eq_eq less_imp_neq [symmetric] simp_thms)
  then have "grid_round x = of_int (m * 2 ^ nat (e - ulp_exp x)) * 2 powi ulp_exp x"
    by (simp only: grid_round_def round_even_of_int)
  with x show ?thesis by (simp only:)
qed

lemma grid_round_exact:
  assumes x: "x = of_int m * 2 powi e" and e: "- 1074 \<le> e" and m: "\<bar>m\<bar> \<le> 2 ^ 53"
  shows "grid_round x = x"
proof -
  have pos: "grid_round (of_int n * 2 powi e) = of_int n * 2 powi e" if n: "0 < n" "n \<le> 2 ^ 53" for n
  proof (cases "n = 2 ^ 53")
    case True
    let ?y = "2 powi (e + 53) :: rat"
    have y: "of_int n * 2 powi e = ?y"
      using True by (simp add: power_int_add)
    have "ilog2 ?y = e + 53"
      by (rule ilog2_unique) (simp_all add: powi_less_iff)
    then have u: "ulp_exp ?y = e + 1"
      using e by (simp add: ulp_exp_def)
    have "?y = of_int (2 ^ 52) * 2 powi (e + 1)"
      by (simp add: power_int_add)
    then have "grid_round ?y = ?y"
      by (rule grid_round_fix) (simp add: u)
    then show ?thesis by (simp only: y)
  next
    case False
    let ?y = "of_int n * 2 powi e :: rat"
    have yp: "0 < ?y" using n by simp
    have "of_int n < (of_int (2 ^ 53) :: rat)"
      using n False by (simp only: of_int_less_iff)
    then have "?y < 2 powi (e + 53)"
      by (simp add: power_int_add)
    then have "2 powi ilog2 ?y < (2 powi (e + 53) :: rat)"
      using ilog2_bounds [OF yp] by linarith
    then have "ulp_exp ?y \<le> e"
      using e n by (auto simp: powi_less_iff ulp_exp_def)
    with refl show ?thesis
      by (rule grid_round_fix)
  qed
  consider "m = 0" | "0 < m" | "m < 0" by linarith
  then show ?thesis
  proof cases
    case 1
    then show ?thesis using x by simp
  next
    case 2
    then show ?thesis using pos [of m] m x by simp
  next
    case 3
    then show ?thesis
      using pos [of "- m"] m x grid_round_minus [of "of_int (- m) * 2 powi e"] by simp
  qed
qed

lemma grid_round_of_int: "\<bar>k\<bar> \<le> 2 ^ 53 \<Longrightarrow> grid_round (of_int k) = of_int k"
  by (rule grid_round_exact [of _ k 0]) auto

section \<open>Operations\<close>

fun f_le :: "f64 \<Rightarrow> f64 \<Rightarrow> bool" where
  "f_le NaN b = False"
| "f_le a NaN = False"
| "f_le NegInf b = True"
| "f_le a PosInf = True"
| "f_le (Fin x) (Fin y) = (x \<le> y)"
| "f_le a b = False"

fun f_lt :: "f64 \<Rightarrow> f64 \<Rightarrow> bool" where
  "f_lt NaN b = False"
| "f_lt a NaN = False"
| "f_lt NegInf b = (b \<noteq> NegInf)"
| "f_lt a PosInf = (a \<noteq> PosInf)"
| "f_lt (Fin x) (Fin y) = (x < y)"
| "f_lt a b = False"

definition f_lit :: "rat \<Rightarrow> f64" where
  "f_lit x = rnd x"

definition f_of_nat :: "nat \<Rightarrow> f64" where
  "f_of_nat n = rnd (of_nat n)"

text \<open>The sign of a value, for the products and quotients with an infinity.\<close>

fun f_sgn :: "f64 \<Rightarrow> rat" where
  "f_sgn NaN = 0"
| "f_sgn NegInf = - 1"
| "f_sgn (Fin x) = sgn x"
| "f_sgn PosInf = 1"

fun inf_of_sgn :: "rat \<Rightarrow> f64" where
  "inf_of_sgn s = (if s = 0 then NaN else if 0 < s then PosInf else NegInf)"

fun f_add :: "f64 \<Rightarrow> f64 \<Rightarrow> f64" where
  "f_add (Fin x) (Fin y) = rnd (x + y)"
| "f_add NaN b = NaN"
| "f_add a NaN = NaN"
| "f_add PosInf b = (if b = NegInf then NaN else PosInf)"
| "f_add NegInf b = (if b = PosInf then NaN else NegInf)"
| "f_add (Fin x) b = b"

fun f_mul :: "f64 \<Rightarrow> f64 \<Rightarrow> f64" where
  "f_mul (Fin x) (Fin y) = rnd (x * y)"
| "f_mul NaN b = NaN"
| "f_mul a NaN = NaN"
| "f_mul a b = inf_of_sgn (f_sgn a * f_sgn b)"

fun f_div :: "f64 \<Rightarrow> f64 \<Rightarrow> f64" where
  "f_div (Fin x) (Fin y) = (if y = 0 then inf_of_sgn (sgn x) else rnd (x / y))"
| "f_div NaN b = NaN"
| "f_div a NaN = NaN"
| "f_div (Fin x) b = Fin 0"
| "f_div a (Fin y) = inf_of_sgn (f_sgn a * (if y < 0 then - 1 else 1))"
| "f_div a b = NaN"

text \<open>\<open>f64::min\<close> returns the other operand when one is NaN.\<close>

definition f_min :: "f64 \<Rightarrow> f64 \<Rightarrow> f64" where
  "f_min a b = (if a = NaN then b else if b = NaN then a else if f_lt b a then b else a)"

text \<open>The saturating casts \<open>as u64\<close> (and \<open>as usize\<close>) and \<open>as i64\<close>.\<close>

fun as_u64 :: "f64 \<Rightarrow> u64" where
  "as_u64 NaN = 0"
| "as_u64 NegInf = 0"
| "as_u64 PosInf = - 1"
| "as_u64 (Fin x) =
     (if x < 0 then 0 else if 2 ^ 64 \<le> x then - 1 else word_of_int \<lfloor>x\<rfloor>)"

fun as_i64 :: "f64 \<Rightarrow> i64" where
  "as_i64 NaN = 0"
| "as_i64 NegInf = word_of_int (- (2 ^ 63))"
| "as_i64 PosInf = word_of_int (2 ^ 63 - 1)"
| "as_i64 (Fin x) =
     (if x < - (2 ^ 63) then word_of_int (- (2 ^ 63))
      else if 2 ^ 63 \<le> x then word_of_int (2 ^ 63 - 1)
      else word_of_int (if x < 0 then \<lceil>x\<rceil> else \<lfloor>x\<rfloor>))"

section \<open>Properties of the operations\<close>

lemma rnd_not_NaN [simp]: "rnd x \<noteq> NaN"
  by (simp add: rnd_def Let_def)

lemma rnd_mono: "x \<le> y \<Longrightarrow> f_le (rnd x) (rnd y)"
  using grid_round_mono [of x y] by (auto simp: rnd_def Let_def)

lemma big_nat_powers: "(2 :: rat) ^ 53 < 2 ^ 1024" "(2 :: rat) ^ 64 < 2 ^ 1024"
  by (rule power_strict_increasing; simp)+

lemma rnd_exact:
  assumes "grid_round x = x" "\<bar>x\<bar> \<le> 2 ^ 64"
  shows "rnd x = Fin x"
  using assms big_nat_powers(2) unfolding rnd_def Let_def assms(1) by (simp split: if_split) linarith

lemma rnd_of_int: "\<bar>k\<bar> \<le> 2 ^ 53 \<Longrightarrow> rnd (of_int k) = Fin (of_int k)"
proof -
  assume k: "\<bar>k\<bar> \<le> 2 ^ 53"
  then have "(of_int \<bar>k\<bar> :: rat) \<le> of_int (2 ^ 53)"
    by (simp only: of_int_le_iff)
  then have "\<bar>of_int k :: rat\<bar> \<le> 2 ^ 64" by simp
  with grid_round_of_int [OF k] show ?thesis by (rule rnd_exact)
qed

lemma rnd_of_nat: "n \<le> 2 ^ 53 \<Longrightarrow> rnd (of_nat n) = Fin (of_nat n)"
  using rnd_of_int [of "int n"] by simp

lemma rnd_numeral: "numeral n \<le> (2 ^ 53 :: nat) \<Longrightarrow> rnd (numeral n) = Fin (numeral n)"
  using rnd_of_nat [of "numeral n"] by simp

lemma rnd_0 [simp]: "rnd 0 = Fin 0" and rnd_1 [simp]: "rnd 1 = Fin 1"
  using rnd_of_nat [of 0] rnd_of_nat [of 1] by simp_all

lemma rnd_idem:
  assumes "rnd x = Fin r"
  shows "rnd r = Fin r"
proof -
  have r: "r = grid_round x" and big: "\<not> 2 ^ 1024 \<le> r" "\<not> r \<le> - (2 ^ 1024)"
    using assms by (auto simp: rnd_def Let_def split: if_splits)
  have "grid_round (grid_round x) = grid_round x"
  proof (cases "x = 0")
    case True
    then show ?thesis by simp
  next
    case False
    let ?e = "ulp_exp x"
    have "\<bar>x\<bar> < 2 powi (ilog2 \<bar>x\<bar> + 1)"
      using ilog2_bounds [of "\<bar>x\<bar>"] False by simp
    moreover have "(2 powi (ilog2 \<bar>x\<bar> + 1) :: rat) \<le> 2 powi (?e + 53)"
      using False by (simp add: powi_le_iff ulp_exp_def)
    ultimately have "\<bar>x\<bar> \<le> 2 powi (?e + 53)" by linarith
    then have "\<bar>x\<bar> \<le> of_int (2 ^ 53) * 2 powi ?e"
      by (simp add: power_int_add mult.commute)
    then have bound: "\<bar>x / 2 powi ?e\<bar> \<le> of_int (2 ^ 53)"
      by (simp only: abs_divide abs_of_pos powi_pos pos_divide_le_eq)
    have "round_even (x / 2 powi ?e) \<le> 2 ^ 53"
      by (rule round_even_le_int) (rule order_trans [OF abs_ge_self bound])
    moreover have "- (2 ^ 53) \<le> round_even (x / 2 powi ?e)"
      by (rule round_even_ge_int) (use bound in \<open>simp only: abs_le_iff of_int_minus minus_le_iff\<close>)
    ultimately have "\<bar>round_even (x / 2 powi ?e)\<bar> \<le> 2 ^ 53"
      by linarith
    then show ?thesis
      using ulp_exp_ge [of x] by (intro grid_round_exact) (simp_all add: grid_round_def)
  qed
  then show ?thesis
    using r big by (simp add: rnd_def)
qed

lemma f_le_Fin: "f_le (Fin x) (Fin y) \<longleftrightarrow> x \<le> y"
  by simp

lemma f_lt_iff_not_le: "a \<noteq> NaN \<Longrightarrow> b \<noteq> NaN \<Longrightarrow> f_lt a b \<longleftrightarrow> \<not> f_le b a"
  by (cases a; cases b) auto

lemma f_le_refl: "a \<noteq> NaN \<Longrightarrow> f_le a a"
  by (cases a) auto

lemma f_le_trans: "f_le a b \<Longrightarrow> f_le b c \<Longrightarrow> f_le a c"
  by (cases a; cases b; cases c) auto

lemma f_le_total: "a \<noteq> NaN \<Longrightarrow> b \<noteq> NaN \<Longrightarrow> f_le a b \<or> f_le b a"
  by (cases a; cases b) auto

lemma rnd_nonneg_Fin: "0 \<le> x \<Longrightarrow> rnd x = Fin r \<Longrightarrow> 0 \<le> r"
  using rnd_mono [of 0 x] by simp

lemma rnd_nonneg_cases: "0 \<le> x \<Longrightarrow> rnd x = PosInf \<or> (\<exists>r. rnd x = Fin r \<and> 0 \<le> r)"
  using rnd_mono [of 0 x] by (cases "rnd x") auto

lemma rnd_le_Fin: "x \<le> y \<Longrightarrow> rnd y = Fin s \<Longrightarrow> 0 \<le> x \<Longrightarrow> \<exists>r. rnd x = Fin r \<and> r \<le> s \<and> 0 \<le> r"
  using rnd_mono [of x y] rnd_mono [of 0 x] by (cases "rnd x") auto

lemma unat_as_u64_Fin:
  assumes "0 \<le> x"
  shows "unat (as_u64 (Fin x)) = (if 2 ^ 64 \<le> x then 2 ^ 64 - 1 else nat \<lfloor>x\<rfloor>)"
proof (cases "2 ^ 64 \<le> x")
  case True
  then show ?thesis using assms by (simp add: unsigned_minus_1_eq_mask mask_eq_exp_minus_1)
next
  case False
  then have "\<lfloor>x\<rfloor> < 2 ^ 64"
    by (simp add: floor_less_iff)
  moreover have "0 \<le> \<lfloor>x\<rfloor>" using assms by simp
  ultimately show ?thesis
    using False assms by (simp add: unat_eq_nat_uint uint_word_of_int)
qed

lemma as_u64_mono:
  assumes "f_le a b"
  shows "as_u64 a \<le> as_u64 b"
proof -
  have fin: "as_u64 (Fin x) \<le> as_u64 (Fin y)" if xy: "x \<le> y" for x y
  proof (cases "x < 0")
    case True
    then show ?thesis by simp
  next
    case False
    have lt: "nat \<lfloor>x\<rfloor> \<le> 2 ^ 64 - 1" if "\<not> 2 ^ 64 \<le> x"
    proof -
      have "\<lfloor>x\<rfloor> \<le> 2 ^ 64 - 1" using that by (simp add: floor_le_iff)
      then show ?thesis by (simp add: nat_le_iff)
    qed
    have "nat \<lfloor>x\<rfloor> \<le> nat \<lfloor>y\<rfloor>" using xy by (intro nat_mono floor_mono)
    then have "unat (as_u64 (Fin x)) \<le> unat (as_u64 (Fin y))"
      using False xy lt by (simp only: unat_as_u64_Fin not_less order_trans [of 0 x y]) simp
    then show ?thesis by (simp only: word_le_nat_alt)
  qed
  show ?thesis
    using assms fin by (cases a; cases b) (simp_all del: as_u64.simps(4) add: word_order.extremum)
qed

section \<open>Durations and seconds\<close>

text \<open>
  \<open>Duration\<close> holds whole seconds as a \<open>u64\<close> and nanoseconds below \<open>10 ^ 9\<close>; the model counts
  nanoseconds. \<open>Duration::from_secs_f64\<close> panics on a negative, non-finite or too large argument and
  otherwise rounds to the nearest nanosecond, ties to even: \<open>None\<close> is the panic.
\<close>

definition nanos_per_sec :: nat where
  "nanos_per_sec = 1000000000"

definition duration_max :: duration where
  "duration_max = 2 ^ 64 * 1000000000 - 1"

definition as_secs_f64 :: "duration \<Rightarrow> f64" where
  "as_secs_f64 d =
     f_add (f_of_nat (d div nanos_per_sec))
       (f_div (f_of_nat (d mod nanos_per_sec)) (f_of_nat nanos_per_sec))"

fun from_secs_f64 :: "f64 \<Rightarrow> duration option" where
  "from_secs_f64 (Fin x) =
     (if x < 0 then None
      else let n = nat (round_even (x * of_nat nanos_per_sec))
           in if duration_max < n then None else Some n)"
| "from_secs_f64 _ = None"

definition sat_add_duration :: "duration \<Rightarrow> duration \<Rightarrow> duration" where
  "sat_add_duration a b = min (a + b) duration_max"

section \<open>Parsing decimal numbers\<close>

fun span_digits :: "string \<Rightarrow> nat list \<times> string" where
  "span_digits [] = ([], [])"
| "span_digits (c # cs) =
     (case char_digit c of
        None \<Rightarrow> ([], c # cs)
      | Some d \<Rightarrow> (let (ds, r) = span_digits cs in (d # ds, r)))"

definition parse_sign :: "string \<Rightarrow> bool \<times> string" where
  "parse_sign s =
     (case s of
        [] \<Rightarrow> (False, [])
      | c # r \<Rightarrow> if c = CHR ''-'' then (True, r) else if c = CHR ''+'' then (False, r) else (False, s))"

text \<open>The exponent part: nothing, or \<open>e\<close> or \<open>E\<close>, a sign and at least one digit up to the end.\<close>

definition parse_exp :: "string \<Rightarrow> int option" where
  "parse_exp s =
     (case s of
        [] \<Rightarrow> Some 0
      | c # r \<Rightarrow>
          if c = CHR ''e'' \<or> c = CHR ''E'' then
            (let (neg, r') = parse_sign r; (ds, r'') = span_digits r'
             in if ds = [] \<or> r'' \<noteq> [] then None
                else Some (if neg then - int (digits_val ds) else int (digits_val ds)))
          else None)"

definition parse_decimal :: "string \<Rightarrow> rat option" where
  "parse_decimal s =
     (let (ip, r1) = span_digits s;
          (fp, r2) = (case r1 of
                        [] \<Rightarrow> ([], [])
                      | c # r \<Rightarrow> if c = CHR ''.'' then span_digits r else ([], r1))
      in if ip = [] \<and> fp = [] then None
         else map_option
           (\<lambda>e. of_nat (digits_val (ip @ fp)) * 10 powi (e - int (length fp))) (parse_exp r2))"

definition ascii_lower :: "char \<Rightarrow> char" where
  "ascii_lower c = (let n = of_char c :: nat in if 65 \<le> n \<and> n \<le> 90 then char_of (n + 32) else c)"

definition parse_f64 :: "string \<Rightarrow> f64 option" where
  "parse_f64 s =
     (let (neg, r) = parse_sign s
      in case parse_decimal r of
           Some v \<Rightarrow> Some (rnd (if neg then - v else v))
         | None \<Rightarrow>
             (let w = map ascii_lower r
              in if w = ''nan'' then Some NaN
                 else if w = ''inf'' \<or> w = ''infinity'' then Some (if neg then NegInf else PosInf)
                 else None))"

lemma span_digits_all:
  "map char_digit s = map Some ds \<Longrightarrow> span_digits s = (ds, [])"
  by (induction s arbitrary: ds) auto

lemma parse_f64_digits:
  assumes "map char_digit s = map Some ds" "ds \<noteq> []"
  shows "parse_f64 s = Some (rnd (of_nat (digits_val ds)))"
proof -
  obtain c r d ds' where s: "s = c # r" "char_digit c = Some d" "ds = d # ds'"
    using assms by (cases s; cases ds) auto
  then have "c \<noteq> CHR ''-''" "c \<noteq> CHR ''+''"
    by (auto simp: char_digit_def)
  then have "parse_sign s = (False, s)"
    by (simp add: parse_sign_def s)
  moreover have "parse_decimal s = Some (of_nat (digits_val ds))"
    using assms(2) by (simp add: parse_decimal_def span_digits_all [OF assms(1)] parse_exp_def)
  ultimately show ?thesis
    by (simp add: parse_f64_def)
qed

text \<open>Printing an unsigned integer and parsing it as \<open>f64\<close> is the cast \<open>as f64\<close>.\<close>

lemma parse_f64_dec_string: "parse_f64 (dec_string n) = Some (f_of_nat n)"
proof -
  obtain ds where "map char_digit (dec_string n) = map Some ds" "ds \<noteq> []" "digits_val ds = n"
    using dec_string_digits by blast
  then show ?thesis
    using parse_f64_digits [of "dec_string n" ds] by (simp add: f_of_nat_def)
qed

lemma from_secs_f64_le:
  assumes "f_le a b" "from_secs_f64 b = Some n" "a \<noteq> NegInf" "\<And>x. a = Fin x \<Longrightarrow> 0 \<le> x"
  shows "\<exists>m \<le> n. from_secs_f64 a = Some m"
proof -
  obtain y where b: "b = Fin y" "0 \<le> y" "n = nat (round_even (y * of_nat nanos_per_sec))" "n \<le> duration_max"
    using assms(2) by (cases b) (auto simp: Let_def split: if_splits)
  obtain x where a: "a = Fin x" "0 \<le> x" "x \<le> y"
    using assms b by (cases a) auto
  have "nat (round_even (x * of_nat nanos_per_sec)) \<le> n"
    unfolding b(3) by (intro nat_mono round_even_mono mult_right_mono a) simp
  with a b show ?thesis by (auto simp: Let_def)
qed

text \<open>Evaluating a rounding: the exponent and the significand are given and checked.\<close>

lemma rnd_near:
  assumes q: "2 ^ 52 \<le> q" "q < 2 ^ 53"
    and x: "x * 2 ^ k < of_int q + 1 / 2" "of_int q - 1 / 2 < x * 2 ^ k" "2 ^ 52 \<le> x * 2 ^ k"
    and k: "k \<le> 1074"
  shows "rnd x = Fin (of_int q / 2 ^ k)"
proof -
  have hi: "x * 2 ^ k < 2 ^ 53"
  proof -
    have "(of_int q :: rat) \<le> of_int (2 ^ 53 - 1)"
      using q(2) by (simp only: of_int_le_iff)
    then show ?thesis using x(1) by simp
  qed
  have pw: "(2 powi (m - int k) :: rat) = 2 powi m / 2 ^ k" for m
    by (simp add: power_int_diff)
  have pos: "0 < x * 2 ^ k" using x(3) by (rule less_le_trans [rotated]) simp
  then have xpos: "0 < x" by (simp add: zero_less_mult_iff)
  have "ilog2 x = 52 - int k"
  proof (rule ilog2_unique)
    show "2 powi (52 - int k) \<le> x"
      using x(3) by (simp add: pw pos_divide_le_eq)
    have "(2 powi (52 - int k + 1) :: rat) = 2 powi (53 - int k)"
      by (simp add: algebra_simps)
    then show "x < 2 powi (52 - int k + 1)"
      using hi by (simp add: pw pos_less_divide_eq)
  qed
  then have u: "ulp_exp x = - int k"
    using k xpos by (simp add: ulp_exp_def)
  have sc: "x / 2 powi (- int k) = x * 2 ^ k"
    by (simp add: power_int_minus divide_inverse)
  have re: "round_even (x * 2 ^ k) = q"
  proof -
    let ?r = "round_even (x * 2 ^ k)"
    have "(of_int ?r :: rat) < of_int q + 1" and "(of_int q :: rat) - 1 < of_int ?r"
      using round_even_bounds [of "x * 2 ^ k"] x(1,2) by linarith+
    then have "(of_int ?r :: rat) < of_int (q + 1)" and "of_int (q - 1) < (of_int ?r :: rat)"
      by simp_all
    then show ?thesis by (simp only: of_int_less_iff)
  qed
  have gr: "grid_round x = of_int q / 2 ^ k"
    by (simp add: grid_round_def u sc re power_int_minus divide_inverse)
  have "(of_int q / 2 ^ k :: rat) \<le> of_int q"
    using q(1) by (simp add: pos_divide_le_eq)
  also have "\<dots> < 2 ^ 1024"
  proof -
    have "(of_int q :: rat) < of_int (2 ^ 53)" using q(2) by (simp only: of_int_less_iff)
    then show ?thesis using big_nat_powers(1) by simp
  qed
  finally have "\<not> 2 ^ 1024 \<le> (of_int q / 2 ^ k :: rat)" by simp
  moreover have "\<not> (of_int q / 2 ^ k :: rat) \<le> - (2 ^ 1024)"
  proof -
    have "0 \<le> (of_int q / 2 ^ k :: rat)" using q(1) by simp
    moreover have "- (2 ^ 1024 :: rat) < 0" by simp
    ultimately show ?thesis by linarith
  qed
  ultimately show ?thesis
    by (simp only: rnd_def Let_def gr if_False)
qed

lemma f_lit_7_10: "f_lit (7 / 10) = Fin (6305039478318694 / 9007199254740992)"
  using rnd_near [of 6305039478318694 "7 / 10" 53] by (simp add: f_lit_def)

lemma f_lit_1_10: "f_lit (1 / 10) = Fin (7205759403792794 / 72057594037927936)"
  using rnd_near [of 7205759403792794 "1 / 10" 56] by (simp add: f_lit_def)

end
