(* ===== verification/Errors.thy ===== *)
theory Errors
  imports Prelude
begin

text \<open>
  The error values of the program: \<open>Error\<close> of src/error.rs with its constructors, its conversions
  and its \<open>Display\<close> text, and the separate \<open>Error\<close> of the core library, src/core/error.rs. An error
  of another crate (rdkafka, prost, bs58, serde_json, std::io, tokio) is carried as the text it
  displays, which is all the program uses of it.
\<close>

section \<open>The SDK error\<close>

datatype sdk_error =
    Kafka string
  | Config string
  | Connection string
  | ProtobufDecode string
  | Compression string
  | Base58 string
  | Processing string
  | ResourceError string
  | RetryExhausted usize sdk_error
  | Io string
  | ChannelError string
  | Other string

fun sdk_error_display :: "sdk_error \<Rightarrow> string" where
  "sdk_error_display (Kafka e) = ''Kafka client error: '' @ e"
| "sdk_error_display (Config m) = ''Configuration error: '' @ m"
| "sdk_error_display (Connection m) = ''Connection error: '' @ m"
| "sdk_error_display (ProtobufDecode e) = ''Protobuf decoding error: '' @ e"
| "sdk_error_display (Compression m) = ''Compression error: '' @ m"
| "sdk_error_display (Base58 e) = ''Base58 encoding/decoding error: '' @ e"
| "sdk_error_display (Processing m) = ''Event processing error: '' @ m"
| "sdk_error_display (ResourceError m) = ''Resource management error: '' @ m"
| "sdk_error_display (RetryExhausted attempts source) =
     ''Operation failed after '' @ dec_string (unat attempts) @ '' retry attempts: ''
       @ sdk_error_display source"
| "sdk_error_display (Io e) = ''I/O error: '' @ e"
| "sdk_error_display (ChannelError m) = ''Async channel error: '' @ m"
| "sdk_error_display (Other m) = ''An unexpected or other error occurred: '' @ m"

text \<open>\<open>From<serde_json::Error>\<close> and \<open>From<tokio::task::JoinError>\<close>.\<close>

definition from_json_error :: "string \<Rightarrow> sdk_error" where
  "from_json_error e = Processing (''JSON serialization/deserialization error: '' @ e)"

definition from_join_error :: "string \<Rightarrow> sdk_error" where
  "from_join_error e = Other (''Task join error: '' @ e)"

section \<open>The core error\<close>

datatype core_error =
    CoreCompression string
  | CoreBase58 string
  | CoreIo string
  | CoreSerialization string
  | CoreProtobuf string
  | CoreConfig string
  | CoreNetwork string
  | CoreCircuitBreakerOpen string
  | CoreRetryExhausted string
  | CoreGeneric string

fun core_error_display :: "core_error \<Rightarrow> string" where
  "core_error_display (CoreCompression m) = ''Compression error: '' @ m"
| "core_error_display (CoreBase58 e) = ''Base58 encoding/decoding error: '' @ e"
| "core_error_display (CoreIo e) = ''I/O error: '' @ e"
| "core_error_display (CoreSerialization e) = ''Serialization error: '' @ e"
| "core_error_display (CoreProtobuf e) = ''Protobuf error: '' @ e"
| "core_error_display (CoreConfig m) = ''Configuration error: '' @ m"
| "core_error_display (CoreNetwork m) = ''Network error: '' @ m"
| "core_error_display (CoreCircuitBreakerOpen m) = ''Circuit breaker open: '' @ m"
| "core_error_display (CoreRetryExhausted m) = ''Retry attempts exhausted: '' @ m"
| "core_error_display (CoreGeneric m) = ''Error: '' @ m"

end
