(* ===== verification/Retry.thy ===== *)
theory Retry
  imports Float64 Errors
begin

text \<open>
  src/core/utils/retry.rs: retries with exponential backoff and jitter. The operation is a change of
  a world \<open>'w\<close> with a result; \<open>jitter n\<close> is the random number in [0, 1) that \<open>fastrand::f64\<close> draws after
  the n-th attempt, \<open>into\<close> the conversion of the operation's error, \<open>dbg\<close> the \<open>Debug\<close> text of an error.
  The model returns, besides the world and the outcome, the delays slept.
\<close>

record retry_strategy =
  max_retries :: usize
  initial_delay :: duration
  max_delay :: duration
  multiplier :: f64

definition retry_config_default :: retry_strategy where
  "retry_config_default =
     \<lparr>max_retries = 3, initial_delay = from_millis 100, max_delay = from_secs 30, multiplier = f_lit 2\<rparr>"

text \<open>\<open>RetryStrategy::from_config\<close> copies the four fields; both structs are one record here.\<close>

definition from_config :: "retry_strategy \<Rightarrow> retry_strategy" where
  "from_config config =
     \<lparr>max_retries = max_retries config, initial_delay = initial_delay config,
      max_delay = max_delay config, multiplier = multiplier config\<rparr>"

text \<open>\<open>None\<close> is the panic of \<open>Duration::from_secs_f64\<close>.\<close>

definition next_delay :: "retry_strategy \<Rightarrow> f64 \<Rightarrow> duration \<Rightarrow> duration option" where
  "next_delay s rand current_delay =
     Option.bind
       (from_secs_f64 (f_min (f_mul (as_secs_f64 current_delay) (multiplier s)) (as_secs_f64 (max_delay s))))
       (\<lambda>d1. let jitter_factor = f_mul (f_lit (1 / 10)) rand
             in Option.bind (from_secs_f64 (f_mul (as_secs_f64 d1) jitter_factor))
                  (\<lambda>jitter. let d2 = sat_add_duration d1 jitter
                            in Some (if max_delay s < d2 then max_delay s else d2)))"

datatype 'a retry_outcome = Returned "core_error + 'a" | Panicked

partial_function (option) retry_loop ::
  "retry_strategy \<Rightarrow> string \<Rightarrow> ('e \<Rightarrow> core_error) \<Rightarrow> (core_error \<Rightarrow> string) \<Rightarrow> (usize \<Rightarrow> f64)
   \<Rightarrow> ('w \<Rightarrow> 'w \<times> ('e + 'a)) \<Rightarrow> usize \<Rightarrow> duration \<Rightarrow> 'w \<Rightarrow> ('w \<times> duration list \<times> 'a retry_outcome) option" where
  "retry_loop s operation_name into dbg jitter f attempts current_delay w =
     (case f w of
        (w', Inr result) \<Rightarrow> Some (w', [], Returned (Inr result))
      | (w', Inl e) \<Rightarrow>
          if max_retries s < attempts + 1 then
            Some (w', [], Returned (Inl (CoreRetryExhausted
              (operation_name @ '' (last error: '' @ dbg (into e) @ '')''))))
          else
            (case next_delay s (jitter (attempts + 1)) current_delay of
               None \<Rightarrow> Some (w', [current_delay], Panicked)
             | Some d \<Rightarrow>
                 Option.bind (retry_loop s operation_name into dbg jitter f (attempts + 1) d w')
                   (\<lambda>(w'', ds, r). Some (w'', current_delay # ds, r))))"

definition retry ::
  "retry_strategy \<Rightarrow> string \<Rightarrow> ('e \<Rightarrow> core_error) \<Rightarrow> (core_error \<Rightarrow> string) \<Rightarrow> (usize \<Rightarrow> f64)
   \<Rightarrow> ('w \<Rightarrow> 'w \<times> ('e + 'a)) \<Rightarrow> 'w \<Rightarrow> ('w \<times> duration list \<times> 'a retry_outcome) option" where
  "retry s operation_name into dbg jitter f w =
     retry_loop s operation_name into dbg jitter f 0 (initial_delay s) w"

section \<open>Delays\<close>

definition f_nonneg :: "f64 \<Rightarrow> bool" where
  "f_nonneg a \<longleftrightarrow> f_le (Fin 0) a"

lemma f_nonneg_cases: "f_nonneg a \<longleftrightarrow> a = PosInf \<or> (\<exists>x. a = Fin x \<and> 0 \<le> x)"
  by (cases a) (auto simp: f_nonneg_def)

lemma f_nonneg_rnd: "0 \<le> x \<Longrightarrow> f_nonneg (rnd x)"
  using rnd_nonneg_cases [of x] by (auto simp: f_nonneg_cases)

lemma f_nonneg_of_nat: "f_nonneg (f_of_nat n)"
  by (simp add: f_of_nat_def f_nonneg_rnd)

lemma f_nonneg_add: "f_nonneg a \<Longrightarrow> f_nonneg b \<Longrightarrow> f_nonneg (f_add a b)"
  by (cases a; cases b) (auto simp: f_nonneg_def intro: f_nonneg_rnd [unfolded f_nonneg_def])

lemma f_nonneg_mul: "f_nonneg a \<Longrightarrow> f_nonneg b \<Longrightarrow> f_mul a b = NaN \<or> f_nonneg (f_mul a b)"
  by (cases a; cases b)
     (auto simp: f_nonneg_def sgn_if intro: f_nonneg_rnd [unfolded f_nonneg_def])

lemma f_of_nano: "f_of_nat nanos_per_sec = Fin 1000000000"
  by (simp add: f_of_nat_def nanos_per_sec_def rnd_numeral)

lemma sub_second:
  "\<exists>y. f_div (f_of_nat (d mod nanos_per_sec)) (f_of_nat nanos_per_sec) = Fin y \<and> 0 \<le> y \<and> y \<le> 1"
proof -
  have lt: "d mod nanos_per_sec < nanos_per_sec" by (simp add: nanos_per_sec_def)
  then have "d mod nanos_per_sec \<le> 1000000000" by (simp add: nanos_per_sec_def)
  then have fn: "f_of_nat (d mod nanos_per_sec) = Fin (of_nat (d mod nanos_per_sec))"
    by (simp add: f_of_nat_def rnd_of_nat)
  have "(of_nat (d mod nanos_per_sec) :: rat) \<le> of_nat 1000000000"
    by (intro of_nat_mono) fact
  then have "of_nat (d mod nanos_per_sec) / (1000000000 :: rat) \<le> 1" by simp
  from rnd_le_Fin [OF this rnd_1] show ?thesis
    by (auto simp: fn f_of_nano)
qed

lemma f_nonneg_as_secs: "f_nonneg (as_secs_f64 d)"
proof -
  obtain y where "f_div (f_of_nat (d mod nanos_per_sec)) (f_of_nat nanos_per_sec) = Fin y" "0 \<le> y"
    using sub_second by blast
  then have "f_nonneg (f_div (f_of_nat (d mod nanos_per_sec)) (f_of_nat nanos_per_sec))"
    by (simp add: f_nonneg_cases)
  then show ?thesis
    unfolding as_secs_f64_def by (intro f_nonneg_add f_nonneg_of_nat)
qed

lemma as_secs_bound:
  assumes "d \<le> from_secs k" "k < 2 ^ 53"
  shows "f_le (as_secs_f64 d) (Fin (of_nat (k + 1)))"
proof -
  obtain y where y: "f_div (f_of_nat (d mod nanos_per_sec)) (f_of_nat nanos_per_sec) = Fin y" "y \<le> 1"
    using sub_second by blast
  have q: "d div nanos_per_sec \<le> k"
    using assms(1) div_le_mono [of d "k * nanos_per_sec" nanos_per_sec]
    by (simp add: from_secs_def nanos_per_sec_def)
  then have fq: "f_of_nat (d div nanos_per_sec) = Fin (of_nat (d div nanos_per_sec))"
    unfolding f_of_nat_def using assms(2) by (intro rnd_of_nat) simp
  have "of_nat (d div nanos_per_sec) + y \<le> (of_nat (k + 1) :: rat)"
    using y(2) of_nat_mono [OF q, where 'a = rat] by simp
  from rnd_mono [OF this] rnd_of_nat [of "k + 1"] assms(2) show ?thesis
    by (simp add: as_secs_f64_def fq y)
qed

lemma from_secs_f64_of_nat:
  assumes "k \<le> 2 ^ 53"
  shows "from_secs_f64 (Fin (of_nat k)) = Some (from_secs k)"
proof -
  have "(of_nat k * of_nat nanos_per_sec :: rat) = of_int (int (k * nanos_per_sec))"
    by simp
  then have "round_even (of_nat k * of_nat nanos_per_sec) = int (k * nanos_per_sec)"
    by (metis round_even_of_int)
  moreover have "k * 1000000000 \<le> duration_max"
    using assms by (simp add: duration_max_def)
  ultimately show ?thesis
    by (simp add: from_secs_def nanos_per_sec_def Let_def nat_mult_distrib)
qed

definition seconds_bound :: nat where
  "seconds_bound = 2 ^ 52"

text \<open>
  The strategies that cannot panic: a multiplier that is not negative (NaN included) and a maximal
  delay of at most \<open>2 ^ 52\<close> seconds.
\<close>

definition safe_strategy :: "retry_strategy \<Rightarrow> bool" where
  "safe_strategy s \<longleftrightarrow>
     (multiplier s = NaN \<or> f_le (Fin 0) (multiplier s)) \<and> max_delay s \<le> from_secs seconds_bound"

definition unit_random :: "f64 \<Rightarrow> bool" where
  "unit_random r \<longleftrightarrow> f_le (Fin 0) r \<and> f_lt r (Fin 1)"

lemma jitter_factor_bound:
  assumes "unit_random r"
  shows "\<exists>x. f_mul (f_lit (1 / 10)) r = Fin x \<and> 0 \<le> x \<and> x \<le> 1"
proof -
  obtain y where y: "r = Fin y" "0 \<le> y" "y < 1"
    using assms by (cases r) (auto simp: unit_random_def)
  have "7205759403792794 / 72057594037927936 * y \<le> 1 * 1"
    using y by (intro mult_mono) simp_all
  then have "7205759403792794 / 72057594037927936 * y \<le> 1" by simp
  from rnd_le_Fin [OF this rnd_1] y(2) show ?thesis
    by (auto simp: f_lit_1_10 y(1))
qed

lemma from_secs_below:
  assumes "f_nonneg a" "f_le a (Fin (of_nat k))" "k \<le> 2 ^ 53"
  shows "\<exists>d \<le> from_secs k. from_secs_f64 a = Some d"
  using from_secs_f64_le [OF assms(2) from_secs_f64_of_nat [OF assms(3)]] assms(1)
  by (auto simp: f_nonneg_cases)

lemma next_delay_total:
  assumes "safe_strategy s" "unit_random r"
  shows "\<exists>d. next_delay s r delay = Some d \<and> d \<le> max_delay s"
proof -
  let ?max = "as_secs_f64 (max_delay s)"
  let ?x = "f_min (f_mul (as_secs_f64 delay) (multiplier s)) ?max"
  have small: "seconds_bound + 2 < 2 ^ 53" by (simp add: seconds_bound_def)
  have mx: "f_nonneg ?max" "f_le ?max (Fin (of_nat (seconds_bound + 1)))"
    using assms(1) as_secs_bound [of "max_delay s" seconds_bound] small
    by (simp_all add: f_nonneg_as_secs safe_strategy_def)
  have prod: "f_mul (as_secs_f64 delay) (multiplier s) = NaN \<or> f_nonneg (f_mul (as_secs_f64 delay) (multiplier s))"
    using assms(1) f_nonneg_mul [OF f_nonneg_as_secs, of "multiplier s" delay]
    by (cases "as_secs_f64 delay") (auto simp: safe_strategy_def f_nonneg_def)
  have x: "f_nonneg ?x" "f_le ?x ?max"
    using prod mx(1) by (auto simp: f_min_def f_nonneg_cases not_less split: if_splits)
  then have "f_le ?x (Fin (of_nat (seconds_bound + 1)))"
    using mx(2) f_le_trans by blast
  with x(1) small obtain d1 where d1: "from_secs_f64 ?x = Some d1" "d1 \<le> from_secs (seconds_bound + 1)"
    using from_secs_below [of ?x "seconds_bound + 1"] by auto
  obtain y where y: "f_mul (f_lit (1 / 10)) r = Fin y" "0 \<le> y" "y \<le> 1"
    using jitter_factor_bound [OF assms(2)] by blast
  obtain z where z: "as_secs_f64 d1 = Fin z" "0 \<le> z" "z \<le> of_nat (seconds_bound + 2)"
    using as_secs_bound [OF d1(2)] small f_nonneg_as_secs [of d1] by (auto simp: f_nonneg_cases)
  have "z * y \<le> of_nat (seconds_bound + 2) * 1"
    using z y by (intro mult_mono) simp_all
  then have "f_le (rnd (z * y)) (Fin (of_nat (seconds_bound + 2)))"
    using rnd_mono [of "z * y" "of_nat (seconds_bound + 2)"] rnd_of_nat [of "seconds_bound + 2"] small by simp
  moreover have "f_nonneg (rnd (z * y))"
    using z y by (intro f_nonneg_rnd) simp
  ultimately obtain j where "from_secs_f64 (f_mul (as_secs_f64 d1) (f_mul (f_lit (1 / 10)) r)) = Some j"
    using from_secs_below [of "rnd (z * y)" "seconds_bound + 2"] small y z by auto
  then show ?thesis
    using d1 by (simp add: next_delay_def Let_def)
qed

lemma unat_add1_below:
  fixes a :: usize
  assumes "unat a < 2 ^ 64 - 1"
  shows "unat (a + 1) = unat a + 1"
  using assms by (simp add: unat_word_ariths)

section \<open>Outcomes\<close>

text \<open>The world after n calls of the operation.\<close>

primrec world_after :: "('w \<Rightarrow> 'w \<times> 'r) \<Rightarrow> nat \<Rightarrow> 'w \<Rightarrow> 'w" where
  "world_after f 0 w = w"
| "world_after f (Suc n) w = world_after f n (fst (f w))"

text \<open>The result of the i-th call of the operation, counting from 0, when all before it have run.\<close>

definition call_result :: "('w \<Rightarrow> 'w \<times> ('e + 'a)) \<Rightarrow> 'w \<Rightarrow> nat \<Rightarrow> 'e + 'a" where
  "call_result f w i = snd (f (world_after f i w))"

lemma call_result_Suc: "call_result f w (Suc i) = call_result f (fst (f w)) i"
  by (simp add: call_result_def)

lemma map_call_result:
  "map (call_result f w) [0..<Suc n] = snd (f w) # map (call_result f (fst (f w))) [0..<n]"
proof -
  have "map (call_result f w) [0..<Suc n] = call_result f w 0 # map (\<lambda>i. call_result f w (Suc i)) [0..<n]"
    by (simp add: upt_conv_Cons map_Suc_upt [symmetric] del: upt_Suc)
  then show ?thesis by (simp add: call_result_Suc) (simp add: call_result_def)
qed

definition retry_result ::
  "string \<Rightarrow> ('e \<Rightarrow> core_error) \<Rightarrow> (core_error \<Rightarrow> string) \<Rightarrow> ('e + 'a) list \<Rightarrow> core_error + 'a" where
  "retry_result operation_name into dbg outs =
     (let n = length (takeWhile isl outs)
      in if n < length outs then Inr (projr (outs ! n))
         else Inl (CoreRetryExhausted (operation_name @ '' (last error: '' @ dbg (into (projl (last outs))) @ '')'')))"

lemma retry_loop_result:
  assumes "safe_strategy s" "\<And>n. unit_random (jitter n)" "unat (max_retries s) < 2 ^ 64 - 1"
    and "unat (max_retries s) - unat a = k" "unat a \<le> unat (max_retries s)"
  shows "\<exists>ds. retry_loop s name into dbg jitter f a delay w =
      Some (world_after f (Suc (min (length (takeWhile isl (map (call_result f w) [0..<Suc k]))) k)) w, ds,
        Returned (retry_result name into dbg (map (call_result f w) [0..<Suc k])))
    \<and> length ds = min (length (takeWhile isl (map (call_result f w) [0..<Suc k]))) k
    \<and> (\<forall>d \<in> set (tl ds). d \<le> max_delay s) \<and> (ds \<noteq> [] \<longrightarrow> hd ds = delay)"
  using assms(4,5)
proof (induction k arbitrary: a delay w)
  case 0
  have "unat (a + 1) = unat a + 1" using 0 assms(3) by (intro unat_add1_below) simp
  then have "max_retries s < a + 1" using 0 by (simp add: word_less_nat_alt)
  then show ?case
    by (cases "f w"; cases "snd (f w)")
       (auto simp: retry_loop.simps call_result_def retry_result_def)
next
  case (Suc k)
  have a1: "unat (a + 1) = unat a + 1" using Suc.prems assms(3) by (intro unat_add1_below) simp
  then have more: "\<not> max_retries s < a + 1" using Suc.prems by (simp add: word_less_nat_alt)
  obtain w' r where f: "f w = (w', r)" by fastforce
  show ?case
  proof (cases r)
    case (Inr x)
    then show ?thesis
      unfolding map_call_result [of f w "Suc k"]
      by (subst retry_loop.simps) (simp add: f retry_result_def)
  next
    case (Inl e)
    obtain d where d: "next_delay s (jitter (a + 1)) delay = Some d" "d \<le> max_delay s"
      using next_delay_total [OF assms(1,2)] by blast
    have "unat (max_retries s) - unat (a + 1) = k" "unat (a + 1) \<le> unat (max_retries s)"
      using Suc.prems a1 by simp_all
    from Suc.IH [OF this, of d w'] obtain ds where ih:
      "retry_loop s name into dbg jitter f (a + 1) d w' =
        Some (world_after f (Suc (min (length (takeWhile isl (map (call_result f w') [0..<Suc k]))) k)) w', ds,
          Returned (retry_result name into dbg (map (call_result f w') [0..<Suc k])))"
      "length ds = min (length (takeWhile isl (map (call_result f w') [0..<Suc k]))) k"
      "\<forall>d \<in> set (tl ds). d \<le> max_delay s" "ds \<noteq> [] \<longrightarrow> hd ds = d" by blast
    have all: "\<forall>d \<in> set ds. d \<le> max_delay s"
      using ih(3,4) d(2) by (cases ds) auto
    have res: "retry_result name into dbg (Inl e # outs) = retry_result name into dbg outs" if "outs \<noteq> []" for outs
      using that by (simp add: retry_result_def Let_def)
    show ?thesis
      unfolding map_call_result [of f w "Suc k"]
      by (rule exI [of _ "delay # ds"], subst retry_loop.simps)
         (use ih(1,2) more all in \<open>simp add: f Inl d res del: upt_Suc\<close>)
  qed
qed


text \<open>
  C17. \<open>retry\<close> with a strategy that cannot panic always returns, and calls the operation at most
  \<open>max_retries + 1\<close> times: up to its first success, whose value it returns, or, when all
  \<open>max_retries + 1\<close> calls fail, it returns \<open>RetryExhausted\<close> with the last error. It sleeps once
  between two calls, first for the initial delay and then never longer than \<open>max_delay\<close>.
\<close>

theorem retry_outcome:
  assumes "(multiplier s = NaN \<or> f_le (Fin 0) (multiplier s)) \<and> max_delay s \<le> from_secs (2 ^ 52)"
    and "\<And>n. f_le (Fin 0) (jitter n) \<and> f_lt (jitter n) (Fin 1)"
    and "unat (max_retries s) < 2 ^ 64 - 1"
  shows "let outs = map (call_result f w) [0..<Suc (unat (max_retries s))];
             n = length (takeWhile isl outs)
    in \<exists>ds. retry s name into dbg jitter f w =
          Some (world_after f (min (n + 1) (unat (max_retries s) + 1)) w, ds,
            Returned (if n \<le> unat (max_retries s) then Inr (projr (outs ! n))
                      else Inl (CoreRetryExhausted (name @ '' (last error: '' @ dbg (into (projl (last outs))) @ '')''))))
        \<and> length ds = min n (unat (max_retries s))
        \<and> take 1 ds = take (length ds) [initial_delay s]
        \<and> set (tl ds) \<subseteq> {..max_delay s}"
proof -
  have s: "safe_strategy s" and j: "unit_random (jitter n)" for n
    using assms(1,2) by (simp_all add: safe_strategy_def unit_random_def seconds_bound_def)
  have head: "take 1 ds = take (length ds) [d]" if "ds \<noteq> [] \<longrightarrow> hd ds = d" for ds :: "duration list" and d
    using that by (cases ds) auto
  let ?m = "unat (max_retries s)"
  let ?outs = "map (call_result f w) [0..<Suc ?m]"
  let ?n = "length (takeWhile isl ?outs)"
  have "\<exists>ds. retry_loop s name into dbg jitter f 0 (initial_delay s) w =
      Some (world_after f (Suc (min ?n ?m)) w, ds, Returned (retry_result name into dbg ?outs))
    \<and> length ds = min ?n ?m \<and> (\<forall>d \<in> set (tl ds). d \<le> max_delay s)
    \<and> (ds \<noteq> [] \<longrightarrow> hd ds = initial_delay s)"
    by (rule retry_loop_result [OF s j assms(3)]) simp_all
  then obtain ds where ds: "retry_loop s name into dbg jitter f 0 (initial_delay s) w =
      Some (world_after f (Suc (min ?n ?m)) w, ds, Returned (retry_result name into dbg ?outs))"
    "length ds = min ?n ?m" "\<forall>d \<in> set (tl ds). d \<le> max_delay s" "ds \<noteq> [] \<longrightarrow> hd ds = initial_delay s"
    by blast
  have "retry_result name into dbg ?outs = (if ?n \<le> ?m then Inr (projr (?outs ! ?n))
      else Inl (CoreRetryExhausted (name @ '' (last error: '' @ dbg (into (projl (last ?outs))) @ '')'')))"
    by (simp only: retry_result_def Let_def length_map length_upt diff_zero less_Suc_eq_le)
  moreover have "min (?n + 1) (?m + 1) = Suc (min ?n ?m)"
    by simp
  ultimately show ?thesis
    using ds(1,2) ds(3) head [OF ds(4)] unfolding retry_def Let_def
    by (intro exI [of _ ds]) (simp only: simp_thms, blast)
qed

text \<open>An operation that fails twice and then succeeds, under the default configuration.\<close>

theorem retry_outcome_witness:
  "\<exists>ds. retry retry_config_default ''fetch'' CoreGeneric core_error_display (\<lambda>_. Fin 0)
      (\<lambda>n :: nat. (n + 1, if n < 2 then Inl ''down'' else Inr n)) 0
    = Some (3, ds, Returned (Inr 2)) \<and> length ds = 2"
proof -
  let ?s = retry_config_default and ?f = "\<lambda>n :: nat. (n + 1, if n < 2 then Inl ''down'' else Inr n)"
  have lit: "f_lit 2 = Fin 2" by (simp add: f_lit_def rnd_numeral)
  have s: "(multiplier ?s = NaN \<or> f_le (Fin 0) (multiplier ?s)) \<and> max_delay ?s \<le> from_secs (2 ^ 52)"
    and m: "unat (max_retries ?s) = 3"
    by (simp_all add: retry_config_default_def lit from_secs_def)
  then have "unat (max_retries ?s) < 2 ^ 64 - 1" by simp
  from retry_outcome [OF s _ this, where jitter = "\<lambda>_. Fin 0" and f = ?f and w = 0 and name = "''fetch''"
      and into = CoreGeneric and dbg = core_error_display]
  show ?thesis
    by (simp add: m Let_def call_result_def eval_nat_numeral) blast
qed

end
