(* ===== verification/Events.thy ===== *)
theory Events
  imports Float64 Errors
begin

text \<open>
  src/events.rs: the event type and the event with its accessors. The field \<open>data\<close> is a value of
  serde_json: the operations the program calls on it are a record \<open>json_ops\<close> that the definitions
  take as an argument, and their documented contract is the locale \<open>json_api\<close>.
\<close>

section \<open>The interface of serde_json\<close>

record 'j json_ops =
  j_get :: "'j \<Rightarrow> string \<Rightarrow> 'j option"
  j_as_str :: "'j \<Rightarrow> string option"
  j_as_u64 :: "'j \<Rightarrow> u64 option"
  j_as_i64 :: "'j \<Rightarrow> i64 option"
  j_as_f64 :: "'j \<Rightarrow> f64 option"
  j_as_bool :: "'j \<Rightarrow> bool option"
  j_string :: "string \<Rightarrow> 'j"
  j_u64 :: "u64 \<Rightarrow> 'j"
  j_f64 :: "f64 \<Rightarrow> 'j"
  j_bool :: "bool \<Rightarrow> 'j"
  j_null :: 'j
  j_array :: "'j list \<Rightarrow> 'j"
  j_object :: "(string \<times> 'j) list \<Rightarrow> 'j"

text \<open>\<open>json!\<close> of an object inserts its members in order: the last of two equal keys stays.\<close>

locale json_api =
  fixes J :: "'j json_ops"
  assumes get_object: "j_get J (j_object J kvs) k = map_of (rev kvs) k"
    and get_scalar: "j_get J (j_string J s) k = None" "j_get J (j_u64 J n) k = None"
    and as_str: "j_as_str J (j_string J s) = Some s" "j_as_str J (j_u64 J n) = None"
    and as_u64: "j_as_u64 J (j_u64 J n) = Some n" "j_as_u64 J (j_string J s) = None"
    and as_i64: "j_as_i64 J (j_string J s) = None"
    and as_f64: "j_as_f64 J (j_u64 J n) = Some (f_of_nat (unat n))" "j_as_f64 J (j_string J s) = None"
    and as_bool: "j_as_bool J (j_string J s) = None" "j_as_bool J (j_u64 J n) = None"
      "j_as_bool J (j_bool J b) = Some b"
    and other: "j_as_u64 J (j_f64 J x) = None" "j_as_str J (j_f64 J x) = None" "j_as_str J (j_null J) = None"
begin

lemmas json_simps = get_object get_scalar as_str as_u64 as_i64 as_f64 as_bool other

end

text \<open>An instance: the values that the program itself builds.\<close>

datatype json = JNull | JBool bool | JString string | JU64 u64 | JF64 f64 | JArray "json list" | JObject "(string \<times> json) list"

definition json_tree :: "json json_ops" where
  "json_tree =
     \<lparr>j_get = (\<lambda>j k. case j of JObject kvs \<Rightarrow> map_of (rev kvs) k | _ \<Rightarrow> None),
      j_as_str = (\<lambda>j. case j of JString s \<Rightarrow> Some s | _ \<Rightarrow> None),
      j_as_u64 = (\<lambda>j. case j of JU64 n \<Rightarrow> Some n | _ \<Rightarrow> None),
      j_as_i64 = (\<lambda>j. case j of JU64 n \<Rightarrow> if unat n < 2 ^ 63 then Some n else None | _ \<Rightarrow> None),
      j_as_f64 = (\<lambda>j. case j of JU64 n \<Rightarrow> Some (f_of_nat (unat n)) | JF64 x \<Rightarrow> Some x | _ \<Rightarrow> None),
      j_as_bool = (\<lambda>j. case j of JBool b \<Rightarrow> Some b | _ \<Rightarrow> None),
      j_string = JString, j_u64 = JU64,
      j_f64 = (\<lambda>x. case x of Fin _ \<Rightarrow> JF64 x | _ \<Rightarrow> JNull), j_bool = JBool, j_null = JNull, j_array = JArray, j_object = JObject\<rparr>"

interpretation json_tree: json_api json_tree
  by unfold_locales (simp_all add: json_tree_def split: f64.split)

section \<open>Events\<close>

datatype event_type = Transaction | TokenTransfer | DexTrade | BalanceUpdate

fun event_type_as_str :: "event_type \<Rightarrow> string" where
  "event_type_as_str Transaction = ''transaction''"
| "event_type_as_str TokenTransfer = ''token_transfer''"
| "event_type_as_str DexTrade = ''dex_trade''"
| "event_type_as_str BalanceUpdate = ''balance_update''"

record 'j solana_event =
  event_type :: event_type
  slot :: u64
  signature :: string
  timestamp :: string
  data :: 'j

definition is_dex_trade :: "'j solana_event \<Rightarrow> bool" where
  "is_dex_trade e \<longleftrightarrow> event_type e = DexTrade"

definition is_transaction :: "'j solana_event \<Rightarrow> bool" where
  "is_transaction e \<longleftrightarrow> event_type e = Transaction"

definition is_token_transfer :: "'j solana_event \<Rightarrow> bool" where
  "is_token_transfer e \<longleftrightarrow> event_type e = TokenTransfer"

definition program_id :: "'j json_ops \<Rightarrow> 'j solana_event \<Rightarrow> string option" where
  "program_id J e =
     Option.bind
       (case j_get J (data e) ''program_id'' of
          Some v \<Rightarrow> Some v
        | None \<Rightarrow> j_get J (data e) ''program'')
       (j_as_str J)"

definition amount_base :: "'j json_ops \<Rightarrow> 'j solana_event \<Rightarrow> f64 option" where
  "amount_base J e =
     (if event_type e = DexTrade then
        Option.bind (j_get J (data e) ''amount_base'') (\<lambda>v. Option.bind (j_as_str J v) parse_f64)
      else None)"

definition price :: "'j json_ops \<Rightarrow> 'j solana_event \<Rightarrow> f64 option" where
  "price J e =
     (if event_type e = DexTrade then
        Option.bind (j_get J (data e) ''price'') (\<lambda>v. Option.bind (j_as_str J v) parse_f64)
      else None)"

definition get_data_string_field :: "'j json_ops \<Rightarrow> string \<Rightarrow> 'j solana_event \<Rightarrow> string option" where
  "get_data_string_field J field_name e = Option.bind (j_get J (data e) field_name) (j_as_str J)"

definition get_data_u64_field :: "'j json_ops \<Rightarrow> string \<Rightarrow> 'j solana_event \<Rightarrow> u64 option" where
  "get_data_u64_field J field_name e = Option.bind (j_get J (data e) field_name) (j_as_u64 J)"

definition get_data_i64_field :: "'j json_ops \<Rightarrow> string \<Rightarrow> 'j solana_event \<Rightarrow> i64 option" where
  "get_data_i64_field J field_name e = Option.bind (j_get J (data e) field_name) (j_as_i64 J)"

definition get_data_f64_field :: "'j json_ops \<Rightarrow> string \<Rightarrow> 'j solana_event \<Rightarrow> f64 option" where
  "get_data_f64_field J field_name e = Option.bind (j_get J (data e) field_name) (j_as_f64 J)"

definition get_data_bool_field :: "'j json_ops \<Rightarrow> string \<Rightarrow> 'j solana_event \<Rightarrow> bool option" where
  "get_data_bool_field J field_name e = Option.bind (j_get J (data e) field_name) (j_as_bool J)"

lemmas event_field_defs =
  program_id_def amount_base_def price_def get_data_string_field_def get_data_u64_field_def
  get_data_i64_field_def get_data_f64_field_def get_data_bool_field_def

end
