(* ===== verification/Filters.thy ===== *)
theory Filters
  imports Events
begin

text \<open>
  src/filters.rs: the event filter and its builder. A user's custom filter is a predicate on events;
  amounts are compared in the floating-point arithmetic of the source, where a comparison with NaN is
  false.
\<close>

section \<open>The filter\<close>

record 'j event_filter =
  event_types :: "event_type list option"
  min_slot :: "u64 option"
  max_slot :: "u64 option"
  program_ids :: "string list option"
  min_amount :: "f64 option"
  signatures :: "string list option"
  custom_filter :: "('j solana_event \<Rightarrow> bool) option"

definition event_filter_default :: "'j event_filter" where
  "event_filter_default =
     \<lparr>event_types = None, min_slot = None, max_slot = None, program_ids = None, min_amount = None,
      signatures = None, custom_filter = None\<rparr>"

definition event_value :: "'j json_ops \<Rightarrow> 'j solana_event \<Rightarrow> f64 option" where
  "event_value J e =
     (case event_type e of
        DexTrade \<Rightarrow> amount_base J e
      | TokenTransfer \<Rightarrow> map_option (\<lambda>val. f_of_nat (unat val)) (get_data_u64_field J ''amount'' e)
      | _ \<Rightarrow> None)"

text \<open>Each check of \<open>matches\<close> returns \<open>false\<close> early; \<open>rejects\<close> lists them in their order.\<close>

definition rejects_type :: "'j event_filter \<Rightarrow> 'j solana_event \<Rightarrow> bool" where
  "rejects_type f e =
     (case event_types f of
        Some types \<Rightarrow> types \<noteq> [] \<and> event_type e \<notin> set types
      | None \<Rightarrow> False)"

definition rejects_slot :: "'j event_filter \<Rightarrow> 'j solana_event \<Rightarrow> bool" where
  "rejects_slot f e =
     (if (case min_slot f of Some lo \<Rightarrow> slot e < lo | None \<Rightarrow> False) then True
      else (case max_slot f of Some hi \<Rightarrow> slot e > hi | None \<Rightarrow> False))"

definition rejects_program :: "'j json_ops \<Rightarrow> 'j event_filter \<Rightarrow> 'j solana_event \<Rightarrow> bool" where
  "rejects_program J f e =
     (case program_ids f of
        Some programs \<Rightarrow>
          if programs \<noteq> [] then
            (case program_id J e of
               Some event_program_id \<Rightarrow> \<not> list_ex (\<lambda>p_id. p_id = event_program_id) programs
             | None \<Rightarrow> True)
          else False
      | None \<Rightarrow> False)"

definition rejects_amount :: "'j json_ops \<Rightarrow> 'j event_filter \<Rightarrow> 'j solana_event \<Rightarrow> bool" where
  "rejects_amount J f e =
     (case min_amount f of
        Some min_amount_val \<Rightarrow>
          (case event_value J e of
             Some actual_event_amount \<Rightarrow> f_lt actual_event_amount min_amount_val
           | None \<Rightarrow> event_type e = DexTrade \<or> event_type e = TokenTransfer)
      | None \<Rightarrow> False)"

definition rejects_signature :: "'j event_filter \<Rightarrow> 'j solana_event \<Rightarrow> bool" where
  "rejects_signature f e =
     (case signatures f of
        Some sigs \<Rightarrow> sigs \<noteq> [] \<and> signature e \<notin> set sigs
      | None \<Rightarrow> False)"

definition rejects_custom :: "'j event_filter \<Rightarrow> 'j solana_event \<Rightarrow> bool" where
  "rejects_custom f e = (case custom_filter f of Some custom_fn \<Rightarrow> \<not> custom_fn e | None \<Rightarrow> False)"

definition matches :: "'j json_ops \<Rightarrow> 'j event_filter \<Rightarrow> 'j solana_event \<Rightarrow> bool" where
  "matches J f e =
     (if rejects_type f e then False
      else if rejects_slot f e then False
      else if rejects_program J f e then False
      else if rejects_amount J f e then False
      else if rejects_signature f e then False
      else if rejects_custom f e then False
      else True)"

section \<open>The builder\<close>

definition filter_builder_new :: "'j event_filter" where
  "filter_builder_new = event_filter_default"

definition with_event_types :: "event_type list \<Rightarrow> 'j event_filter \<Rightarrow> 'j event_filter" where
  "with_event_types types f = f\<lparr>event_types := Some types\<rparr>"

definition with_min_slot :: "u64 \<Rightarrow> 'j event_filter \<Rightarrow> 'j event_filter" where
  "with_min_slot min_slot_val f = f\<lparr>min_slot := Some min_slot_val\<rparr>"

definition with_max_slot :: "u64 \<Rightarrow> 'j event_filter \<Rightarrow> 'j event_filter" where
  "with_max_slot max_slot_val f = f\<lparr>max_slot := Some max_slot_val\<rparr>"

definition with_slot_range :: "u64 \<Rightarrow> u64 \<Rightarrow> 'j event_filter \<Rightarrow> 'j event_filter" where
  "with_slot_range lo hi f = f\<lparr>min_slot := Some lo, max_slot := Some hi\<rparr>"

definition with_program_ids :: "string list \<Rightarrow> 'j event_filter \<Rightarrow> 'j event_filter" where
  "with_program_ids ids f = f\<lparr>program_ids := Some ids\<rparr>"

definition with_min_amount :: "f64 \<Rightarrow> 'j event_filter \<Rightarrow> 'j event_filter" where
  "with_min_amount amount f = f\<lparr>min_amount := Some amount\<rparr>"

definition with_signatures :: "string list \<Rightarrow> 'j event_filter \<Rightarrow> 'j event_filter" where
  "with_signatures signatures_list f = f\<lparr>signatures := Some signatures_list\<rparr>"

definition with_custom :: "('j solana_event \<Rightarrow> bool) \<Rightarrow> 'j event_filter \<Rightarrow> 'j event_filter" where
  "with_custom custom_fn_impl f = f\<lparr>custom_filter := Some custom_fn_impl\<rparr>"

definition build :: "'j event_filter \<Rightarrow> 'j event_filter" where
  "build f = f"

lemmas builder_defs =
  filter_builder_new_def event_filter_default_def with_event_types_def with_min_slot_def
  with_max_slot_def with_slot_range_def with_program_ids_def with_min_amount_def
  with_signatures_def with_custom_def build_def

section \<open>What a filter admits\<close>

text \<open>
  C27. The filter with its early returns is the conjunction of its criteria, each on its own: the event
  passes if and only if its type is listed, its slot lies in the closed range, its program id is present
  and listed, its amount is present and not below the minimum (for the two types that have an amount; the
  other types are not restricted), its signature is listed, and the custom predicate holds. A criterion
  that is absent restricts nothing, and neither does an empty list, although the documentation of the
  three lists says that the value must be one of them when they are set.
\<close>

theorem matches_iff:
  "matches J f e \<longleftrightarrow>
     (case event_types f of None \<Rightarrow> True | Some ts \<Rightarrow> ts = [] \<or> event_type e \<in> set ts)
   \<and> (case min_slot f of None \<Rightarrow> True | Some lo \<Rightarrow> unat lo \<le> unat (slot e))
   \<and> (case max_slot f of None \<Rightarrow> True | Some hi \<Rightarrow> unat (slot e) \<le> unat hi)
   \<and> (case program_ids f of None \<Rightarrow> True | Some ps \<Rightarrow> ps = [] \<or> program_id J e \<in> Some ` set ps)
   \<and> (case min_amount f of
        None \<Rightarrow> True
      | Some m \<Rightarrow>
          (case event_type e of
             DexTrade \<Rightarrow> (\<exists>a. amount_base J e = Some a \<and> \<not> f_lt a m)
           | TokenTransfer \<Rightarrow>
               (\<exists>n. get_data_u64_field J ''amount'' e = Some n \<and> \<not> f_lt (f_of_nat (unat n)) m)
           | _ \<Rightarrow> True))
   \<and> (case signatures f of None \<Rightarrow> True | Some ss \<Rightarrow> ss = [] \<or> signature e \<in> set ss)
   \<and> (case custom_filter f of None \<Rightarrow> True | Some g \<Rightarrow> g e)"
proof -
  have types: "\<not> rejects_type f e \<longleftrightarrow>
      (case event_types f of None \<Rightarrow> True | Some ts \<Rightarrow> ts = [] \<or> event_type e \<in> set ts)"
    by (auto simp: rejects_type_def split: option.splits)
  have slots: "\<not> rejects_slot f e \<longleftrightarrow>
      (case min_slot f of None \<Rightarrow> True | Some lo \<Rightarrow> unat lo \<le> unat (slot e))
      \<and> (case max_slot f of None \<Rightarrow> True | Some hi \<Rightarrow> unat (slot e) \<le> unat hi)"
    by (auto simp: rejects_slot_def word_less_nat_alt split: option.splits)
  have programs: "\<not> rejects_program J f e \<longleftrightarrow>
      (case program_ids f of None \<Rightarrow> True | Some ps \<Rightarrow> ps = [] \<or> program_id J e \<in> Some ` set ps)"
    by (auto simp: rejects_program_def list_ex_iff split: option.splits)
  have amounts: "\<not> rejects_amount J f e \<longleftrightarrow>
      (case min_amount f of None \<Rightarrow> True | Some m \<Rightarrow>
        (case event_type e of
           DexTrade \<Rightarrow> (\<exists>a. amount_base J e = Some a \<and> \<not> f_lt a m)
         | TokenTransfer \<Rightarrow> (\<exists>n. get_data_u64_field J ''amount'' e = Some n \<and> \<not> f_lt (f_of_nat (unat n)) m)
         | _ \<Rightarrow> True))"
    by (cases "event_type e") (auto simp: rejects_amount_def event_value_def split: option.splits)
  have sigs: "\<not> rejects_signature f e \<longleftrightarrow>
      (case signatures f of None \<Rightarrow> True | Some ss \<Rightarrow> ss = [] \<or> signature e \<in> set ss)"
    by (auto simp: rejects_signature_def split: option.splits)
  have custom: "\<not> rejects_custom f e \<longleftrightarrow> (case custom_filter f of None \<Rightarrow> True | Some g \<Rightarrow> g e)"
    by (auto simp: rejects_custom_def split: option.splits)
  show ?thesis
    unfolding matches_def types [symmetric] slots [symmetric] programs [symmetric] amounts [symmetric]
      sigs [symmetric] custom [symmetric] conj_assoc [symmetric]
    by (simp only: conj_assoc slots [symmetric]) auto
qed

end
