(* ===== verification/Config.thy ===== *)
theory Config
  imports Float64 Errors
begin

text \<open>
  src/config.rs: the configuration records, their defaults and their validation. What the code reads
  from its environment is an argument: whether a path exists (\<open>Path::exists\<close>), the text of a fresh
  UUID, the number of CPUs and whether the crate was built with the feature "metrics".
\<close>

section \<open>The records\<close>

record ssl_config =
  ca_cert :: string
  client_key :: string
  client_cert :: string

record kafka_config =
  brokers :: "string list"
  group_id :: string
  username :: string
  password :: string
  topics :: "string list"
  enable_ssl :: bool
  ssl :: ssl_config
  session_timeout :: duration
  auto_offset_reset :: string
  max_poll_records :: usize
  partition_assignment_strategy :: string

record processing_config =
  parallel_workers :: usize
  buffer_size :: usize
  batch_size :: usize
  batch_timeout :: duration
  dedup_window :: duration
  enable_pre_filtering :: bool
  enable_metrics :: bool

record resource_limits =
  max_memory_bytes :: usize
  max_messages_in_flight :: usize
  max_queue_size :: usize
  memory_check_interval :: duration
  backpressure_threshold :: f64

record retry_config =
  max_retries :: usize
  initial_delay :: duration
  max_delay :: duration
  multiplier :: f64

record config =
  cfg_kafka :: kafka_config
  cfg_processing :: processing_config
  cfg_resources :: resource_limits
  cfg_retry :: retry_config

section \<open>Defaults and constructors\<close>

definition ssl_config_default :: ssl_config where
  "ssl_config_default =
     \<lparr>ca_cert = ''certs/server.cer.pem'', client_key = ''certs/client.key.pem'',
      client_cert = ''certs/client.cer.pem''\<rparr>"

text \<open>\<open>get(0..8)\<close> is \<open>None\<close> on a shorter text.\<close>

definition uuid_prefix :: "string \<Rightarrow> string" where
  "uuid_prefix uuid = (if 8 \<le> length uuid then take 8 uuid else ''def'')"

definition kafka_config_default :: "string \<Rightarrow> kafka_config" where
  "kafka_config_default uuid =
     \<lparr>brokers = [''rpk0.bitquery.io:9092'', ''rpk1.bitquery.io:9092'', ''rpk2.bitquery.io:9092''],
      group_id = ''solana_113-rust-sdk-'' @ uuid_prefix uuid,
      username = ''solana_113'',
      password = ''cuDDLAUguo75blkNdbCBSHvNCK1udw'',
      topics = [''solana.transactions.proto'', ''solana.dextrades.proto'', ''solana.tokens.proto''],
      enable_ssl = False,
      ssl = ssl_config_default,
      session_timeout = from_secs 30,
      auto_offset_reset = ''latest'',
      max_poll_records = 500,
      partition_assignment_strategy = ''roundrobin''\<rparr>"

definition kafka_config_new :: "string \<Rightarrow> string \<Rightarrow> string \<Rightarrow> string option \<Rightarrow> kafka_config" where
  "kafka_config_new uuid user pass group_id_suffix =
     (let final_group_id =
            (case group_id_suffix of
               None \<Rightarrow> user @ ''-rust-sdk-'' @ uuid
             | Some suffix \<Rightarrow>
                 if suffix = [] then user @ ''-rust-sdk-'' @ uuid else user @ ''-'' @ suffix)
      in (kafka_config_default uuid)
           \<lparr>username := user, password := pass, group_id := final_group_id, enable_ssl := False\<rparr>)"

definition processing_config_default :: "usize \<Rightarrow> bool \<Rightarrow> processing_config" where
  "processing_config_default num_cpus metrics_feature =
     \<lparr>parallel_workers = max num_cpus 1,
      buffer_size = 10000,
      batch_size = 100,
      batch_timeout = from_millis 500,
      dedup_window = from_secs 300,
      enable_pre_filtering = True,
      enable_metrics = metrics_feature\<rparr>"

definition resource_limits_default :: resource_limits where
  "resource_limits_default =
     \<lparr>max_memory_bytes = 4 * 1024 * 1024 * 1024,
      max_messages_in_flight = 10000,
      max_queue_size = 50000,
      memory_check_interval = from_secs 1,
      backpressure_threshold = f_lit (8 / 10)\<rparr>"

definition retry_config_default :: retry_config where
  "retry_config_default =
     \<lparr>max_retries = 5, initial_delay = from_millis 100, max_delay = from_secs 30,
      multiplier = f_lit 2\<rparr>"

definition config_default :: "string \<Rightarrow> usize \<Rightarrow> bool \<Rightarrow> config" where
  "config_default uuid num_cpus metrics_feature =
     \<lparr>cfg_kafka = kafka_config_default uuid,
      cfg_processing = processing_config_default num_cpus metrics_feature,
      cfg_resources = resource_limits_default,
      cfg_retry = retry_config_default\<rparr>"

definition config_new ::
  "string \<Rightarrow> usize \<Rightarrow> bool \<Rightarrow> string \<Rightarrow> string \<Rightarrow> string option \<Rightarrow> config" where
  "config_new uuid num_cpus metrics_feature user pass group_id_suffix =
     \<lparr>cfg_kafka = kafka_config_new uuid user pass group_id_suffix,
      cfg_processing = processing_config_default num_cpus metrics_feature,
      cfg_resources = resource_limits_default,
      cfg_retry = retry_config_default\<rparr>"

section \<open>Validation\<close>

text \<open>A path between single quotes, as the format strings print it.\<close>

definition quoted :: "string \<Rightarrow> string" where
  "quoted s = CHR 0x27 # s @ [CHR 0x27]"

definition ssl_config_validate :: "(string \<Rightarrow> bool) \<Rightarrow> ssl_config \<Rightarrow> sdk_error + unit" where
  "ssl_config_validate path_exists c =
     (if ca_cert c = [] \<or> \<not> path_exists (ca_cert c) then
        Inl (Config (''SSL CA certificate path ('' @ quoted (ca_cert c)
          @ '') is empty or file does not exist.''))
      else if client_key c = [] \<or> \<not> path_exists (client_key c) then
        Inl (Config (''SSL client key path ('' @ quoted (client_key c)
          @ '') is empty or file does not exist.''))
      else if client_cert c = [] \<or> \<not> path_exists (client_cert c) then
        Inl (Config (''SSL client certificate path ('' @ quoted (client_cert c)
          @ '') is empty or file does not exist.''))
      else Inr ())"

definition kafka_config_validate :: "(string \<Rightarrow> bool) \<Rightarrow> kafka_config \<Rightarrow> sdk_error + unit" where
  "kafka_config_validate path_exists c =
     (if brokers c = [] then Inl (Config ''Kafka brokers list cannot be empty.'')
      else if username c = [] then Inl (Config ''Kafka username cannot be empty.'')
      else if password c = [] then Inl (Config ''Kafka password cannot be empty.'')
      else if group_id c = [] then Inl (Config ''Kafka group_id cannot be empty.'')
      else if topics c = [] then Inl (Config ''Kafka topics list cannot be empty.'')
      else if enable_ssl c then ssl_config_validate path_exists (ssl c)
      else Inr ())"

definition processing_config_validate :: "processing_config \<Rightarrow> sdk_error + unit" where
  "processing_config_validate c =
     (if parallel_workers c = 0 then Inl (Config ''parallel_workers must be at least 1.'')
      else if batch_size c = 0 \<and> 0 < parallel_workers c then
        Inl (Config ''batch_size must be positive if using batch processing features.'')
      else if buffer_size c = 0 then Inl (Config ''buffer_size must be positive.'')
      else Inr ())"

definition resource_limits_validate :: "resource_limits \<Rightarrow> sdk_error + unit" where
  "resource_limits_validate c =
     (if max_memory_bytes c = 0 then Inl (Config ''max_memory_bytes must be positive.'')
      else if max_messages_in_flight c = 0 then Inl (Config ''max_messages_in_flight must be positive.'')
      else if max_queue_size c = 0 then Inl (Config ''max_queue_size must be positive.'')
      else if \<not> (f_le (f_lit (1 / 10)) (backpressure_threshold c)
                 \<and> f_le (backpressure_threshold c) (f_lit 1)) then
        Inl (Config ''backpressure_threshold must be between 0.1 (exclusive, effectively) and 1.0 (inclusive).'')
      else if memory_check_interval c < from_millis 100 then
        Inl (Config ''memory_check_interval is too short, recommend >= 100ms.'')
      else Inr ())"

definition retry_config_validate :: "retry_config \<Rightarrow> sdk_error + unit" where
  "retry_config_validate c =
     (if f_lt (multiplier c) (f_lit 1) then Inl (Config ''Retry multiplier must be >= 1.0.'')
      else if max_delay c < initial_delay c \<and> 0 < max_retries c then
        Inl (Config ''Initial retry delay cannot exceed max retry delay if retries are enabled.'')
      else Inr ())"

definition config_part :: "string \<Rightarrow> sdk_error + unit \<Rightarrow> sdk_error + unit" where
  "config_part prefix r = map_err (\<lambda>e. Config (prefix @ sdk_error_display e)) r"

definition config_validate :: "(string \<Rightarrow> bool) \<Rightarrow> config \<Rightarrow> sdk_error + unit" where
  "config_validate path_exists c =
     and_then (config_part ''Kafka config validation failed: ''
                 (kafka_config_validate path_exists (cfg_kafka c))) (\<lambda>_.
     and_then (config_part ''Processing config validation failed: ''
                 (processing_config_validate (cfg_processing c))) (\<lambda>_.
     and_then (config_part ''Resource limits validation failed: ''
                 (resource_limits_validate (cfg_resources c))) (\<lambda>_.
     and_then (config_part ''Retry config validation failed: ''
                 (retry_config_validate (cfg_retry c))) (\<lambda>_. Inr ()))))"

section \<open>The contract of a validator\<close>

text \<open>
  Every \<open>validate\<close> of a configuration record promises the same: it accepts exactly the records
  that satisfy its conditions, and every error is the variant \<open>Config\<close>. \<open>Config::validate\<close> relies
  on that alone.
\<close>

locale validator =
  fixes validate :: "'c \<Rightarrow> sdk_error + unit"
    and ok :: "'c \<Rightarrow> bool"
  assumes accepts: "validate c = Inr () \<longleftrightarrow> ok c"
    and rejects: "validate c = Inl e \<Longrightarrow> \<exists>m. e = Config m"
begin

lemma part_accepts: "config_part p (validate c) = Inr () \<longleftrightarrow> ok c"
  by (simp add: config_part_def accepts)

lemma part_rejects:
  "config_part p (validate c) = Inl e \<Longrightarrow> \<exists>m. e = Config (p @ ''Configuration error: '' @ m)"
  using rejects [of c] by (auto simp: config_part_def)

end

definition ssl_ok :: "(string \<Rightarrow> bool) \<Rightarrow> ssl_config \<Rightarrow> bool" where
  "ssl_ok path_exists c \<longleftrightarrow> list_all (\<lambda>p. p \<noteq> [] \<and> path_exists p) [ca_cert c, client_key c, client_cert c]"

definition kafka_ok :: "(string \<Rightarrow> bool) \<Rightarrow> kafka_config \<Rightarrow> bool" where
  "kafka_ok path_exists c \<longleftrightarrow>
     brokers c \<noteq> [] \<and> username c \<noteq> [] \<and> password c \<noteq> [] \<and> group_id c \<noteq> [] \<and> topics c \<noteq> []
     \<and> (if enable_ssl c then ssl_ok path_exists (ssl c) else True)"

definition processing_ok :: "processing_config \<Rightarrow> bool" where
  "processing_ok c \<longleftrightarrow> 0 < unat (parallel_workers c) \<and> 0 < unat (batch_size c) \<and> 0 < unat (buffer_size c)"

text \<open>The lower bound of the threshold is the \<open>f64\<close> nearest to 0.1.\<close>

definition resources_ok :: "resource_limits \<Rightarrow> bool" where
  "resources_ok c \<longleftrightarrow>
     0 < unat (max_memory_bytes c) \<and> 0 < unat (max_messages_in_flight c) \<and> 0 < unat (max_queue_size c)
     \<and> (\<exists>t. backpressure_threshold c = Fin t \<and> 7205759403792794 / 2 ^ 56 \<le> t \<and> t \<le> 1)
     \<and> 100000000 \<le> memory_check_interval c"

definition retry_ok :: "retry_config \<Rightarrow> bool" where
  "retry_ok c \<longleftrightarrow> \<not> f_lt (multiplier c) (Fin 1)
     \<and> (initial_delay c \<le> max_delay c \<or> max_retries c = 0)"

interpretation ssl: validator "ssl_config_validate ex" "ssl_ok ex" for ex
  by unfold_locales (auto simp: ssl_config_validate_def ssl_ok_def split: if_splits)

interpretation kafka: validator "kafka_config_validate ex" "kafka_ok ex" for ex
  by unfold_locales
     (auto simp: kafka_config_validate_def kafka_ok_def ssl.accepts dest: ssl.rejects split: if_splits)

interpretation processing: validator processing_config_validate processing_ok
  by unfold_locales
     (auto simp: processing_config_validate_def processing_ok_def unat_gt_0 word_gt_0 split: if_splits)

lemma threshold_range:
  "f_le (f_lit (1 / 10)) b \<and> f_le b (f_lit 1) \<longleftrightarrow>
     (\<exists>t. b = Fin t \<and> 7205759403792794 / 2 ^ 56 \<le> t \<and> t \<le> 1)"
  by (cases b) (simp_all add: f_lit_1_10 f_lit_def [of 1])

interpretation resources: validator resource_limits_validate resources_ok
  by unfold_locales
     (auto simp: resource_limits_validate_def resources_ok_def threshold_range from_millis_def
        unat_gt_0 split: if_splits)

interpretation retry: validator retry_config_validate retry_ok
  by unfold_locales
     (auto simp: retry_config_validate_def retry_ok_def f_lit_def word_gt_0 split: if_splits)

lemmas part_accepts =
  kafka.part_accepts processing.part_accepts resources.part_accepts retry.part_accepts

lemmas part_rejects =
  kafka.part_rejects processing.part_rejects resources.part_rejects retry.part_rejects

section \<open>What validation accepts\<close>

lemma config_validate_ok_iff:
  "config_validate ex c = Inr () \<longleftrightarrow>
     kafka_ok ex (cfg_kafka c) \<and> processing_ok (cfg_processing c) \<and> resources_ok (cfg_resources c)
     \<and> retry_ok (cfg_retry c)"
  by (auto simp: config_validate_def part_accepts)

lemma f_lit_4_5: "f_lit (4 / 5) = Fin (7205759403792794 / 2 ^ 53)"
  using rnd_near [of 7205759403792794 "4 / 5" 53] by (simp add: f_lit_def)

lemma defaults_ok:
  "processing_ok (processing_config_default n feat)" "resources_ok resource_limits_default"
  "retry_ok retry_config_default"
proof -
  have "1 \<le> max n 1" by simp
  then have "0 < unat (max n 1)" by (simp add: word_le_nat_alt)
  then show "processing_ok (processing_config_default n feat)"
    by (simp add: processing_ok_def processing_config_default_def)
  show "resources_ok resource_limits_default"
    unfolding resources_ok_def
    by (intro conjI exI [of _ "7205759403792794 / 2 ^ 53"])
       (simp_all add: resource_limits_default_def f_lit_4_5 from_secs_def)
  show "retry_ok retry_config_default"
    by (simp add: retry_ok_def retry_config_default_def f_lit_def rnd_numeral from_secs_def from_millis_def)
qed

text \<open>The first of four chained checks that fails decides the error.\<close>

lemma first_failure:
  fixes a b c d :: "'e + unit"
  assumes "and_then a (\<lambda>_. and_then b (\<lambda>_. and_then c (\<lambda>_. and_then d (\<lambda>_. Inr ())))) = Inl e"
  shows "\<exists>r. r = Inl e \<and> (if a \<noteq> Inr () then r = a else if b \<noteq> Inr () then r = b
      else if c \<noteq> Inr () then r = c else r = d)"
  using assms by (cases a; cases b; cases c; cases d) auto

text \<open>
  C23. \<open>Config::validate\<close> accepts a configuration exactly when every condition of its parts holds:
  no empty Kafka list or credential, existing certificate files when SSL is on, positive sizes and
  limits, a threshold in [0.1, 1.0], a check interval of 100 ms or more, a multiplier not below 1.0
  and, with retries, an initial delay within the maximal one. The documentation of the threshold asks for
  a value between 0.0 and 1.0, and its error text excludes 0.1; the text of the multiplier asks for 1.0 or
  more, and a NaN, which is not below 1.0, passes.
\<close>

theorem config_validate_iff:
  "config_validate ex c = Inr () \<longleftrightarrow>
     brokers (cfg_kafka c) \<noteq> [] \<and> username (cfg_kafka c) \<noteq> [] \<and> password (cfg_kafka c) \<noteq> []
     \<and> group_id (cfg_kafka c) \<noteq> [] \<and> topics (cfg_kafka c) \<noteq> []
     \<and> (if enable_ssl (cfg_kafka c)
        then list_all (\<lambda>p. p \<noteq> [] \<and> ex p)
          [ca_cert (ssl (cfg_kafka c)), client_key (ssl (cfg_kafka c)), client_cert (ssl (cfg_kafka c))]
        else True)
     \<and> 0 < unat (parallel_workers (cfg_processing c)) \<and> 0 < unat (batch_size (cfg_processing c))
     \<and> 0 < unat (buffer_size (cfg_processing c))
     \<and> 0 < unat (max_memory_bytes (cfg_resources c)) \<and> 0 < unat (max_messages_in_flight (cfg_resources c))
     \<and> 0 < unat (max_queue_size (cfg_resources c))
     \<and> (\<exists>t. backpressure_threshold (cfg_resources c) = Fin t \<and> 7205759403792794 / 2 ^ 56 \<le> t \<and> t \<le> 1)
     \<and> 100000000 \<le> memory_check_interval (cfg_resources c)
     \<and> \<not> f_lt (multiplier (cfg_retry c)) (Fin 1)
     \<and> (initial_delay (cfg_retry c) \<le> max_delay (cfg_retry c) \<or> max_retries (cfg_retry c) = 0)"
  unfolding config_validate_ok_iff kafka_ok_def processing_ok_def resources_ok_def retry_ok_def ssl_ok_def
  by (simp only: conj_assoc)

text \<open>
  A configuration built by \<open>Config::new\<close> is valid exactly when the user name and the password
  are not empty, whatever the group-id suffix, the machine and the files present; its group id
  starts with the user name.
\<close>

theorem config_new_valid_iff:
  "(config_validate ex (config_new uuid n feat user pass suffix) = Inr () \<longleftrightarrow> user \<noteq> [] \<and> pass \<noteq> [])
   \<and> take (length user + 1) (group_id (cfg_kafka (config_new uuid n feat user pass suffix))) = user @ ''-''"
proof -
  let ?k = "kafka_config_new uuid user pass suffix"
  have "kafka_ok ex ?k \<longleftrightarrow> user \<noteq> [] \<and> pass \<noteq> []"
    by (auto simp: kafka_ok_def kafka_config_new_def kafka_config_default_def Let_def split: option.splits)
  moreover have "take (length user + 1) (group_id ?k) = user @ ''-''"
    by (auto simp: kafka_config_new_def Let_def split: option.splits)
  ultimately show ?thesis
    by (simp add: config_validate_ok_iff config_new_def defaults_ok)
qed

text \<open>
  A rejected configuration is always reported as the error \<open>Config\<close>, with the name of the
  first part that is invalid in front of that part's own message.
\<close>

theorem config_validate_error:
  assumes "config_validate ex c = Inl e"
  shows "\<exists>m. e = Config
    ((if \<not> kafka_ok ex (cfg_kafka c) then ''Kafka config validation failed: ''
      else if \<not> processing_ok (cfg_processing c) then ''Processing config validation failed: ''
      else if \<not> resources_ok (cfg_resources c) then ''Resource limits validation failed: ''
      else ''Retry config validation failed: '') @ ''Configuration error: '' @ m)"
proof -
  obtain r where r: "r = Inl e"
    and first: "if \<not> kafka_ok ex (cfg_kafka c)
        then r = config_part ''Kafka config validation failed: '' (kafka_config_validate ex (cfg_kafka c))
      else if \<not> processing_ok (cfg_processing c)
        then r = config_part ''Processing config validation failed: ''
          (processing_config_validate (cfg_processing c))
      else if \<not> resources_ok (cfg_resources c)
        then r = config_part ''Resource limits validation failed: ''
          (resource_limits_validate (cfg_resources c))
      else r = config_part ''Retry config validation failed: '' (retry_config_validate (cfg_retry c))"
    using first_failure [OF assms [unfolded config_validate_def]] unfolding part_accepts by blast
  consider (k) "\<not> kafka_ok ex (cfg_kafka c)"
    | (p) "kafka_ok ex (cfg_kafka c)" "\<not> processing_ok (cfg_processing c)"
    | (rs) "kafka_ok ex (cfg_kafka c)" "processing_ok (cfg_processing c)" "\<not> resources_ok (cfg_resources c)"
    | (rt) "kafka_ok ex (cfg_kafka c)" "processing_ok (cfg_processing c)" "resources_ok (cfg_resources c)"
    by blast
  then show ?thesis
  proof cases
    case k
    with first r have "config_part ''Kafka config validation failed: '' (kafka_config_validate ex (cfg_kafka c)) = Inl e"
      by (simp only: simp_thms if_True if_False)
    from kafka.part_rejects [OF this] k show ?thesis by (simp only: simp_thms if_True if_False append_assoc)
  next
    case p
    with first r have "config_part ''Processing config validation failed: '' (processing_config_validate (cfg_processing c)) = Inl e"
      by (simp only: simp_thms if_True if_False)
    from processing.part_rejects [OF this] p show ?thesis by (simp only: simp_thms if_True if_False append_assoc)
  next
    case rs
    with first r have "config_part ''Resource limits validation failed: '' (resource_limits_validate (cfg_resources c)) = Inl e"
      by (simp only: simp_thms if_True if_False)
    from resources.part_rejects [OF this] rs show ?thesis by (simp only: simp_thms if_True if_False append_assoc)
  next
    case rt
    with first r have "config_part ''Retry config validation failed: '' (retry_config_validate (cfg_retry c)) = Inl e"
      by (simp only: simp_thms if_True if_False)
    from retry.part_rejects [OF this] rt show ?thesis by (simp only: simp_thms if_True if_False append_assoc)
  qed
qed

theorem config_validate_error_witness:
  "\<exists>m. Config ''Processing config validation failed: Configuration error: parallel_workers must be at least 1.''
      = Config (''Processing config validation failed: '' @ ''Configuration error: '' @ m)"
proof -
  let ?c = "(config_default ''0'' 4 True)\<lparr>cfg_processing :=
    (processing_config_default 4 True)\<lparr>parallel_workers := 0\<rparr>\<rparr>"
  have k: "kafka_ok (\<lambda>_. False) (cfg_kafka ?c)"
    by (simp add: kafka_ok_def config_default_def kafka_config_default_def)
  have p: "\<not> processing_ok (cfg_processing ?c)"
    by (simp add: processing_ok_def)
  have "config_validate (\<lambda>_. False) ?c
      = Inl (Config ''Processing config validation failed: Configuration error: parallel_workers must be at least 1.'')"
    using k kafka.part_accepts [of _ "\<lambda>_. False" "cfg_kafka ?c"]
    by (simp add: config_validate_def config_part_def processing_config_validate_def)
  from config_validate_error [OF this] k p show ?thesis by simp
qed

end
