(* ===== verification/Resources.thy ===== *)
theory Resources
  imports Config
begin

text \<open>
  src/resource_manager.rs: the counter of messages in flight, the memory estimate derived from it and
  the backpressure signals. The atomics are the fields of one record and wrap as \<open>fetch_add\<close> and
  \<open>fetch_sub\<close> do. The monitoring task only reports; what it reads is \<open>monitoring_tick\<close>.
\<close>

section \<open>Operations\<close>

record resource_manager =
  rm_config :: resource_limits
  current_memory_estimate_bytes :: u64
  messages_in_flight :: usize
  backpressure_active_signals :: usize

definition resource_manager_new :: "resource_limits \<Rightarrow> resource_manager" where
  "resource_manager_new config =
     \<lparr>rm_config = config, current_memory_estimate_bytes = 0, messages_in_flight = 0,
      backpressure_active_signals = 0\<rparr>"

definition get_estimated_current_memory :: "resource_manager \<Rightarrow> resource_manager \<times> u64" where
  "get_estimated_current_memory m =
     (let in_flight_count = messages_in_flight m;
          avg_message_ram_footprint_bytes = 20 * 1024;
          estimated_dynamic_usage = in_flight_count * avg_message_ram_footprint_bytes
      in (m\<lparr>current_memory_estimate_bytes := estimated_dynamic_usage\<rparr>, estimated_dynamic_usage))"

definition activate_backpressure_signal :: "resource_manager \<Rightarrow> resource_manager" where
  "activate_backpressure_signal m =
     m\<lparr>backpressure_active_signals := backpressure_active_signals m + 1\<rparr>"

definition deactivate_backpressure_signal :: "resource_manager \<Rightarrow> resource_manager" where
  "deactivate_backpressure_signal m =
     m\<lparr>backpressure_active_signals := backpressure_active_signals m - 1\<rparr>"

definition is_backpressure_active :: "resource_manager \<Rightarrow> bool" where
  "is_backpressure_active m \<longleftrightarrow> 0 < backpressure_active_signals m"

definition memory_trigger_threshold :: "resource_limits \<Rightarrow> u64" where
  "memory_trigger_threshold c =
     as_u64 (f_mul (f_of_nat (unat (max_memory_bytes c))) (backpressure_threshold c))"

definition memory_deactivation_point :: "resource_limits \<Rightarrow> u64" where
  "memory_deactivation_point c =
     as_u64 (f_mul (f_mul (f_of_nat (unat (max_memory_bytes c))) (backpressure_threshold c)) (f_lit (7 / 10)))"

definition messages_deactivation_point :: "resource_limits \<Rightarrow> usize" where
  "messages_deactivation_point c =
     as_u64 (f_mul (f_of_nat (unat (max_messages_in_flight c))) (f_lit (7 / 10)))"

definition check_resources :: "resource_manager \<Rightarrow> resource_manager \<times> (sdk_error + unit)" where
  "check_resources m =
     (let in_flight = messages_in_flight m
      in if max_messages_in_flight (rm_config m) \<le> in_flight then
           (activate_backpressure_signal m,
            Inl (ResourceError (''Max messages in flight reached ('' @ dec_string (unat in_flight) @ '' >= ''
              @ dec_string (unat (max_messages_in_flight (rm_config m))) @ '')'')))
         else
           (let (m1, estimated_memory) = get_estimated_current_memory m;
                memory_trigger = memory_trigger_threshold (rm_config m)
            in if memory_trigger \<le> estimated_memory then
                 (activate_backpressure_signal m1,
                  Inl (ResourceError (''Estimated memory usage exceeds backpressure threshold (''
                    @ dec_string (unat estimated_memory) @ '' bytes >= ''
                    @ dec_string (unat memory_trigger) @ '' bytes)'')))
               else (m1, Inr ())))"

definition start_processing :: "usize \<Rightarrow> resource_manager \<Rightarrow> resource_manager" where
  "start_processing n m = m\<lparr>messages_in_flight := messages_in_flight m + n\<rparr>"

definition complete_processing :: "usize \<Rightarrow> resource_manager \<Rightarrow> resource_manager" where
  "complete_processing n m =
     (let m1 = m\<lparr>messages_in_flight := messages_in_flight m - n\<rparr>;
          current_in_flight = messages_in_flight m1;
          (m2, estimated_memory) = get_estimated_current_memory m1
      in if current_in_flight < messages_deactivation_point (rm_config m)
            \<and> estimated_memory < memory_deactivation_point (rm_config m) then
           (if is_backpressure_active m2 then deactivate_backpressure_signal m2 else m2)
         else m2)"

text \<open>One tick of the monitoring loop: the values it reports.\<close>

definition monitoring_tick :: "resource_manager \<Rightarrow> u64 \<times> usize \<times> bool" where
  "monitoring_tick m =
     (current_memory_estimate_bytes m, messages_in_flight m, 0 < backpressure_active_signals m)"

lemmas resource_defs [model_defs] =
  resource_manager_new_def get_estimated_current_memory_def activate_backpressure_signal_def
  deactivate_backpressure_signal_def is_backpressure_active_def check_resources_def
  start_processing_def complete_processing_def Let_def

section \<open>The thresholds\<close>

lemma mul_7_10_le:
  assumes "f_le (Fin 0) a" "a = PosInf \<or> (\<exists>r. a = Fin r \<and> rnd r = Fin r)"
  shows "f_le (f_mul a (f_lit (7 / 10))) a"
proof (cases a)
  case (Fin r)
  then have r: "0 \<le> r" "rnd r = Fin r" using assms by auto
  have "r * (6305039478318694 / 9007199254740992) \<le> r * 1"
    using r(1) by (intro mult_left_mono) simp_all
  then have "f_le (rnd (r * (6305039478318694 / 9007199254740992))) (rnd r)"
    using rnd_mono by simp
  then show ?thesis by (simp add: Fin f_lit_7_10 r(2))
qed (use assms in \<open>simp_all add: f_lit_7_10\<close>)

lemma f_mul_rounded: "f_mul (Fin x) (Fin y) = Fin r \<Longrightarrow> rnd r = Fin r"
  by (simp add: rnd_idem)

lemma f_of_nat_rounded: "f_of_nat n = PosInf \<or> (\<exists>r. f_of_nat n = Fin r \<and> rnd r = Fin r \<and> 0 \<le> r)"
  using rnd_nonneg_cases [of "of_nat n"] rnd_idem [of "of_nat n"] by (auto simp: f_of_nat_def)

lemma product_cases:
  "f_mul (f_of_nat n) t = NaN \<or> f_le (f_mul (f_of_nat n) t) (Fin 0)
   \<or> f_le (Fin 0) (f_mul (f_of_nat n) t)
     \<and> (f_mul (f_of_nat n) t = PosInf \<or> (\<exists>r. f_mul (f_of_nat n) t = Fin r \<and> rnd r = Fin r))"
proof (cases "f_mul (f_of_nat n) t")
  case (Fin r)
  have "rnd r = Fin r"
  proof (cases "f_of_nat n")
    case (Fin x)
    show ?thesis using \<open>f_mul (f_of_nat n) t = Fin r\<close> Fin
      by (cases t) (simp_all add: rnd_idem split: if_splits)
  next
    case PosInf
    then show ?thesis using Fin by (cases t) (simp_all split: if_splits)
  qed (use f_of_nat_rounded [of n] in auto)
  then show ?thesis using Fin by (cases "0 \<le> r") auto
qed auto

lemma as_u64_nonpos: "a = NaN \<or> f_le a (Fin 0) \<Longrightarrow> as_u64 a = 0"
  by (cases a) auto

lemma mul_pos_sign: "f_le a (Fin 0) \<Longrightarrow> f_mul a (f_lit (7 / 10)) = NaN \<or> f_le (f_mul a (f_lit (7 / 10))) (Fin 0)"
proof (cases a)
  case (Fin r)
  assume "f_le a (Fin 0)"
  then have "r * (6305039478318694 / 9007199254740992) \<le> 0" using Fin by (simp add: mult_le_0_iff)
  from rnd_mono [OF this] show ?thesis by (simp add: Fin f_lit_7_10)
qed (simp_all add: f_lit_7_10)

lemma memory_points: "memory_deactivation_point c \<le> memory_trigger_threshold c"
proof -
  let ?p = "f_mul (f_of_nat (unat (max_memory_bytes c))) (backpressure_threshold c)"
  consider "?p = NaN" | "f_le ?p (Fin 0)"
    | "f_le (Fin 0) ?p" "?p = PosInf \<or> (\<exists>r. ?p = Fin r \<and> rnd r = Fin r)"
    using product_cases by blast
  then show ?thesis
  proof cases
    case 3
    from as_u64_mono [OF mul_7_10_le [OF this]] show ?thesis
      by (simp only: memory_deactivation_point_def memory_trigger_threshold_def)
  next
    case 1
    then show ?thesis by (simp add: memory_deactivation_point_def)
  next
    case 2
    from mul_pos_sign [OF this] have "memory_deactivation_point c = 0"
      unfolding memory_deactivation_point_def by (rule as_u64_nonpos)
    then show ?thesis by simp
  qed
qed


lemma f_of_nat_exact: "n \<le> 2 ^ 53 \<Longrightarrow> f_of_nat n = Fin (of_nat n)"
  by (simp add: f_of_nat_def rnd_of_nat)

lemma unat_as_u64_nat: "n \<le> 2 ^ 53 \<Longrightarrow> unat (as_u64 (Fin (of_nat n))) = n"
proof -
  assume n: "n \<le> 2 ^ 53"
  then have "(of_nat n :: rat) \<le> of_nat (2 ^ 53)" by (rule of_nat_mono)
  then have "\<not> 2 ^ 64 \<le> (of_nat n :: rat)" by simp
  then show ?thesis by (subst unat_as_u64_Fin) simp_all
qed

lemma messages_point_le:
  assumes "unat (max_messages_in_flight c) \<le> 2 ^ 53"
  shows "messages_deactivation_point c \<le> max_messages_in_flight c"
proof -
  obtain k where k: "unat (max_messages_in_flight c) = k" by blast
  then have k53: "k \<le> 2 ^ 53" using assms by simp
  have "f_le (f_mul (f_of_nat k) (f_lit (7 / 10))) (f_of_nat k)"
    by (rule mul_7_10_le) (simp_all add: f_of_nat_exact [OF k53] rnd_of_nat [OF k53])
  from as_u64_mono [OF this]
  have "unat (messages_deactivation_point c) \<le> unat (as_u64 (Fin (of_nat k)))"
    unfolding messages_deactivation_point_def k f_of_nat_exact [OF k53] word_le_nat_alt .
  then show ?thesis
    unfolding unat_as_u64_nat [OF k53] word_le_nat_alt k .
qed

text \<open>The limit of one message is the only one whose deactivation point is 0.\<close>

lemma messages_point_pos: "0 < messages_deactivation_point c \<longleftrightarrow> 2 \<le> unat (max_messages_in_flight c)"
proof (cases "2 \<le> unat (max_messages_in_flight c)")
  case True
  have "f_le (f_of_nat 2) (f_of_nat (unat (max_messages_in_flight c)))"
    unfolding f_of_nat_def by (rule rnd_mono, rule of_nat_mono, rule True)
  then have two: "f_le (Fin 2) (f_of_nat (unat (max_messages_in_flight c)))"
    by (simp add: f_of_nat_exact)
  have "f_le (Fin 1) (f_mul (f_of_nat (unat (max_messages_in_flight c))) (f_lit (7 / 10)))"
  proof (cases "f_of_nat (unat (max_messages_in_flight c))")
    case (Fin x)
    then have "1 \<le> x * (6305039478318694 / 9007199254740992)" using two by simp
    from rnd_mono [OF this] show ?thesis by (simp add: Fin f_lit_7_10)
  qed (use two in \<open>simp_all add: f_lit_7_10\<close>)
  from as_u64_mono [OF this] have "(1 :: u64) \<le> messages_deactivation_point c"
    by (simp add: messages_deactivation_point_def)
  then show ?thesis using True by (simp add: word_le_nat_alt word_less_nat_alt)
next
  case False
  then consider "unat (max_messages_in_flight c) = 0" | "unat (max_messages_in_flight c) = 1" by linarith
  moreover have "rnd (6305039478318694 / 9007199254740992) = Fin (6305039478318694 / 9007199254740992)"
    using f_lit_7_10 rnd_idem unfolding f_lit_def by blast
  moreover have "\<lfloor>3152519739159347 / 4503599627370496 :: rat\<rfloor> = 0"
    by (simp add: floor_eq_iff)
  ultimately have "messages_deactivation_point c = 0"
    by cases (simp_all only: messages_deactivation_point_def, simp_all add: f_of_nat_def f_lit_7_10)
  then show ?thesis using False by simp
qed

section \<open>Properties\<close>

lemma check_resources_safe_facts:
  assumes "resource_limits_validate (rm_config m) = Inr ()" "check_resources m = (m', Inr ())"
    and "unat (max_memory_bytes (rm_config m)) \<le> 2 ^ 53"
    and "unat (max_messages_in_flight (rm_config m)) \<le> 2 ^ 49"
  shows "unat (messages_in_flight m) < unat (max_messages_in_flight (rm_config m))"
    and "unat (messages_in_flight m) * 20480 < unat (max_memory_bytes (rm_config m))"
    and "m' = m\<lparr>current_memory_estimate_bytes := current_memory_estimate_bytes m'\<rparr>"
    and "unat (current_memory_estimate_bytes m') = unat (messages_in_flight m) * 20480"
proof -
  let ?c = "rm_config m"
  let ?est = "messages_in_flight m * 20480"
  have lt: "messages_in_flight m < max_messages_in_flight ?c" and mem: "?est < memory_trigger_threshold ?c"
    and m': "m' = m\<lparr>current_memory_estimate_bytes := ?est\<rparr>"
    using assms(2) by (simp_all add: model_defs not_le split: if_splits)
  show below: "unat (messages_in_flight m) < unat (max_messages_in_flight ?c)"
    using lt by (simp add: word_less_nat_alt)
  have est: "unat ?est = unat (messages_in_flight m) * 20480"
    using below assms(4) by (simp add: unat_word_ariths)
  obtain t where t: "backpressure_threshold ?c = Fin t" "t \<le> 1"
    using assms(1) resources.accepts [of ?c] by (auto simp: resources_ok_def)
  obtain k where k: "unat (max_memory_bytes ?c) = k" by blast
  then have k53: "k \<le> 2 ^ 53" using assms(3) by simp
  have "of_nat k * t \<le> (of_nat k :: rat) * 1"
    using t by (intro mult_left_mono) simp_all
  from rnd_mono [OF this] have "f_le (f_mul (f_of_nat k) (Fin t)) (Fin (of_nat k))"
    by (simp add: f_of_nat_exact [OF k53] rnd_of_nat [OF k53])
  from as_u64_mono [OF this] have "unat (memory_trigger_threshold ?c) \<le> k"
    unfolding memory_trigger_threshold_def t(1) k word_le_nat_alt unat_as_u64_nat [OF k53] .
  then show "unat (messages_in_flight m) * 20480 < unat (max_memory_bytes ?c)"
    using mem est by (simp add: word_less_nat_alt k)
  show "m' = m\<lparr>current_memory_estimate_bytes := current_memory_estimate_bytes m'\<rparr>"
    and "unat (current_memory_estimate_bytes m') = unat (messages_in_flight m) * 20480"
    using m' est by simp_all
qed

text \<open>
  C20. When \<open>check_resources\<close> accepts under a validated configuration (whose limits are below 2 ^ 53
  bytes and 2 ^ 49 messages), there is room in both limits: fewer messages are in flight than
  allowed, and their estimated memory (20 KiB each, without overflow) is below the memory limit; and
  it leaves the signals as they are.
\<close>

theorem check_resources_safe:
  assumes "resource_limits_validate (rm_config m) = Inr ()" "check_resources m = (m', Inr ())"
    and "unat (max_memory_bytes (rm_config m)) \<le> 2 ^ 53"
    and "unat (max_messages_in_flight (rm_config m)) \<le> 2 ^ 49"
  shows "(unat (messages_in_flight m) < unat (max_messages_in_flight (rm_config m)))
    \<and> (unat (messages_in_flight m) * 20480 < unat (max_memory_bytes (rm_config m)))
    \<and> (m' = m\<lparr>current_memory_estimate_bytes := current_memory_estimate_bytes m'\<rparr>)
    \<and> (unat (current_memory_estimate_bytes m') = unat (messages_in_flight m) * 20480)"
  by (intro conjI check_resources_safe_facts [OF assms])

lemma check_accepts:
  "messages_in_flight m < max_messages_in_flight (rm_config m) \<Longrightarrow>
   messages_in_flight m * 20480 < memory_trigger_threshold (rm_config m) \<Longrightarrow>
   snd (check_resources m) = Inr ()"
  by (simp add: model_defs not_le)

lemma complete_fields:
  "messages_in_flight (complete_processing n m) = messages_in_flight m - n"
  "rm_config (complete_processing n m) = rm_config m"
  by (simp_all add: model_defs)

lemma released_below:
  assumes "backpressure_active_signals (complete_processing n m) \<noteq> backpressure_active_signals m"
  shows "messages_in_flight m - n < messages_deactivation_point (rm_config m)"
    and "(messages_in_flight m - n) * 20480 < memory_deactivation_point (rm_config m)"
  using assms by (auto simp: model_defs algebra_simps split: if_splits)

text \<open>
  Hysteresis: whenever \<open>complete_processing\<close> withdraws a backpressure signal, the next
  \<open>check_resources\<close> accepts, so backpressure is never withdrawn above the points that raise it.
\<close>

theorem release_then_accept:
  assumes "backpressure_active_signals (complete_processing n m) \<noteq> backpressure_active_signals m"
    and "unat (max_messages_in_flight (rm_config m)) \<le> 2 ^ 53"
  shows "snd (check_resources (complete_processing n m)) = Inr ()"
proof -
  show ?thesis
    using released_below [OF assms(1)] messages_point_le [OF assms(2)] memory_points [of "rm_config m"]
    by (intro check_accepts) (auto simp: complete_fields intro: less_le_trans)
qed

text \<open>
  Release: completing the last batch in flight withdraws exactly one of the active signals, if
  and only if more than one message may be in flight and the memory deactivation point is not 0. A
  limit of one message, which the validation accepts, rounds its deactivation point down to 0:
  backpressure, once raised, is then never withdrawn.
\<close>

theorem last_batch_releases:
  assumes "messages_in_flight m = n" "backpressure_active_signals m \<noteq> 0"
  shows "backpressure_active_signals (complete_processing n m) =
    (if 2 \<le> unat (max_messages_in_flight (rm_config m)) \<and> 0 < unat (memory_deactivation_point (rm_config m))
     then backpressure_active_signals m - 1 else backpressure_active_signals m)"
proof -
  have "0 < messages_deactivation_point (rm_config m) \<longleftrightarrow> 2 \<le> unat (max_messages_in_flight (rm_config m))"
    by (rule messages_point_pos)
  then show ?thesis
    using assms by (auto simp: model_defs word_gt_0 unat_eq_0)
qed

datatype resource_call = Check | Start usize | Complete usize

fun resource_step :: "resource_call \<Rightarrow> resource_manager \<Rightarrow> resource_manager" where
  "resource_step Check m = fst (check_resources m)"
| "resource_step (Start n) m = start_processing n m"
| "resource_step (Complete n) m = complete_processing n m"

lemma step_config: "rm_config (resource_step c m) = rm_config m"
  by (cases c) (auto simp: model_defs)

lemma stuck_step:
  assumes "unat (max_messages_in_flight (rm_config m)) \<le> 1"
  shows "backpressure_active_signals (resource_step c m)
    \<in> {backpressure_active_signals m, backpressure_active_signals m + 1}"
proof -
  have "messages_deactivation_point (rm_config m) = 0"
    using messages_point_pos [of "rm_config m"] assms by (simp add: word_gt_0)
  then show ?thesis by (cases c) (auto simp: model_defs)
qed

text \<open>
  With a limit of one message, backpressure is permanent: no sequence of calls (shorter than the
  range of the 64-bit signal counter) clears it, so a consumer that has seen it once never fetches again.
\<close>

theorem single_message_limit_stuck:
  assumes "unat (max_messages_in_flight (rm_config m)) = 1" "is_backpressure_active m"
    and "unat (backpressure_active_signals m) + length calls < 2 ^ 64"
  shows "is_backpressure_active (fold resource_step calls m)"
  using assms
proof (induction calls arbitrary: m)
  case (Cons c calls)
  let ?m = "resource_step c m"
  have "unat (backpressure_active_signals m + 1) = unat (backpressure_active_signals m) + 1"
    using Cons.prems(3) by (simp add: unat_word_ariths)
  then have "unat (backpressure_active_signals m) \<le> unat (backpressure_active_signals ?m)
      \<and> unat (backpressure_active_signals ?m) \<le> unat (backpressure_active_signals m) + 1"
    using stuck_step [of m c] Cons.prems(1) by auto
  then have "is_backpressure_active ?m" "unat (backpressure_active_signals ?m) + length calls < 2 ^ 64"
    using Cons.prems(2,3) by (simp_all add: is_backpressure_active_def word_less_nat_alt)
  with Cons.IH [of ?m] Cons.prems(1) show ?case by (simp add: step_config)
qed simp

section \<open>Witnesses\<close>

definition sample_limits :: "usize \<Rightarrow> resource_limits" where
  "sample_limits n =
     \<lparr>max_memory_bytes = 1000000, max_messages_in_flight = n, max_queue_size = 10,
      memory_check_interval = from_secs 1, backpressure_threshold = Fin 1\<rparr>"

lemma sample_limits_points:
  "memory_trigger_threshold (sample_limits n) = 1000000"
  "0 < memory_deactivation_point (sample_limits n)"
proof -
  have mm: "f_of_nat (unat (max_memory_bytes (sample_limits n))) = Fin 1000000"
    by (simp add: sample_limits_def f_of_nat_def rnd_numeral)
  have p: "f_mul (Fin 1000000) (backpressure_threshold (sample_limits n)) = Fin 1000000"
    by (simp add: sample_limits_def rnd_numeral)
  show "memory_trigger_threshold (sample_limits n) = 1000000"
    unfolding memory_trigger_threshold_def mm p by simp
  have "(1 :: rat) \<le> 1000000 * (6305039478318694 / 9007199254740992)" by simp
  from rnd_mono [OF this] have "f_le (Fin 1) (f_mul (Fin 1000000) (f_lit (7 / 10)))"
    by (simp add: f_lit_7_10)
  from as_u64_mono [OF this] have "(1 :: u64) \<le> memory_deactivation_point (sample_limits n)"
    unfolding memory_deactivation_point_def mm p by simp
  then show "0 < memory_deactivation_point (sample_limits n)"
    by (simp add: word_le_nat_alt word_less_nat_alt)
qed

theorem check_resources_safe_witness:
  "\<exists>m'. check_resources (start_processing 3 (resource_manager_new (sample_limits 10))) = (m', Inr ())
     \<and> unat (current_memory_estimate_bytes m') = 3 * 20480"
proof -
  let ?m = "start_processing 3 (resource_manager_new (sample_limits 10))"
  have c: "rm_config ?m = sample_limits 10" "messages_in_flight ?m = 3" by (simp_all add: model_defs)
  have "resources_ok (sample_limits 10)"
    by (simp add: resources_ok_def sample_limits_def from_secs_def)
  then have v: "resource_limits_validate (rm_config ?m) = Inr ()"
    using resources.accepts [of "sample_limits 10"] by (simp add: c)
  have max: "max_messages_in_flight (sample_limits 10) = 10" "max_memory_bytes (sample_limits 10) = 1000000"
    by (simp_all add: sample_limits_def)
  have ok: "check_resources ?m = (?m\<lparr>current_memory_estimate_bytes := 61440\<rparr>, Inr ())"
    by (simp add: check_resources_def get_estimated_current_memory_def c max sample_limits_points)
  from check_resources_safe [OF v ok] show ?thesis
    using ok by (simp add: c max)
qed

theorem release_then_accept_witness:
  "\<exists>m. is_backpressure_active m \<and> \<not> is_backpressure_active (complete_processing 5 m)
     \<and> snd (check_resources (complete_processing 5 m)) = Inr ()"
proof -
  let ?m = "(resource_manager_new (sample_limits 10))\<lparr>messages_in_flight := 5, backpressure_active_signals := 1\<rparr>"
  have c: "rm_config ?m = sample_limits 10" "max_messages_in_flight (sample_limits 10) = 10"
    by (simp_all add: model_defs sample_limits_def)
  have "0 < messages_deactivation_point (sample_limits 10)"
    using messages_point_pos [of "sample_limits 10"] c(2) by simp
  then have z: "backpressure_active_signals (complete_processing 5 ?m) = 0"
    using sample_limits_points(2) [of 10] by (simp add: model_defs)
  have "backpressure_active_signals (complete_processing 5 ?m) \<noteq> backpressure_active_signals ?m"
    "unat (max_messages_in_flight (rm_config ?m)) \<le> 2 ^ 53"
    using z by (simp_all add: c)
  from release_then_accept [OF this] z show ?thesis
    by (intro exI [of _ ?m]) (simp add: is_backpressure_active_def)
qed

theorem last_batch_releases_witness:
  "backpressure_active_signals (complete_processing 5
     ((resource_manager_new (sample_limits 10))\<lparr>messages_in_flight := 5, backpressure_active_signals := 1\<rparr>)) = 0"
proof -
  have "max_messages_in_flight (sample_limits 10) = 10" "0 < unat (memory_deactivation_point (sample_limits 10))"
    using sample_limits_points(2) [of 10] by (simp_all add: sample_limits_def word_less_nat_alt)
  then show ?thesis
    by (subst last_batch_releases) (simp_all add: model_defs)
qed

theorem single_message_limit_stuck_witness:
  "is_backpressure_active (fold resource_step [Start 1, Complete 1, Check, Complete 0]
     ((resource_manager_new (sample_limits 1))\<lparr>backpressure_active_signals := 1\<rparr>))"
  by (rule single_message_limit_stuck)
     (simp_all add: resource_manager_new_def sample_limits_def is_backpressure_active_def)

end
