(* ===== verification/Compression.thy ===== *)
theory Compression
  imports Float64 Errors
begin

text \<open>
  src/core/utils/compression.rs: the guesses whether a payload is LZ4 or gzip data, and the
  decompression that falls back to the payload itself. The decoders of lz4_flex and flate2 are the
  arguments \<open>lz4\<close> and \<open>gz\<close>: a text of the error, or the decompressed bytes.
\<close>

section \<open>Operations\<close>

text \<open>\<open>u32::from_le_bytes\<close>.\<close>

definition u32_from_le_bytes :: "u8 \<Rightarrow> u8 \<Rightarrow> u8 \<Rightarrow> u8 \<Rightarrow> u32" where
  "u32_from_le_bytes a b c d =
     of_nat (unat a + 2 ^ 8 * unat b + 2 ^ 16 * unat c + 2 ^ 24 * unat d)"

definition is_likely_lz4_compressed :: "bytes \<Rightarrow> bool" where
  "is_likely_lz4_compressed data =
     (if length data < 8 then False
      else
        (let size_prefix = u32_from_le_bytes (data ! 0) (data ! 1) (data ! 2) (data ! 3)
         in if size_prefix = 0 \<or> 100 * 1024 * 1024 < size_prefix then False
            else if length data < 16 then False
            else
              (let compressed_size = length data - 4;
                   compression_ratio = f_div (f_of_nat (unat size_prefix)) (f_of_nat compressed_size)
               in if f_lt (f_lit 10) compression_ratio \<or> f_lt compression_ratio (f_lit (1 / 10)) then False
                  else True)))"

definition is_likely_gzip_compressed :: "bytes \<Rightarrow> bool" where
  "is_likely_gzip_compressed data =
     (if length data < 10 then False
      else if data ! 0 \<noteq> 0x1f \<or> data ! 1 \<noteq> 0x8b then False
      else if data ! 2 \<noteq> 8 then False
      else if data ! 3 AND 0xe0 \<noteq> 0 then False
      else if length data < 20 then False
      else True)"

definition decompress_lz4 :: "(bytes \<Rightarrow> string + bytes) \<Rightarrow> bytes \<Rightarrow> core_error + bytes" where
  "decompress_lz4 lz4 data =
     (if data = [] then Inl (CoreCompression ''Input data for LZ4 decompression cannot be empty.'')
      else if \<not> is_likely_lz4_compressed data then
        Inl (CoreCompression ''Data does not appear to be LZ4 compressed'')
      else map_err (\<lambda>e. CoreCompression (''LZ4 decompression error: '' @ e)) (lz4 data))"

definition decompress_gzip :: "(bytes \<Rightarrow> string + bytes) \<Rightarrow> bytes \<Rightarrow> core_error + bytes" where
  "decompress_gzip gz data =
     (if data = [] then Inl (CoreCompression ''Input data for gzip decompression cannot be empty.'')
      else
        and_then (map_err (\<lambda>e. CoreCompression (''Gzip decompression error: '' @ e)) (gz data))
          (\<lambda>decompressed. Inr decompressed))"

definition decompress_safe :: "(bytes \<Rightarrow> string + bytes) \<Rightarrow> (bytes \<Rightarrow> string + bytes) \<Rightarrow> bytes \<Rightarrow> bytes" where
  "decompress_safe lz4 gz data =
     (if data = [] then data
      else
        (let try_gzip =
               (if is_likely_gzip_compressed data then
                  (case decompress_gzip gz data of Inr decompressed \<Rightarrow> decompressed | Inl _ \<Rightarrow> data)
                else data)
         in if is_likely_lz4_compressed data then
              (case decompress_lz4 lz4 data of Inr decompressed \<Rightarrow> decompressed | Inl _ \<Rightarrow> try_gzip)
            else try_gzip))"

section \<open>The floating-point ratio as integer bounds\<close>

lemma f_lit_10: "f_lit 10 = Fin 10"
  by (simp add: f_lit_def rnd_numeral)

lemma rnd_above_10:
  assumes "10 + 1 / 2 ^ 24 \<le> x" "rnd x = Fin r"
  shows "10 < r"
proof -
  have "rnd (10 + 1 / 2 ^ 24 :: rat) = Fin (of_int 5629499567767552 / 2 ^ 49)"
    by (rule rnd_near) simp_all
  then have "of_int 5629499567767552 / 2 ^ 49 \<le> r"
    using rnd_mono [OF assms(1)] assms(2) by simp
  then show ?thesis by simp
qed

lemma rnd_below_tenth:
  assumes "x \<le> (1 / 10 - 1 / 2 ^ 34 :: rat)" "0 \<le> x"
  shows "f_lt (rnd x) (f_lit (1 / 10))"
proof -
  have "rnd (1 / 10 - 1 / 2 ^ 34 :: rat) = Fin (of_int 7205759399598490 / 2 ^ 56)"
    by (rule rnd_near) simp_all
  from rnd_le_Fin [OF assms(1) this assms(2)] show ?thesis
    by (auto simp: f_lit_1_10)
qed

lemma tenth_minus:
  assumes "0 \<le> x" "x \<le> (104857600 :: rat)"
  shows "x / (10 * x + 1) \<le> 1 / 10 - 1 / 2 ^ 34"
proof -
  have "x / (10 * x + 1) = 1 / 10 - 1 / (100 * x + 10)"
    using assms(1) by (simp add: field_simps)
  moreover have "1 / 2 ^ 34 \<le> 1 / (100 * x + 10)"
    using assms by (intro divide_left_mono) simp_all
  ultimately show ?thesis by linarith
qed

lemma ratio_bounds:
  assumes p: "p \<le> 104857600" and c: "0 < c"
  shows "f_lt (f_lit 10) (f_div (f_of_nat p) (f_of_nat c)) \<longleftrightarrow> 10 * c < p"
    and "f_lt (f_div (f_of_nat p) (f_of_nat c)) (f_lit (1 / 10)) \<longleftrightarrow> 10 * p < c"
proof -
  have fp: "f_of_nat p = Fin (of_nat p)"
    using p by (simp add: f_of_nat_def rnd_of_nat)
  have exact: "f_of_nat c = Fin (of_nat c)" if "c \<le> 1048576000"
    using that by (simp add: f_of_nat_def rnd_of_nat)
  have div: "f_div (f_of_nat p) (f_of_nat c) = rnd (of_nat p / of_nat c)" if "c \<le> 1048576000"
    using exact [OF that] c by (simp add: fp)
  have large: "f_lt (f_div (f_of_nat p) (f_of_nat c)) (f_lit (1 / 10))
      \<and> \<not> f_lt (f_lit 10) (f_div (f_of_nat p) (f_of_nat c))" if small: "10 * p < c"
  proof -
    have low: "f_le (Fin (of_nat (10 * p + 1))) (f_of_nat c)"
    proof -
      have "rnd (of_nat (10 * p + 1)) = Fin (of_nat (10 * p + 1))"
        using p by (intro rnd_of_nat) simp
      moreover have "(of_nat (10 * p + 1) :: rat) \<le> of_nat c"
        using small by (intro of_nat_mono) simp
      ultimately show ?thesis using rnd_mono unfolding f_of_nat_def by metis
    qed
    show ?thesis
    proof (cases "f_of_nat c")
      case (Fin y)
      then have y: "(of_nat (10 * p + 1) :: rat) \<le> y" using low by simp
      then have "(of_nat p :: rat) / y \<le> of_nat p / of_nat (10 * p + 1)"
        by (intro divide_left_mono) (simp_all add: pos_add_strict)
      also have "\<dots> \<le> 1 / 10 - 1 / 2 ^ 34"
      proof -
        have "(of_nat p :: rat) \<le> of_nat 104857600" using p by (intro of_nat_mono)
        then show ?thesis using tenth_minus [of "of_nat p"] by (simp add: add.commute)
      qed
      finally have b: "(of_nat p :: rat) / y \<le> 1 / 10 - 1 / 2 ^ 34" .
      have y0: "0 < y" using y by (rule less_le_trans [rotated]) simp
      have r: "f_div (f_of_nat p) (f_of_nat c) = rnd (of_nat p / y)"
        using y0 by (simp add: fp Fin)
      have nn: "0 \<le> (of_nat p :: rat) / y" using y0 by simp
      have lt: "f_lt (rnd (of_nat p / y)) (f_lit (1 / 10))" by (rule rnd_below_tenth [OF b nn])
      moreover have "\<not> f_lt (f_lit 10) (rnd (of_nat p / y))"
        using lt by (cases "rnd (of_nat p / y)") (auto simp: f_lit_10 f_lit_1_10)
      ultimately show ?thesis by (simp only: r) simp
    qed (use low in \<open>simp_all add: fp f_lit_10 f_lit_1_10\<close>)
  qed
  show "f_lt (f_lit 10) (f_div (f_of_nat p) (f_of_nat c)) \<longleftrightarrow> 10 * c < p"
  proof (cases "10 * p < c")
    case True
    then show ?thesis using large by simp
  next
    case False
    then have c10: "c \<le> 1048576000" using p by simp
    show ?thesis
    proof (cases "10 * c < p")
      case True
      then have c1: "c \<le> 10485760" using p by simp
      have "(of_nat (10 * c + 1) :: rat) \<le> of_nat p" using True by (intro of_nat_mono) simp
      then have "10 + 1 / of_nat c \<le> (of_nat p / of_nat c :: rat)"
        using c by (simp add: pos_le_divide_eq distrib_right)
      moreover have "(1 :: rat) / 2 ^ 24 \<le> 1 / of_nat c"
      proof -
        have "(of_nat c :: rat) \<le> of_nat 10485760" using c1 by (simp only: of_nat_le_iff)
        then have "(of_nat c :: rat) \<le> 2 ^ 24" by simp
        then show ?thesis using c by (intro divide_left_mono) simp_all
      qed
      ultimately have "10 + 1 / 2 ^ 24 \<le> (of_nat p / of_nat c :: rat)" by linarith
      then have "f_lt (Fin 10) (rnd (of_nat p / of_nat c))"
        using rnd_above_10 [of "of_nat p / of_nat c"] rnd_nonneg_cases [of "of_nat p / of_nat c"] by auto
      then show ?thesis using True div [OF c10] by (simp add: f_lit_10)
    next
      case False
      then have "(of_nat p :: rat) \<le> of_nat (10 * c)" by (intro of_nat_mono) simp
      then have "(of_nat p / of_nat c :: rat) \<le> 10" using c by (simp add: field_simps)
      from rnd_mono [OF this] have "f_le (rnd (of_nat p / of_nat c)) (Fin 10)"
        by (simp add: rnd_numeral)
      then show ?thesis
        using False div [OF c10] by (cases "rnd (of_nat p / of_nat c)") (simp_all add: f_lit_10)
    qed
  qed
  show "f_lt (f_div (f_of_nat p) (f_of_nat c)) (f_lit (1 / 10)) \<longleftrightarrow> 10 * p < c"
  proof (cases "10 * p < c")
    case True
    then show ?thesis using large by simp
  next
    case False
    then have c10: "c \<le> 1048576000" using p by simp
    have "(of_nat c :: rat) \<le> of_nat (10 * p)" using False by (intro of_nat_mono) simp
    then have "1 / 10 \<le> (of_nat p / of_nat c :: rat)" using c by (simp add: field_simps)
    from rnd_mono [OF this] have "f_le (f_lit (1 / 10)) (rnd (of_nat p / of_nat c))"
      by (simp add: f_lit_def)
    then have "\<not> f_lt (rnd (of_nat p / of_nat c)) (f_lit (1 / 10))"
      by (simp add: f_lt_iff_not_le f_lit_def)
    then show ?thesis using False div [OF c10] by simp
  qed
qed

section \<open>The guesses\<close>

lemma unat_le_bytes:
  "unat (u32_from_le_bytes a b c d) = unat a + 2 ^ 8 * unat b + 2 ^ 16 * unat c + 2 ^ 24 * unat d"
proof -
  have "unat x < 2 ^ 8" for x :: u8
    using unsigned_less [of x, where 'a = nat] by simp
  from this [of a] this [of b] this [of c] this [of d]
  have "unat a + 2 ^ 8 * unat b + 2 ^ 16 * unat c + 2 ^ 24 * unat d < 2 ^ 32" by simp
  then show ?thesis
    by (simp only: u32_from_le_bytes_def unat_of_nat take_bit_nat_eq_self len_num1 len_bit0)
       (simp add: take_bit_nat_eq_self)
qed

text \<open>
  The floating-point ratio of the source decides exactly integer bounds, for every payload length.
\<close>

lemma lz4_bounds:
  "is_likely_lz4_compressed data \<longleftrightarrow>
    (let p = unat (data ! 0) + 2 ^ 8 * unat (data ! 1) + 2 ^ 16 * unat (data ! 2) + 2 ^ 24 * unat (data ! 3);
         c = length data - 4
     in 16 \<le> length data \<and> 0 < p \<and> p \<le> 104857600 \<and> p \<le> 10 * c \<and> c \<le> 10 * p)"
proof -
  let ?w = "u32_from_le_bytes (data ! 0) (data ! 1) (data ! 2) (data ! 3)"
  have zero: "?w = 0 \<longleftrightarrow> unat ?w = 0" by (simp add: unat_eq_0)
  have big: "100 * 1024 * 1024 < ?w \<longleftrightarrow> 104857600 < unat ?w"
    by (simp add: word_less_nat_alt)
  show ?thesis
    using ratio_bounds [of "unat ?w" "length data - 4"]
    unfolding is_likely_lz4_compressed_def Let_def zero big unat_le_bytes [symmetric]
    by (cases "unat ?w \<le> 104857600"; cases "16 \<le> length data") auto
qed

lemma flags_low: "w AND 0xe0 = 0 \<longleftrightarrow> w < (32 :: u8)"
proof -
  have "(0xe0 :: u8) = NOT (mask 5)"
    by (simp add: mask_eq_exp_minus_1 not_eq_complement)
  moreover have "w AND NOT (mask 5) = 0 \<longleftrightarrow> take_bit 5 w = w"
    by (auto simp: bit_eq_iff bit_simps)
  moreover have "take_bit 5 w = w \<longleftrightarrow> unat w < 2 ^ 5"
    by (simp add: word_unat_eq_iff unsigned_take_bit_eq take_bit_nat_eq_self_iff)
  ultimately show ?thesis
    by (simp add: word_less_nat_alt)
qed

definition gzip_header :: "bytes \<Rightarrow> bool" where
  "gzip_header data \<longleftrightarrow> 20 \<le> length data \<and> take 3 data = [0x1f, 0x8b, 8] \<and> data ! 3 < 32"

lemma likely_gzip_iff: "is_likely_gzip_compressed data \<longleftrightarrow> gzip_header data"
proof -
  have "take 3 data = [data ! 0, data ! 1, data ! 2]" if "20 \<le> length data"
    using that by (intro nth_equalityI) (auto simp: numeral_3_eq_3 numeral_2_eq_2 less_Suc_eq)
  then show ?thesis
    by (auto simp: is_likely_gzip_compressed_def gzip_header_def flags_low)
qed

text \<open>
  C25. \<open>decompress_safe\<close> never fails and its result is exactly: the LZ4 decoding of a payload in the
  bounds of the LZ4 guess when the decoder accepts it; otherwise the gzip decoding of a payload of
  at least 20 bytes that starts with 1f 8b 08 and has its three high flag bits clear, when that
  decoder accepts it; otherwise the payload unchanged.
\<close>

theorem decompress_safe_spec:
  "decompress_safe lz4 gz data =
    (let p = unat (data ! 0) + 2 ^ 8 * unat (data ! 1) + 2 ^ 16 * unat (data ! 2) + 2 ^ 24 * unat (data ! 3);
         c = length data - 4
     in if 16 \<le> length data \<and> 0 < p \<and> p \<le> 104857600 \<and> p \<le> 10 * c \<and> c \<le> 10 * p \<and> \<not> isl (lz4 data)
        then projr (lz4 data)
        else if 20 \<le> length data \<and> take 3 data = [0x1f, 0x8b, 8] \<and> data ! 3 < 32 \<and> \<not> isl (gz data)
        then projr (gz data)
        else data)"
proof -
  have empty: "\<not> is_likely_lz4_compressed []" "\<not> is_likely_gzip_compressed []"
    by (simp_all add: is_likely_lz4_compressed_def is_likely_gzip_compressed_def)
  have "decompress_safe lz4 gz data =
    (if is_likely_lz4_compressed data \<and> \<not> isl (lz4 data) then projr (lz4 data)
     else if gzip_header data \<and> \<not> isl (gz data) then projr (gz data) else data)"
    using empty
    by (cases "data = []"; cases "lz4 data"; cases "gz data")
       (auto simp: decompress_safe_def decompress_lz4_def decompress_gzip_def likely_gzip_iff)
  then show ?thesis
    unfolding lz4_bounds gzip_header_def by (simp only: Let_def conj_assoc)
qed

end
