(* ===== verification/Consumer.thy ===== *)
theory Consumer
  imports Filters Resources Compression
begin

text \<open>
  src/consumer.rs: from Kafka messages to events. The environment is explicit: what \<open>recv\<close> and
  \<open>commit_message\<close> of rdkafka return is a list of inputs, the decoders generated from src/schemas, the
  decompressors and \<open>hex::encode\<close> are a record of arguments. The messages have the fields of the
  schemas that the consumer reads.
\<close>

section \<open>Messages\<close>

record block_header =
  hdr_slot :: u64
  hdr_timestamp :: i64

record transaction_header =
  th_fee :: u64
  th_fee_payer :: bytes
  th_accounts :: nat

record transaction =
  tx_signature :: bytes
  tx_status :: "bool option"
  tx_header :: "transaction_header option"
  tx_instructions :: nat
  tx_logs :: "string list"

record block_message =
  bm_header :: "block_header option"
  bm_transactions :: "transaction list"

record currency =
  cur_mint_address :: bytes
  cur_decimals :: u32

record transfer =
  tr_amount :: u64
  tr_sender :: "bytes option"
  tr_receiver :: "bytes option"
  tr_currency :: "currency option"

record token_transaction =
  tt_signature :: bytes
  tt_transfers :: "transfer list"

record token_block_message =
  tm_header :: "block_header option"
  tm_transactions :: "token_transaction list"

record dex_market =
  mk_market_address :: bytes
  mk_base_currency :: "currency option"
  mk_quote_currency :: "currency option"

record dex_trade_side =
  sd_amount :: u64
  sd_account :: "bytes option"

record dex_trade_event =
  dt_program_address :: "bytes option"
  dt_market :: "dex_market option"
  dt_buy :: "dex_trade_side option"
  dt_sell :: "dex_trade_side option"
  dt_royalty :: u64
  dt_fee :: u64

record dex_transaction =
  dx_signature :: bytes
  dx_trades :: "dex_trade_event list"

record dex_block_message =
  dm_header :: "block_header option"
  dm_transactions :: "dex_transaction list"

record codecs =
  hex_encode :: "bytes \<Rightarrow> string"
  lz4_decode :: "bytes \<Rightarrow> string + bytes"
  gzip_decode :: "bytes \<Rightarrow> string + bytes"
  decode_block :: "bytes \<Rightarrow> string + block_message"
  decode_token :: "bytes \<Rightarrow> string + token_block_message"
  decode_dex :: "bytes \<Rightarrow> string + dex_block_message"

section \<open>Parsing\<close>

definition hex_or_unknown :: "codecs \<Rightarrow> bytes option \<Rightarrow> string" where
  "hex_or_unknown K x = (case x of Some b \<Rightarrow> hex_encode K b | None \<Rightarrow> ''unknown'')"

definition transaction_event :: "'j json_ops \<Rightarrow> codecs \<Rightarrow> block_header \<Rightarrow> transaction \<Rightarrow> 'j solana_event" where
  "transaction_event J K header tx =
     (let (signer, fee, accounts_count) =
            (case tx_header tx of
               Some h \<Rightarrow> (hex_encode K (th_fee_payer h), u64_string (th_fee h), th_accounts h)
             | None \<Rightarrow> (''unknown'', ''0'', 0))
      in \<lparr>event_type = Transaction, slot = hdr_slot header, signature = hex_encode K (tx_signature tx),
          timestamp = i64_string (hdr_timestamp header),
          data = j_object J
            [(''signer'', j_string J signer), (''fee'', j_string J fee),
             (''instructions_count'', j_u64 J (of_nat (tx_instructions tx))),
             (''accounts_count'', j_u64 J (of_nat accounts_count)),
             (''logs'', j_array J (map (j_string J) (tx_logs tx)))]\<rparr>)"

fun first_successful :: "transaction list \<Rightarrow> transaction option" where
  "first_successful [] = None"
| "first_successful (tx # txs) =
     (case tx_status tx of
        Some success \<Rightarrow> if success then Some tx else first_successful txs
      | None \<Rightarrow> first_successful txs)"

definition parse_block_message_content ::
  "'j json_ops \<Rightarrow> codecs \<Rightarrow> block_message \<Rightarrow> sdk_error + 'j solana_event" where
  "parse_block_message_content J K msg =
     (case (bm_header msg, first_successful (bm_transactions msg)) of
        (Some header, Some tx) \<Rightarrow> Inr (transaction_event J K header tx)
      | _ \<Rightarrow> Inl (Processing ''No successful transaction found in BlockMessage to form a SolanaEvent.''))"

definition transfer_event ::
  "'j json_ops \<Rightarrow> codecs \<Rightarrow> block_header \<Rightarrow> token_transaction \<Rightarrow> transfer \<Rightarrow> 'j solana_event" where
  "transfer_event J K header tx transfer =
     (let from_account = hex_or_unknown K (tr_sender transfer);
          to_account = hex_or_unknown K (tr_receiver transfer);
          (mint_hex, decimals) =
            (case tr_currency transfer of
               Some c \<Rightarrow> (hex_encode K (cur_mint_address c), cur_decimals c)
             | None \<Rightarrow> (''unknown'', 0))
      in \<lparr>event_type = TokenTransfer, slot = hdr_slot header, signature = hex_encode K (tt_signature tx),
          timestamp = i64_string (hdr_timestamp header),
          data = j_object J
            [(''from_account'', j_string J from_account), (''to_account'', j_string J to_account),
             (''mint'', j_string J mint_hex), (''amount'', j_string J (u64_string (tr_amount transfer))),
             (''decimals'', j_u64 J (ucast decimals))]\<rparr>)"

fun first_transfer :: "token_transaction list \<Rightarrow> (token_transaction \<times> transfer) option" where
  "first_transfer [] = None"
| "first_transfer (tx # txs) =
     (case tt_transfers tx of t # _ \<Rightarrow> Some (tx, t) | [] \<Rightarrow> first_transfer txs)"

definition parse_token_message_content ::
  "'j json_ops \<Rightarrow> codecs \<Rightarrow> token_block_message \<Rightarrow> sdk_error + 'j solana_event" where
  "parse_token_message_content J K msg =
     (case (tm_header msg, first_transfer (tm_transactions msg)) of
        (Some header, Some (tx, t)) \<Rightarrow> Inr (transfer_event J K header tx t)
      | _ \<Rightarrow> Inl (Processing ''No transfers found in TokenBlockMessage to form a SolanaEvent.''))"

definition trade_event ::
  "'j json_ops \<Rightarrow> codecs \<Rightarrow> block_header \<Rightarrow> dex_transaction \<Rightarrow> dex_trade_event \<Rightarrow> 'j solana_event" where
  "trade_event J K header tx trade =
     (let program = hex_or_unknown K (dt_program_address trade);
          market_address = hex_or_unknown K (map_option mk_market_address (dt_market trade));
          (base_mint, quote_mint) =
            (case dt_market trade of
               Some market \<Rightarrow>
                 (hex_or_unknown K (map_option cur_mint_address (mk_base_currency market)),
                  hex_or_unknown K (map_option cur_mint_address (mk_quote_currency market)))
             | None \<Rightarrow> (''unknown'', ''unknown''));
          (amount_base, amount_quote, maker, taker) =
            (case (dt_buy trade, dt_sell trade) of
               (Some buy_side, Some sell_side) \<Rightarrow>
                 (u64_string (sd_amount buy_side), u64_string (sd_amount sell_side),
                  hex_or_unknown K (sd_account buy_side), hex_or_unknown K (sd_account sell_side))
             | _ \<Rightarrow> (''0'', ''0'', ''unknown'', ''unknown''))
      in \<lparr>event_type = DexTrade, slot = hdr_slot header, signature = hex_encode K (dx_signature tx),
          timestamp = i64_string (hdr_timestamp header),
          data = j_object J
            [(''program_id'', j_string J program), (''market_address'', j_string J market_address),
             (''amount_base'', j_string J amount_base), (''amount_quote'', j_string J amount_quote),
             (''base_mint'', j_string J base_mint), (''quote_mint'', j_string J quote_mint),
             (''maker'', j_string J maker), (''taker'', j_string J taker),
             (''fee'', j_string J (u64_string (dt_fee trade))),
             (''royalty'', j_string J (u64_string (dt_royalty trade)))]\<rparr>)"

fun first_trade :: "dex_transaction list \<Rightarrow> (dex_transaction \<times> dex_trade_event) option" where
  "first_trade [] = None"
| "first_trade (tx # txs) =
     (case dx_trades tx of t # _ \<Rightarrow> Some (tx, t) | [] \<Rightarrow> first_trade txs)"

definition parse_dex_message_content ::
  "'j json_ops \<Rightarrow> codecs \<Rightarrow> dex_block_message \<Rightarrow> sdk_error + 'j solana_event" where
  "parse_dex_message_content J K msg =
     (case (dm_header msg, first_trade (dm_transactions msg)) of
        (Some header, Some (tx, t)) \<Rightarrow> Inr (trade_event J K header tx t)
      | _ \<Rightarrow> Inl (Processing ''No DEX trades found in DexParsedBlockMessage to form a SolanaEvent.''))"

text \<open>What a message yields by its topic; \<open>None\<close> is a topic that is not handled.\<close>

definition decode_event ::
  "'j json_ops \<Rightarrow> codecs \<Rightarrow> string \<Rightarrow> bytes \<Rightarrow> (sdk_error + 'j solana_event) option" where
  "decode_event J K topic payload =
     (if topic = ''solana.transactions.proto'' then
        Some (and_then (map_err ProtobufDecode (decode_block K payload)) (parse_block_message_content J K))
      else if topic = ''solana.tokens.proto'' then
        Some (and_then (map_err ProtobufDecode (decode_token K payload)) (parse_token_message_content J K))
      else if topic = ''solana.dextrades.proto'' then
        Some (and_then (map_err ProtobufDecode (decode_dex K payload)) (parse_dex_message_content J K))
      else None)"

section \<open>The consumer\<close>

record kafka_message =
  km_topic :: string
  km_offset :: i64
  km_payload :: "bytes option"

text \<open>
  The history fields \<open>commits\<close> (offsets handed to \<open>commit_message\<close>), \<open>processed_log\<close> (calls of
  \<open>record_event_processed\<close>) and \<open>slept\<close> record effects.
\<close>

record 'j stream_consumer =
  sc_config :: config
  seen_signatures_cache :: "string set"
  active_event_filter :: "'j event_filter option"
  sc_resources :: resource_manager
  commits :: "i64 list"
  processed_log :: "(string \<times> bool) list"
  slept :: "duration list"

definition stream_consumer_new :: "config \<Rightarrow> resource_manager \<Rightarrow> 'j stream_consumer" where
  "stream_consumer_new cfg rm =
     \<lparr>sc_config = cfg, seen_signatures_cache = {}, active_event_filter = None, sc_resources = rm,
      commits = [], processed_log = [], slept = []\<rparr>"

definition set_filter :: "'j event_filter \<Rightarrow> 'j stream_consumer \<Rightarrow> 'j stream_consumer" where
  "set_filter f c = c\<lparr>active_event_filter := Some f\<rparr>"

text \<open>\<open>answer\<close> is what rdkafka says to the subscription.\<close>

definition consumer_subscribe :: "(string list \<Rightarrow> string + unit) \<Rightarrow> string list \<Rightarrow> sdk_error + unit" where
  "consumer_subscribe answer ts = map_err Kafka (answer ts)"

definition dedup_limit :: "'j stream_consumer \<Rightarrow> nat" where
  "dedup_limit c = max (unat (buffer_size (cfg_processing (sc_config c)))) 100000"

definition record_event_processed :: "string \<Rightarrow> bool \<Rightarrow> 'j stream_consumer \<Rightarrow> 'j stream_consumer" where
  "record_event_processed kind success c = c\<lparr>processed_log := processed_log c @ [(kind, success)]\<rparr>"

definition internal_process_kafka_message ::
  "'j json_ops \<Rightarrow> codecs \<Rightarrow> kafka_message \<Rightarrow> 'j stream_consumer
   \<Rightarrow> 'j stream_consumer \<times> (sdk_error + 'j solana_event option)" where
  "internal_process_kafka_message J K m c =
     (case km_payload m of
        None \<Rightarrow> (c, Inl (Processing ''Kafka message has empty payload.''))
      | Some payload \<Rightarrow>
          (let decompressed_payload = decompress_safe (lz4_decode K) (gzip_decode K) payload
           in case decode_event J K (km_topic m) decompressed_payload of
                None \<Rightarrow> (c, Inr None)
              | Some (Inl e) \<Rightarrow> (record_event_processed (km_topic m) False c, Inl e)
              | Some (Inr event) \<Rightarrow>
                  if signature event \<in> seen_signatures_cache c then (c, Inr None)
                  else
                    (let seen = insert (signature event) (seen_signatures_cache c);
                         seen' = (if dedup_limit c < card seen then {signature event} else seen)
                     in (record_event_processed (event_type_as_str (event_type event)) True
                           (c\<lparr>seen_signatures_cache := seen'\<rparr>), Inr (Some event)))))"

text \<open>The result of \<open>commit_message\<close> is an input: \<open>None\<close>, or the text of its error.\<close>

definition commit_kafka_offset ::
  "string option \<Rightarrow> kafka_message \<Rightarrow> 'j stream_consumer \<Rightarrow> 'j stream_consumer \<times> (sdk_error + unit)" where
  "commit_kafka_offset commit_error m c =
     (c\<lparr>commits := commits c @ [km_offset m]\<rparr>,
      (case commit_error of Some e \<Rightarrow> Inl (Kafka e) | None \<Rightarrow> Inr ()))"

text \<open>
  One answer of \<open>recv\<close>: a message, with the answer of its commit and the change that the other tasks
  make to the shared resource manager meanwhile, or an error.
\<close>

datatype kafka_input =
    Received kafka_message "string option" "resource_manager \<Rightarrow> resource_manager"
  | RecvError string

fun passes_filter :: "'j json_ops \<Rightarrow> 'j event_filter option \<Rightarrow> 'j solana_event \<Rightarrow> bool" where
  "passes_filter J None e = True"
| "passes_filter J (Some f) e = matches J f e"

text \<open>
  The two checks before each receive: \<open>Inl\<close> is the early return of \<open>Ok(None)\<close> after a sleep.
\<close>

definition pre_receive :: "'j stream_consumer \<Rightarrow> 'j stream_consumer + 'j stream_consumer" where
  "pre_receive c =
     (if is_backpressure_active (sc_resources c) then
        Inl (c\<lparr>slept := slept c @ [max (initial_delay (cfg_retry (sc_config c))) (from_millis 100)]\<rparr>)
      else
        (let (rm, r) = check_resources (sc_resources c); c1 = c\<lparr>sc_resources := rm\<rparr>
         in case r of
              Inl _ \<Rightarrow> Inl (c1\<lparr>slept := slept c1 @ [from_millis 100]\<rparr>)
            | Inr _ \<Rightarrow> Inr c1))"

text \<open>
  What the loop does with a received message: go on with the next one, or return. The filter is
  consulted before the commit, and a failing commit returns its error.
\<close>

datatype 'e message_outcome = Continue | Return "sdk_error + 'e option"

definition commit_then ::
  "string option \<Rightarrow> kafka_message \<Rightarrow> 'j solana_event message_outcome \<Rightarrow> 'j stream_consumer
   \<Rightarrow> 'j stream_consumer \<times> 'j solana_event message_outcome" where
  "commit_then commit_error m outcome c =
     (case commit_kafka_offset commit_error m c of
        (c', Inl e) \<Rightarrow> (c', Return (Inl e))
      | (c', Inr _) \<Rightarrow> (c', outcome))"

definition handle_message ::
  "'j json_ops \<Rightarrow> codecs \<Rightarrow> kafka_message \<Rightarrow> string option \<Rightarrow> 'j stream_consumer
   \<Rightarrow> 'j stream_consumer \<times> 'j solana_event message_outcome" where
  "handle_message J K m commit_error c =
     (case internal_process_kafka_message J K m c of
        (c', Inr (Some event)) \<Rightarrow>
          if \<not> passes_filter J (active_event_filter c') event then commit_then commit_error m Continue c'
          else commit_then commit_error m (Return (Inr (Some event))) c'
      | (c', Inr None) \<Rightarrow> commit_then commit_error m Continue c'
      | (c', Inl err) \<Rightarrow>
          commit_then commit_error m Continue (record_event_processed (km_topic m) False c'))"

text \<open>
  \<open>next_event\<close> on the answers that Kafka will give: the consumer, the answers left and the result, or
  \<open>None\<close> when it still waits in \<open>recv\<close> after the last one.
\<close>

fun next_event ::
  "'j json_ops \<Rightarrow> codecs \<Rightarrow> kafka_input list \<Rightarrow> 'j stream_consumer
   \<Rightarrow> ('j stream_consumer \<times> kafka_input list \<times> (sdk_error + 'j solana_event option)) option" where
  "next_event J K [] c =
     (case pre_receive c of Inl c1 \<Rightarrow> Some (c1, [], Inr None) | Inr _ \<Rightarrow> None)"
| "next_event J K (i # is) c =
     (case pre_receive c of
        Inl c1 \<Rightarrow> Some (c1, i # is, Inr None)
      | Inr c1 \<Rightarrow>
          (case i of
             RecvError e \<Rightarrow> Some (c1, is, Inl (Kafka e))
           | Received m commit_error meanwhile \<Rightarrow>
               (case handle_message J K m commit_error (c1\<lparr>sc_resources := meanwhile (sc_resources c1)\<rparr>) of
                  (c2, Continue) \<Rightarrow> next_event J K is c2
                | (c2, Return r) \<Rightarrow> Some (c2, is, r))))"

section \<open>What a call delivers and commits\<close>

fun offsets_of :: "kafka_input list \<Rightarrow> i64 list" where
  "offsets_of [] = []"
| "offsets_of (Received m _ _ # is) = km_offset m # offsets_of is"
| "offsets_of (RecvError _ # is) = offsets_of is"

lemma pre_receive_frame:
  "pre_receive c = Inl c1 \<Longrightarrow> seen_signatures_cache c1 = seen_signatures_cache c \<and> sc_config c1 = sc_config c
     \<and> active_event_filter c1 = active_event_filter c \<and> commits c1 = commits c"
  "pre_receive c = Inr c1 \<Longrightarrow> seen_signatures_cache c1 = seen_signatures_cache c \<and> sc_config c1 = sc_config c
     \<and> active_event_filter c1 = active_event_filter c \<and> commits c1 = commits c"
  by (auto simp: pre_receive_def Let_def split: if_splits prod.splits sum.splits)

lemma commit_frame:
  "commit_kafka_offset err m c = (c', r) \<Longrightarrow> seen_signatures_cache c' = seen_signatures_cache c
     \<and> sc_config c' = sc_config c \<and> active_event_filter c' = active_event_filter c
     \<and> commits c' = commits c @ [km_offset m]"
  by (auto simp: commit_kafka_offset_def)

lemma record_frame:
  "seen_signatures_cache (record_event_processed k b c) = seen_signatures_cache c"
  "sc_config (record_event_processed k b c) = sc_config c"
  "active_event_filter (record_event_processed k b c) = active_event_filter c"
  "commits (record_event_processed k b c) = commits c"
  by (simp_all add: record_event_processed_def)

lemma dedup_limit_cong: "sc_config c' = sc_config c \<Longrightarrow> dedup_limit c' = dedup_limit c"
  by (simp add: dedup_limit_def)

text \<open>A message changes the cache only by a new signature, while the cache has room.\<close>

lemma internal_frame:
  assumes "internal_process_kafka_message J K m c = (c', r)"
  shows "sc_config c' = sc_config c" "active_event_filter c' = active_event_filter c" "commits c' = commits c"
  using assms
  by (auto simp: internal_process_kafka_message_def record_frame Let_def split: option.splits sum.splits if_splits)

lemma internal_cache:
  assumes "internal_process_kafka_message J K m c = (c', r)"
    and "finite (seen_signatures_cache c)" "card (seen_signatures_cache c) < dedup_limit c"
  shows "case r of
      Inr (Some e) \<Rightarrow> signature e \<notin> seen_signatures_cache c
        \<and> seen_signatures_cache c' = insert (signature e) (seen_signatures_cache c)
    | _ \<Rightarrow> seen_signatures_cache c' = seen_signatures_cache c"
proof -
  have "\<not> dedup_limit c < card (insert s (seen_signatures_cache c))" for s
    using assms(2,3) card_insert_le_m1 [of "dedup_limit c" "seen_signatures_cache c" s] by (simp add: card_insert_if)
  with assms(1) show ?thesis
    by (auto simp: internal_process_kafka_message_def record_frame Let_def split: option.splits sum.splits if_splits)
qed

text \<open>One received message: the consumer after it, and either the end of the call or the loop.\<close>

lemma handle_message_cases:
  assumes "handle_message J K m err c = (c', outcome)"
  obtains c1 r1 where
    "internal_process_kafka_message J K m c = (c1, r1)"
    "sc_config c' = sc_config c" "active_event_filter c' = active_event_filter c"
    "seen_signatures_cache c' = seen_signatures_cache c1" "commits c' = commits c @ [km_offset m]"
    "outcome = Continue \<or> (\<exists>e. outcome = Return (Inl (Kafka e)) \<and> err = Some e)
     \<or> (\<exists>e. r1 = Inr (Some e) \<and> outcome = Return (Inr (Some e)) \<and> passes_filter J (active_event_filter c) e)"
proof -
  obtain c1 r1 where ip: "internal_process_kafka_message J K m c = (c1, r1)" by fastforce
  note fr = internal_frame [OF ip]
  show ?thesis
    by (rule that [OF ip]; insert assms ip fr)
       (auto simp: handle_message_def commit_then_def commit_kafka_offset_def record_frame
             split: sum.splits option.splits if_splits)
qed

lemma next_event_received:
  assumes "next_event J K (Received m err g # is) c = Some (c', rest, r)" "pre_receive c = Inr c1"
  obtains c3 r3 c4 where
    "internal_process_kafka_message J K m (c1\<lparr>sc_resources := g (sc_resources c1)\<rparr>) = (c3, r3)"
    "sc_config c4 = sc_config c" "active_event_filter c4 = active_event_filter c"
    "seen_signatures_cache c4 = seen_signatures_cache c3" "commits c4 = commits c @ [km_offset m]"
    "next_event J K is c4 = Some (c', rest, r)
     \<or> c' = c4 \<and> rest = is
       \<and> (isl r \<or> (\<exists>e. r3 = Inr (Some e) \<and> r = Inr (Some e) \<and> passes_filter J (active_event_filter c) e))"
proof -
  note pre = pre_receive_frame(2) [OF assms(2)]
  obtain c4 oc where hm: "handle_message J K m err (c1\<lparr>sc_resources := g (sc_resources c1)\<rparr>) = (c4, oc)"
    by fastforce
  then show ?thesis
  proof (rule handle_message_cases)
    fix c3 r3
    assume ip: "internal_process_kafka_message J K m (c1\<lparr>sc_resources := g (sc_resources c1)\<rparr>) = (c3, r3)"
      and fr: "sc_config c4 = sc_config (c1\<lparr>sc_resources := g (sc_resources c1)\<rparr>)"
        "active_event_filter c4 = active_event_filter (c1\<lparr>sc_resources := g (sc_resources c1)\<rparr>)"
        "seen_signatures_cache c4 = seen_signatures_cache c3"
        "commits c4 = commits (c1\<lparr>sc_resources := g (sc_resources c1)\<rparr>) @ [km_offset m]"
      and oc: "oc = Continue \<or> (\<exists>e. oc = Return (Inl (Kafka e)) \<and> err = Some e)
        \<or> (\<exists>e. r3 = Inr (Some e) \<and> oc = Return (Inr (Some e))
             \<and> passes_filter J (active_event_filter (c1\<lparr>sc_resources := g (sc_resources c1)\<rparr>)) e)"
    show ?thesis
      by (rule that [OF ip]; insert fr oc assms hm pre) (auto split: message_outcome.splits)
  qed
qed

lemma next_event_commits:
  "next_event J K is c = Some (c', rest, r) \<Longrightarrow>
   sc_config c' = sc_config c \<and> active_event_filter c' = active_event_filter c
   \<and> (\<exists>used. is = used @ rest \<and> commits c' = commits c @ offsets_of used)"
proof (induction "is" arbitrary: c)
  case Nil
  then show ?case by (auto split: sum.splits dest!: pre_receive_frame)
next
  case (Cons i "is")
  show ?case
  proof (cases "pre_receive c")
    case (Inl c1)
    then show ?thesis using Cons.prems pre_receive_frame(1) [OF Inl] by (intro conjI exI [of _ "[]"]) auto
  next
    case (Inr c1)
    show ?thesis
    proof (cases i)
      case (RecvError e)
      then show ?thesis
        using Cons.prems Inr pre_receive_frame(2) [OF Inr] by (intro conjI exI [of _ "[i]"]) auto
    next
      case (Received m err g)
      from next_event_received [OF Cons.prems [unfolded Received] Inr] obtain c4 where c4:
        "sc_config c4 = sc_config c" "active_event_filter c4 = active_event_filter c"
        "commits c4 = commits c @ [km_offset m]"
        "next_event J K is c4 = Some (c', rest, r) \<or> c' = c4 \<and> rest = is" by metis
      show ?thesis
      proof (cases "c' = c4 \<and> rest = is")
        case True
        then show ?thesis using c4 Received by (intro conjI exI [of _ "[i]"]) simp_all
      next
        case False
        with c4(4) have "next_event J K is c4 = Some (c', rest, r)" by blast
        from Cons.IH [OF this] obtain used where u: "sc_config c' = sc_config c4"
          "active_event_filter c' = active_event_filter c4" "is = used @ rest"
          "commits c' = commits c4 @ offsets_of used" by blast
        then show ?thesis using c4 Received by (intro conjI exI [of _ "i # used"]) simp_all
      qed
    qed
  qed
qed

lemma next_event_fresh:
  assumes "next_event J K is c = Some (c', rest, r)"
    and "finite (seen_signatures_cache c)" "card (seen_signatures_cache c) + length is \<le> dedup_limit c"
  shows "finite (seen_signatures_cache c')
    \<and> card (seen_signatures_cache c') + length rest \<le> dedup_limit c
    \<and> seen_signatures_cache c \<subseteq> seen_signatures_cache c'
    \<and> (case r of
         Inr (Some e) \<Rightarrow> signature e \<in> seen_signatures_cache c' - seen_signatures_cache c
           \<and> passes_filter J (active_event_filter c) e
       | _ \<Rightarrow> True)"
  using assms
proof (induction "is" arbitrary: c)
  case Nil
  then show ?case by (auto split: sum.splits dest!: pre_receive_frame)
next
  case (Cons i "is")
  show ?case
  proof (cases "pre_receive c")
    case (Inl c1)
    then show ?thesis using Cons.prems pre_receive_frame(1) [OF Inl] by auto
  next
    case (Inr c1)
    note pre = pre_receive_frame(2) [OF Inr]
    show ?thesis
    proof (cases i)
      case (RecvError e)
      then show ?thesis using Cons.prems Inr pre by auto
    next
      case (Received m err g)
      let ?c2 = "c1\<lparr>sc_resources := g (sc_resources c1)\<rparr>"
      from next_event_received [OF Cons.prems(1) [unfolded Received] Inr] obtain c3 r3 c4 where
        ip: "internal_process_kafka_message J K m ?c2 = (c3, r3)"
        and c4: "sc_config c4 = sc_config c" "active_event_filter c4 = active_event_filter c"
        "seen_signatures_cache c4 = seen_signatures_cache c3"
        and cont: "next_event J K is c4 = Some (c', rest, r)
          \<or> c' = c4 \<and> rest = is
            \<and> (isl r \<or> (\<exists>e. r3 = Inr (Some e) \<and> r = Inr (Some e) \<and> passes_filter J (active_event_filter c) e))"
        by metis
      have room: "finite (seen_signatures_cache ?c2)" "card (seen_signatures_cache ?c2) < dedup_limit ?c2"
        using Cons.prems(2,3) pre dedup_limit_cong [of ?c2 c] by simp_all
      have cache: "case r3 of
          Inr (Some e) \<Rightarrow> signature e \<notin> seen_signatures_cache c
            \<and> seen_signatures_cache c4 = insert (signature e) (seen_signatures_cache c)
        | _ \<Rightarrow> seen_signatures_cache c4 = seen_signatures_cache c"
        using internal_cache [OF ip room] pre c4(3) by (auto split: sum.splits option.splits)
      then have grow: "finite (seen_signatures_cache c4)" "seen_signatures_cache c \<subseteq> seen_signatures_cache c4"
        "card (seen_signatures_cache c4) + length is \<le> dedup_limit c"
        using Cons.prems(2,3) by (auto split: sum.splits option.splits simp: card_insert_if)
      from cont show ?thesis
      proof
        assume ne: "next_event J K is c4 = Some (c', rest, r)"
        have "dedup_limit c4 = dedup_limit c" using c4(1) by (rule dedup_limit_cong)
        with Cons.IH [OF ne grow(1)] grow c4(2) show ?thesis
          by (auto split: sum.splits option.splits)
      next
        assume "c' = c4 \<and> rest = is
            \<and> (isl r \<or> (\<exists>e. r3 = Inr (Some e) \<and> r = Inr (Some e) \<and> passes_filter J (active_event_filter c) e))"
        with grow cache show ?thesis by (cases r) auto
      qed
    qed
  qed
qed

section \<open>Properties\<close>

text \<open>Repeated calls of \<open>next_event\<close>; before each the other tasks change the resource manager.\<close>

fun consume ::
  "'j json_ops \<Rightarrow> codecs \<Rightarrow> (resource_manager \<Rightarrow> resource_manager) list \<Rightarrow> kafka_input list
   \<Rightarrow> 'j stream_consumer \<Rightarrow> 'j solana_event list \<times> 'j stream_consumer \<times> kafka_input list" where
  "consume J K [] is c = ([], c, is)"
| "consume J K (g # gs) is c =
     (case next_event J K is (c\<lparr>sc_resources := g (sc_resources c)\<rparr>) of
        None \<Rightarrow> ([], c, is)
      | Some (c', rest, r) \<Rightarrow>
          (let (es, c'', rest') = consume J K gs rest c'
           in (case r of Inr (Some e) \<Rightarrow> e # es | _ \<Rightarrow> es, c'', rest')))"

lemma consume_once:
  assumes "consume J K gs is c = (es, c', rest)"
    and "finite (seen_signatures_cache c)" "card (seen_signatures_cache c) + length is \<le> dedup_limit c"
  shows "distinct (map signature es) \<and> signature ` set es \<inter> seen_signatures_cache c = {}
    \<and> (\<forall>e \<in> set es. passes_filter J (active_event_filter c) e)
    \<and> (\<exists>used. is = used @ rest \<and> commits c' = commits c @ offsets_of used)"
  using assms
proof (induction gs arbitrary: "is" c es)
  case Nil
  then show ?case by auto
next
  case (Cons g gs)
  let ?c = "c\<lparr>sc_resources := g (sc_resources c)\<rparr>"
  show ?case
  proof (cases "next_event J K is ?c")
    case None
    then show ?thesis using Cons.prems by auto
  next
    case (Some p)
    then obtain c1 rest1 r where ne: "next_event J K is ?c = Some (c1, rest1, r)" by (cases p) auto
    obtain es1 where rec: "consume J K gs rest1 c1 = (es1, c', rest)"
      and es: "es = (case r of Inr (Some e) \<Rightarrow> e # es1 | _ \<Rightarrow> es1)"
      using Cons.prems(1) ne by (auto split: prod.splits)
    have lim: "dedup_limit ?c = dedup_limit c" by (rule dedup_limit_cong) simp
    note fresh = next_event_fresh [OF ne, unfolded lim, simplified, OF Cons.prems(2,3)]
    note com = next_event_commits [OF ne, simplified]
    have "dedup_limit c1 = dedup_limit c" using com by (intro dedup_limit_cong) simp
    with Cons.IH [OF rec] fresh com have ih: "distinct (map signature es1)"
      "signature ` set es1 \<inter> seen_signatures_cache c1 = {}"
      "\<forall>e \<in> set es1. passes_filter J (active_event_filter c) e"
      "\<exists>used. rest1 = used @ rest \<and> commits c' = commits c1 @ offsets_of used" by auto
    have app: "offsets_of (xs @ ys) = offsets_of xs @ offsets_of ys" for xs ys
      by (induction xs rule: offsets_of.induct) auto
    obtain u1 u2 where u: "is = u1 @ rest1" "commits c1 = commits c @ offsets_of u1"
      "rest1 = u2 @ rest" "commits c' = commits c1 @ offsets_of u2"
      using com ih(4) by blast
    then have "is = (u1 @ u2) @ rest" "commits c' = commits c @ offsets_of (u1 @ u2)"
      by (simp_all add: app)
    then show ?thesis using es ih(1-3) fresh by (auto split: sum.splits option.splits)
  qed
qed

lemma consumer_delivers_once_facts:
  assumes "consume J K gs is c = (es, c', rest)" "finite (seen_signatures_cache c)"
    and "card (seen_signatures_cache c) + length is
      \<le> max (unat (buffer_size (cfg_processing (sc_config c)))) 100000"
  shows "distinct (map signature es)" "signature ` set es \<inter> seen_signatures_cache c = {}"
    and "set es \<subseteq> {e. passes_filter J (active_event_filter c) e}"
    and "\<exists>used. is = used @ rest \<and> commits c' = commits c @ offsets_of used"
  using consume_once [OF assms(1,2)] assms(3) by (auto simp: dedup_limit_def)

text \<open>What does not depend on the room in the cache: what is returned passes the filter.\<close>

lemma next_event_passes:
  "next_event J K is c = Some (c', rest, Inr (Some e)) \<Longrightarrow> passes_filter J (active_event_filter c) e"
proof (induction "is" arbitrary: c)
  case Nil
  then show ?case by (auto split: sum.splits)
next
  case (Cons i "is")
  show ?case
  proof (cases "pre_receive c")
    case (Inl c1)
    then show ?thesis using Cons.prems by simp
  next
    case (Inr c1)
    show ?thesis
    proof (cases i)
      case (RecvError t)
      then show ?thesis using Cons.prems Inr by simp
    next
      case (Received m err g)
      from next_event_received [OF Cons.prems [unfolded Received] Inr] obtain r3 c4 where
        "active_event_filter c4 = active_event_filter c"
        "next_event J K is c4 = Some (c', rest, Inr (Some e))
         \<or> r3 = Inr (Some e) \<and> passes_filter J (active_event_filter c) e"
        by (metis isl_def sum.distinct(1) sum.sel(2) option.sel)
      then show ?thesis using Cons.IH by metis
    qed
  qed
qed

lemma consume_passes:
  "consume J K gs is c = (es, c', rest) \<Longrightarrow>
     (\<forall>e \<in> set es. passes_filter J (active_event_filter c) e)
     \<and> (\<exists>used. is = used @ rest \<and> commits c' = commits c @ offsets_of used)"
proof (induction gs arbitrary: "is" c es)
  case Nil
  then show ?case by auto
next
  case (Cons g gs)
  let ?c = "c\<lparr>sc_resources := g (sc_resources c)\<rparr>"
  show ?case
  proof (cases "next_event J K is ?c")
    case None
    then show ?thesis using Cons.prems by auto
  next
    case (Some p)
    then obtain c1 rest1 r where ne: "next_event J K is ?c = Some (c1, rest1, r)" by (cases p) auto
    obtain es1 where rec: "consume J K gs rest1 c1 = (es1, c', rest)"
      and es: "es = (case r of Inr (Some e) \<Rightarrow> e # es1 | _ \<Rightarrow> es1)"
      using Cons.prems ne by (auto split: prod.splits)
    note com = next_event_commits [OF ne, simplified]
    have first: "r = Inr (Some e) \<Longrightarrow> passes_filter J (active_event_filter c) e" for e
      using next_event_passes [of J K "is" ?c c1 rest1 e] ne by simp
    have app: "offsets_of (xs @ ys) = offsets_of xs @ offsets_of ys" for xs ys
      by (induction xs rule: offsets_of.induct) auto
    obtain u1 u2 where u: "is = u1 @ rest1" "commits c1 = commits c @ offsets_of u1"
      "rest1 = u2 @ rest" "commits c' = commits c1 @ offsets_of u2"
      using com Cons.IH [OF rec] by blast
    then have "is = (u1 @ u2) @ rest" "commits c' = commits c @ offsets_of (u1 @ u2)" by (simp_all add: app)
    then show ?thesis using es first com Cons.IH [OF rec] by (auto split: sum.splits option.splits)
  qed
qed

text \<open>
  C4. What any number of calls of \<open>next_event\<close> deliver and commit: every event passes the filter, and the
  messages taken from Kafka (with an event or without, decodable or not) are a prefix of those there,
  each handed to \<open>commit\<close> once, in order. As long as the signatures remembered and the messages to come
  are at most \<open>max(buffer_size, 100000)\<close>, the events have pairwise distinct signatures, none that the
  cache held before; beyond that the cache is cleared, and a signature can be delivered again.
\<close>

theorem consumer_delivers_once:
  assumes "consume J K gs is c = (es, c', rest)" "finite (seen_signatures_cache c)"
  shows "(card (seen_signatures_cache c) + length is \<le> max (unat (buffer_size (cfg_processing (sc_config c)))) 100000
      \<longrightarrow> distinct (map signature es) \<and> signature ` set es \<inter> seen_signatures_cache c = {})
    \<and> set es \<subseteq> {e. passes_filter J (active_event_filter c) e}
    \<and> (\<exists>used. is = used @ rest \<and> commits c' = commits c @ offsets_of used)"
  using consumer_delivers_once_facts(1,2) [OF assms] consume_passes [OF assms(1)] by blast

lemma commit_failure_step:
  assumes "internal_process_kafka_message J K m c = (c1, Inr (Some e))"
  shows "handle_message J K m (Some err) c = (c1\<lparr>commits := commits c1 @ [km_offset m]\<rparr>, Return (Inl (Kafka err)))"
    and "passes_filter J (active_event_filter c) e \<Longrightarrow>
      handle_message J K m None c = (c1\<lparr>commits := commits c1 @ [km_offset m]\<rparr>, Return (Inr (Some e)))"
    and "signature e \<in> seen_signatures_cache c1"
    and "seen_signatures_cache c2 = seen_signatures_cache c1 \<Longrightarrow> internal_process_kafka_message J K m c2 = (c2, Inr None)"
proof -
  show "handle_message J K m (Some err) c = (c1\<lparr>commits := commits c1 @ [km_offset m]\<rparr>, Return (Inl (Kafka err)))"
    using assms by (simp add: handle_message_def commit_then_def commit_kafka_offset_def)
  show "handle_message J K m None c = (c1\<lparr>commits := commits c1 @ [km_offset m]\<rparr>, Return (Inr (Some e)))"
    if "passes_filter J (active_event_filter c) e"
    using assms that internal_frame(2) [OF assms] by (simp add: handle_message_def commit_then_def commit_kafka_offset_def)
  obtain payload where p: "km_payload m = Some payload"
    "decode_event J K (km_topic m) (decompress_safe (lz4_decode K) (gzip_decode K) payload) = Some (Inr e)"
    using assms
    by (auto simp: internal_process_kafka_message_def Let_def split: option.splits sum.splits if_splits)
  show sig: "signature e \<in> seen_signatures_cache c1"
    using assms p by (auto simp: internal_process_kafka_message_def record_frame Let_def split: if_splits)
  show "internal_process_kafka_message J K m c2 = (c2, Inr None)"
    if "seen_signatures_cache c2 = seen_signatures_cache c1"
    using sig that p by (simp add: internal_process_kafka_message_def Let_def)
qed

lemma commit_failure_facts:
  assumes "pre_receive c = Inr c0" "internal_process_kafka_message J K m (c0\<lparr>sc_resources := g (sc_resources c0)\<rparr>) = (c1, Inr (Some e))"
    and "passes_filter J (active_event_filter c) e"
  obtains c2 where "next_event J K (Received m None g # is) c = Some (c2, is, Inr (Some e))"
    "next_event J K (Received m (Some err) g # is) c = Some (c2, is, Inl (Kafka err))"
    "signature e \<in> seen_signatures_cache c2"
    "\<And>c3 g' later. pre_receive c2 = Inr c3 \<Longrightarrow>
       next_event J K (Received m None g' # later) c2 = next_event J K later
         (c3\<lparr>sc_resources := g' (sc_resources c3), commits := commits c3 @ [km_offset m]\<rparr>)"
proof -
  let ?c2 = "c1\<lparr>commits := commits c1 @ [km_offset m]\<rparr>"
  note f = commit_failure_step [OF assms(2)]
  have "passes_filter J (active_event_filter (c0\<lparr>sc_resources := g (sc_resources c0)\<rparr>)) e"
    using pre_receive_frame(2) [OF assms(1)] assms(3) by simp
  note h = f(1) f(2) [OF this]
  have "next_event J K (Received m None g' # later) ?c2 = next_event J K later
       (c3\<lparr>sc_resources := g' (sc_resources c3), commits := commits c3 @ [km_offset m]\<rparr>)"
    if "pre_receive ?c2 = Inr c3" for c3 g' later
  proof -
    let ?c3 = "c3\<lparr>sc_resources := g' (sc_resources c3)\<rparr>"
    have "internal_process_kafka_message J K m ?c3 = (?c3, Inr None)"
      using pre_receive_frame(2) [OF that] by (intro f(4)) simp
    then have "handle_message J K m None ?c3 = (?c3\<lparr>commits := commits ?c3 @ [km_offset m]\<rparr>, Continue)"
      by (simp add: handle_message_def commit_then_def commit_kafka_offset_def)
    then show ?thesis using that by simp
  qed
  then show ?thesis using that [of ?c2] assms(1) h f(3) by simp
qed

text \<open>
  C39. An event is lost when its commit fails. Take a call of \<open>next_event\<close> that would return a fresh event
  as the next one, were the commit of its message to succeed. If the commit fails, the call returns its
  error and not the event; the signature has been recorded before the commit, so that when Kafka
  delivers the uncommitted message again, a call skips it as a duplicate and goes on with the messages
  after it, as if the message held no event. Its offset is committed then.
\<close>

theorem commit_failure_loses_event:
  assumes "pre_receive c = Inr c0" "internal_process_kafka_message J K m (c0\<lparr>sc_resources := g (sc_resources c0)\<rparr>) = (c1, Inr (Some e))"
    and "passes_filter J (active_event_filter c) e"
  shows "\<exists>c2. next_event J K (Received m None g # is) c = Some (c2, is, Inr (Some e))
    \<and> next_event J K (Received m (Some err) g # is) c = Some (c2, is, Inl (Kafka err))
    \<and> signature e \<in> seen_signatures_cache c2
    \<and> (\<forall>c3 g' later. pre_receive c2 = Inr c3 \<longrightarrow>
         next_event J K (Received m None g' # later) c2 = next_event J K later
           (c3\<lparr>sc_resources := g' (sc_resources c3), commits := commits c3 @ [km_offset m]\<rparr>))"
  by (rule commit_failure_facts [where g = g, OF assms]) blast

lemma split_first:
  "(\<exists>pre post. x # xs = pre @ y # post \<and> (\<forall>p \<in> set pre. N p) \<and> R y) \<longleftrightarrow>
   x = y \<and> R y \<or> N x \<and> (\<exists>pre post. xs = pre @ y # post \<and> (\<forall>p \<in> set pre. N p) \<and> R y)"
  (is "?L \<longleftrightarrow> ?A \<or> ?B")
proof
  assume ?L
  then obtain pre post where *: "x # xs = pre @ y # post" "\<forall>p \<in> set pre. N p" "R y" by blast
  then show "?A \<or> ?B" by (cases pre) auto
next
  assume "?A \<or> ?B"
  then show ?L
  proof
    assume ?A
    then show ?L by (intro exI [of _ "[]"] exI [of _ xs]) simp
  next
    assume ?B
    then obtain pre post where "N x" "xs = pre @ y # post" "\<forall>p \<in> set pre. N p" "R y" by blast
    then show ?L by (intro exI [of _ "x # pre"] exI [of _ post]) simp
  qed
qed

lemma first_successful_iff:
  "first_successful txs = Some tx \<longleftrightarrow>
   (\<exists>pre post. txs = pre @ tx # post \<and> (\<forall>p \<in> set pre. tx_status p \<noteq> Some True) \<and> tx_status tx = Some True)"
proof (induction txs)
  case (Cons x txs)
  show ?case
    unfolding split_first [of x txs tx "\<lambda>p. tx_status p \<noteq> Some True" "\<lambda>p. tx_status p = Some True"] Cons [symmetric]
    by (cases "tx_status x") auto
qed simp

lemma first_transfer_iff:
  "first_transfer txs = Some (tx, t) \<longleftrightarrow>
   (\<exists>pre post. txs = pre @ tx # post \<and> (\<forall>p \<in> set pre. tt_transfers p = [])
      \<and> (\<exists>ts. tt_transfers tx = t # ts))"
proof (induction txs)
  case (Cons x txs)
  show ?case
    unfolding split_first [of x txs tx "\<lambda>p. tt_transfers p = []" "\<lambda>p. \<exists>ts. tt_transfers p = t # ts"] Cons [symmetric]
    by (cases "tt_transfers x") auto
qed simp

lemma first_trade_iff:
  "first_trade txs = Some (tx, t) \<longleftrightarrow>
   (\<exists>pre post. txs = pre @ tx # post \<and> (\<forall>p \<in> set pre. dx_trades p = [])
      \<and> (\<exists>ts. dx_trades tx = t # ts))"
proof (induction txs)
  case (Cons x txs)
  show ?case
    unfolding split_first [of x txs tx "\<lambda>p. dx_trades p = []" "\<lambda>p. \<exists>ts. dx_trades p = t # ts"] Cons [symmetric]
    by (cases "dx_trades x") auto
qed simp

lemma image_nil: "f ` A \<subseteq> {[]} \<longleftrightarrow> (\<forall>p \<in> A. f p = [])" and image_true: "Some True \<notin> g ` A \<longleftrightarrow> (\<forall>p \<in> A. g p \<noteq> Some True)"
  by (auto simp: image_iff)

lemma parse_first_facts:
  shows "parse_block_message_content J K bm = Inr e \<longleftrightarrow>
     (\<exists>h pre tx post. bm_header bm = Some h \<and> bm_transactions bm = pre @ tx # post
        \<and> tx_status tx = Some True \<and> Some True \<notin> tx_status ` set pre \<and> e = transaction_event J K h tx)"
  and "parse_token_message_content J K tm = Inr e \<longleftrightarrow>
     (\<exists>h pre tx post t ts. tm_header tm = Some h \<and> tm_transactions tm = pre @ tx # post
        \<and> tt_transfers tx = t # ts \<and> tt_transfers ` set pre \<subseteq> {[]} \<and> e = transfer_event J K h tx t)"
  and "parse_dex_message_content J K dm = Inr e \<longleftrightarrow>
     (\<exists>h pre tx post t ts. dm_header dm = Some h \<and> dm_transactions dm = pre @ tx # post
        \<and> dx_trades tx = t # ts \<and> dx_trades ` set pre \<subseteq> {[]} \<and> e = trade_event J K h tx t)"
proof -
  have "parse_block_message_content J K bm = Inr e \<longleftrightarrow>
      (\<exists>h tx. bm_header bm = Some h \<and> first_successful (bm_transactions bm) = Some tx \<and> e = transaction_event J K h tx)"
    by (auto simp: parse_block_message_content_def split: option.splits)
  then show "parse_block_message_content J K bm = Inr e \<longleftrightarrow>
     (\<exists>h pre tx post. bm_header bm = Some h \<and> bm_transactions bm = pre @ tx # post
        \<and> tx_status tx = Some True \<and> Some True \<notin> tx_status ` set pre \<and> e = transaction_event J K h tx)"
    unfolding first_successful_iff image_true by blast
  have "parse_token_message_content J K tm = Inr e \<longleftrightarrow>
      (\<exists>h tx t. tm_header tm = Some h \<and> first_transfer (tm_transactions tm) = Some (tx, t) \<and> e = transfer_event J K h tx t)"
    by (auto simp: parse_token_message_content_def split: option.splits)
  then show "parse_token_message_content J K tm = Inr e \<longleftrightarrow>
     (\<exists>h pre tx post t ts. tm_header tm = Some h \<and> tm_transactions tm = pre @ tx # post
        \<and> tt_transfers tx = t # ts \<and> tt_transfers ` set pre \<subseteq> {[]} \<and> e = transfer_event J K h tx t)"
    unfolding first_transfer_iff image_nil by blast
  have "parse_dex_message_content J K dm = Inr e \<longleftrightarrow>
      (\<exists>h tx t. dm_header dm = Some h \<and> first_trade (dm_transactions dm) = Some (tx, t) \<and> e = trade_event J K h tx t)"
    by (auto simp: parse_dex_message_content_def split: option.splits)
  then show "parse_dex_message_content J K dm = Inr e \<longleftrightarrow>
     (\<exists>h pre tx post t ts. dm_header dm = Some h \<and> dm_transactions dm = pre @ tx # post
        \<and> dx_trades tx = t # ts \<and> dx_trades ` set pre \<subseteq> {[]} \<and> e = trade_event J K h tx t)"
    unfolding first_trade_iff image_nil by blast
qed

text \<open>
  What a block message yields: the event of its first transaction with a successful status, and
  an error exactly when the header or such a transaction is missing. Token and trade messages yield
  the first transfer, and the first trade, of the first transaction that has one.
\<close>

theorem parse_first:
  "(parse_block_message_content J K bm = Inr e \<longleftrightarrow>
     (\<exists>h pre tx post. bm_header bm = Some h \<and> bm_transactions bm = pre @ tx # post
        \<and> tx_status tx = Some True \<and> Some True \<notin> tx_status ` set pre \<and> e = transaction_event J K h tx))
    \<and> (parse_token_message_content J K tm = Inr e \<longleftrightarrow>
     (\<exists>h pre tx post t ts. tm_header tm = Some h \<and> tm_transactions tm = pre @ tx # post
        \<and> tt_transfers tx = t # ts \<and> tt_transfers ` set pre \<subseteq> {[]} \<and> e = transfer_event J K h tx t))
    \<and> (parse_dex_message_content J K dm = Inr e \<longleftrightarrow>
     (\<exists>h pre tx post t ts. dm_header dm = Some h \<and> dm_transactions dm = pre @ tx # post
        \<and> dx_trades tx = t # ts \<and> dx_trades ` set pre \<subseteq> {[]} \<and> e = trade_event J K h tx t))"
  by (intro conjI parse_first_facts)

section \<open>Witnesses\<close>

definition sample_codecs :: codecs where
  "sample_codecs =
     \<lparr>hex_encode = (\<lambda>b. replicate (2 * length b) (CHR ''0'')),
      lz4_decode = (\<lambda>_. Inl ''lz4''), gzip_decode = (\<lambda>_. Inl ''gzip''),
      decode_block = (\<lambda>_. Inr \<lparr>bm_header = Some \<lparr>hdr_slot = 7, hdr_timestamp = 0\<rparr>,
        bm_transactions = [\<lparr>tx_signature = replicate 4 0, tx_status = Some True, tx_header = None,
          tx_instructions = 0, tx_logs = []\<rparr>]\<rparr>),
      decode_token = (\<lambda>_. Inl ''eof''), decode_dex = (\<lambda>_. Inl ''eof'')\<rparr>"

definition sample_message :: kafka_message where
  "sample_message = \<lparr>km_topic = ''solana.transactions.proto'', km_offset = 3, km_payload = Some [1, 2, 3]\<rparr>"

definition sample_config :: config where
  "sample_config =
     \<lparr>cfg_kafka = kafka_config_default ''0'',
      cfg_processing = processing_config_default 4 False,
      cfg_resources = sample_limits 10,
      cfg_retry = retry_config_default\<rparr>"

definition sample_consumer :: "json stream_consumer" where
  "sample_consumer = stream_consumer_new sample_config (resource_manager_new (sample_limits 10))"

lemma sample_decoded:
  "\<exists>e. decode_event json_tree sample_codecs (km_topic sample_message) payload = Some (Inr e)
     \<and> signature e = ''00000000'' \<and> event_type e = Transaction"
  by (simp add: decode_event_def sample_message_def sample_codecs_def parse_block_message_content_def
      transaction_event_def Let_def eval_nat_numeral)

lemma sample_internal:
  "\<exists>c1 e. internal_process_kafka_message json_tree sample_codecs sample_message sample_consumer
     = (c1, Inr (Some e)) \<and> signature e = ''00000000''"
proof -
  have p: "km_payload sample_message = Some [1, 2, 3]" by (simp add: sample_message_def)
  obtain e where e: "decode_event json_tree sample_codecs (km_topic sample_message)
      (decompress_safe (lz4_decode sample_codecs) (gzip_decode sample_codecs) [1, 2, 3]) = Some (Inr e)"
    "signature e = ''00000000''"
    using sample_decoded by blast
  have "seen_signatures_cache sample_consumer = {}"
    by (simp add: sample_consumer_def stream_consumer_new_def)
  with p e show ?thesis by (simp add: internal_process_kafka_message_def Let_def)
qed

lemma sample_pre_receive:
  assumes "sc_resources c = resource_manager_new (sample_limits 10)"
  shows "pre_receive c = Inr c"
proof -
  have "check_resources (resource_manager_new (sample_limits 10)) = (resource_manager_new (sample_limits 10), Inr ())"
    using sample_limits_points(1) [of 10] by (simp add: model_defs sample_limits_def)
  moreover have "\<not> is_backpressure_active (resource_manager_new (sample_limits 10))" by (simp add: model_defs)
  moreover have "c\<lparr>sc_resources := sc_resources c\<rparr> = c" by simp
  ultimately show ?thesis using assms by (simp add: pre_receive_def)
qed

theorem commit_failure_loses_event_witness:
  "\<exists>c2. next_event json_tree sample_codecs [Received sample_message (Some ''timed out'') id] sample_consumer
       = Some (c2, [], Inl (Kafka ''timed out''))
     \<and> ''00000000'' \<in> seen_signatures_cache c2"
proof -
  have pre: "pre_receive sample_consumer = Inr sample_consumer"
    by (rule sample_pre_receive) (simp add: sample_consumer_def stream_consumer_new_def)
  obtain c1 e where c1: "internal_process_kafka_message json_tree sample_codecs sample_message
      (sample_consumer\<lparr>sc_resources := id (sc_resources sample_consumer)\<rparr>) = (c1, Inr (Some e))" "signature e = ''00000000''"
    using sample_internal by auto
  have "passes_filter json_tree (active_event_filter sample_consumer) e"
    by (simp add: sample_consumer_def stream_consumer_new_def)
  from commit_failure_loses_event [of _ _ _ _ _ id _ _ "[]" "''timed out''", OF pre c1(1) this] c1(2) show ?thesis by auto
qed

theorem consumer_delivers_once_witness:
  "case consume json_tree sample_codecs [id, id, id]
       [Received sample_message None id, RecvError ''down'', Received sample_message None id] sample_consumer of
     (es, c', rest) \<Rightarrow> distinct (map signature es)"
proof -
  obtain es c' rest where run: "consume json_tree sample_codecs [id, id, id]
       [Received sample_message None id, RecvError ''down'', Received sample_message None id] sample_consumer
     = (es, c', rest)" by (rule prod_cases3)
  have fin: "finite (seen_signatures_cache sample_consumer)"
    and room: "card (seen_signatures_cache sample_consumer)
        + length [Received sample_message None id, RecvError ''down'', Received sample_message None id]
      \<le> max (unat (buffer_size (cfg_processing (sc_config sample_consumer)))) 100000"
    by (simp_all add: sample_consumer_def stream_consumer_new_def)
  show ?thesis using consumer_delivers_once [OF run fin] room run by simp
qed

end
