(* ===== verification/Threads.thy ===== *)
theory Threads
  imports Prelude
begin

text \<open>
  Threads that share a state and interleave between any two of its accesses: what the parts of the
  program that use atomics have in common. A thread is the calls it still makes, the first of them
  possibly under way; \<open>step\<close> makes the next access of a call.
\<close>

fun advance_thread :: "('c \<Rightarrow> 's \<Rightarrow> 's \<times> 'c option) \<Rightarrow> 'c list \<Rightarrow> 's \<Rightarrow> 's \<times> 'c list" where
  "advance_thread step [] s = (s, [])"
| "advance_thread step (c # cs) s = (case step c s of (s', None) \<Rightarrow> (s', cs) | (s', Some c') \<Rightarrow> (s', c' # cs))"

definition threads_step :: "('c \<Rightarrow> 's \<Rightarrow> 's \<times> 'c option) \<Rightarrow> nat \<Rightarrow> 's \<times> 'c list list \<Rightarrow> 's \<times> 'c list list" where
  "threads_step step i s = (let (s', th) = advance_thread step (snd s ! i) (fst s) in (s', (snd s)[i := th]))"

inductive threads_reachable ::
  "('c \<Rightarrow> 's \<Rightarrow> 's \<times> 'c option) \<Rightarrow> 's \<times> 'c list list \<Rightarrow> 's \<times> 'c list list \<Rightarrow> bool" for step s0 where
  start: "threads_reachable step s0 s0"
| access: "threads_reachable step s0 s \<Longrightarrow> i < length (snd s) \<Longrightarrow> threads_reachable step s0 (threads_step step i s)"

lemma length_threads_step [simp]: "length (snd (threads_step step i s)) = length (snd s)"
  by (simp add: threads_step_def split: prod.split)

lemma threads_schedule:
  "threads_reachable step s0 s \<Longrightarrow> list_all (\<lambda>i. i < length (snd s)) is \<Longrightarrow>
   threads_reachable step s0 (fold (threads_step step) is s)"
  by (induction "is" arbitrary: s) (simp_all add: threads_reachable.access)

text \<open>What all threads together still owe.\<close>

definition total_owed :: "('c \<Rightarrow> 'a::comm_monoid_add) \<Rightarrow> 'c list list \<Rightarrow> 'a" where
  "total_owed f ths = sum_list (map (\<lambda>th. sum_list (map f th)) ths)"

lemma sum_list_replace:
  fixes xs :: "'a::comm_monoid_add list"
  shows "i < length xs \<Longrightarrow> sum_list (xs[i := x]) + xs ! i = sum_list xs + x"
proof (induction xs arbitrary: i)
  case (Cons y ys)
  then show ?case by (cases i) (simp_all add: ac_simps)
qed simp

lemma total_owed_update:
  "i < length ths \<Longrightarrow> total_owed f (ths[i := th]) + sum_list (map f (ths ! i)) = total_owed f ths + sum_list (map f th)"
  using sum_list_replace [of i "map (\<lambda>th. sum_list (map f th)) ths" "sum_list (map f th)"]
  by (simp add: total_owed_def map_update)

lemma total_owed_done: "\<forall>th \<in> set ths. th = [] \<Longrightarrow> total_owed f ths = 0"
  unfolding total_owed_def by (induction ths) simp_all

lemma total_owed_concat: "total_owed f ths = sum_list (map f (concat ths))"
  unfolding total_owed_def by (induction ths) simp_all

text \<open>
  A quantity of the state that an access changes only by what its call owes of it. Whatever the order of
  the accesses, the threads bring it to the same value.
\<close>

locale conserving =
  fixes step :: "'c \<Rightarrow> 's \<Rightarrow> 's \<times> 'c option"
    and level :: "'s \<Rightarrow> 'a::ab_group_add"
    and owed :: "'c \<Rightarrow> 'a"
  assumes conserves: "step c s = (s', r) \<Longrightarrow>
      level s' + (case r of None \<Rightarrow> 0 | Some c' \<Rightarrow> owed c') = level s + owed c"
begin

lemma advance_conserves:
  assumes "advance_thread step th s = (s', th')"
  shows "level s' + sum_list (map owed th') = level s + sum_list (map owed th)"
proof (cases th)
  case (Cons c cs)
  obtain s1 r where a: "step c s = (s1, r)" by fastforce
  with assms Cons conserves [OF a] show ?thesis by (cases r) (auto simp: add.assoc [symmetric])
qed (use assms in simp)

lemma threads_conserve:
  "threads_reachable step s0 s \<Longrightarrow>
   level (fst s) + total_owed owed (snd s) = level (fst s0) + total_owed owed (snd s0)"
proof (induction rule: threads_reachable.induct)
  case (access s i)
  obtain s' th where a: "advance_thread step (snd s ! i) (fst s) = (s', th)" by fastforce
  have "level s' = level (fst s) + sum_list (map owed (snd s ! i)) - sum_list (map owed th)"
    using advance_conserves [OF a] by (simp add: eq_diff_eq)
  moreover have "total_owed owed ((snd s)[i := th]) = total_owed owed (snd s)
      + sum_list (map owed th) - sum_list (map owed (snd s ! i))"
    using total_owed_update [OF access.hyps(2), of owed th] by (simp add: eq_diff_eq)
  ultimately show ?case using access.IH by (simp add: threads_step_def a)
qed simp

text \<open>When every thread is done, the level is what it was and all that was owed.\<close>

lemma threads_done:
  assumes "threads_reachable step (s0, ths0) (s, ths)" "\<forall>th \<in> set ths. th = []"
  shows "level s = level s0 + sum_list (map owed (concat ths0))"
  using threads_conserve [OF assms(1)] total_owed_done [OF assms(2), of owed] total_owed_concat [of owed ths0] by simp

end

end
