(* ===== verification/ResourceRaces.thy ===== *)
theory ResourceRaces
  imports Consumer Threads
begin

text \<open>
  src/resource_manager.rs at the grain of its atomics: workers and consumer run on several threads, and a
  method of the resource manager is a sequence of single loads, stores and read-modify-writes. Threads
  interleave between any two of these, in one order that all of them see. Alone, a method does what its
  definition in Resources does.
\<close>

section \<open>Accesses\<close>

text \<open>
  Where a call stands, with its local variables: the constructor names the next access. \<open>Complete\<close> is
  \<open>complete_processing\<close>, \<open>Check\<close> is \<open>check_resources\<close>, \<open>Start\<close> is \<open>start_processing\<close>.
\<close>

datatype manager_call =
    CompleteBegin usize
  | CompleteLoad
  | CompleteEstimate usize
  | CompleteStore usize u64
  | CompleteTest
  | CompleteLower
  | CheckBegin
  | CheckEstimate
  | CheckStore u64
  | CheckRaise sdk_error
  | StartBegin usize
  | Ended "sdk_error + unit"

definition in_flight_error :: "usize \<Rightarrow> resource_limits \<Rightarrow> sdk_error" where
  "in_flight_error in_flight c =
     ResourceError (''Max messages in flight reached ('' @ dec_string (unat in_flight) @ '' >= ''
       @ dec_string (unat (max_messages_in_flight c)) @ '')'')"

definition memory_error :: "u64 \<Rightarrow> resource_limits \<Rightarrow> sdk_error" where
  "memory_error estimated_memory c =
     ResourceError (''Estimated memory usage exceeds backpressure threshold (''
       @ dec_string (unat estimated_memory) @ '' bytes >= ''
       @ dec_string (unat (memory_trigger_threshold c)) @ '' bytes)'')"

fun access :: "manager_call \<Rightarrow> resource_manager \<Rightarrow> resource_manager \<times> manager_call" where
  "access (CompleteBegin n) m = (m\<lparr>messages_in_flight := messages_in_flight m - n\<rparr>, CompleteLoad)"
| "access CompleteLoad m = (m, CompleteEstimate (messages_in_flight m))"
| "access (CompleteEstimate current) m = (m, CompleteStore current (messages_in_flight m * (20 * 1024)))"
| "access (CompleteStore current estimated) m =
     (m\<lparr>current_memory_estimate_bytes := estimated\<rparr>,
      if current < messages_deactivation_point (rm_config m) \<and> estimated < memory_deactivation_point (rm_config m)
      then CompleteTest else Ended (Inr ()))"
| "access CompleteTest m = (m, if is_backpressure_active m then CompleteLower else Ended (Inr ()))"
| "access CompleteLower m = (deactivate_backpressure_signal m, Ended (Inr ()))"
| "access CheckBegin m =
     (m, if max_messages_in_flight (rm_config m) \<le> messages_in_flight m
         then CheckRaise (in_flight_error (messages_in_flight m) (rm_config m)) else CheckEstimate)"
| "access CheckEstimate m = (m, CheckStore (messages_in_flight m * (20 * 1024)))"
| "access (CheckStore estimated) m =
     (m\<lparr>current_memory_estimate_bytes := estimated\<rparr>,
      if memory_trigger_threshold (rm_config m) \<le> estimated
      then CheckRaise (memory_error estimated (rm_config m)) else Ended (Inr ()))"
| "access (CheckRaise e) m = (activate_backpressure_signal m, Ended (Inl e))"
| "access (StartBegin n) m = (start_processing n m, Ended (Inr ()))"
| "access (Ended r) m = (m, Ended r)"

text \<open>The calls as threads that share the resource manager.\<close>

definition call_access :: "manager_call \<Rightarrow> resource_manager \<Rightarrow> resource_manager \<times> manager_call option" where
  "call_access t m = (case access t m of (m', Ended r) \<Rightarrow> (m', None) | (m', t') \<Rightarrow> (m', Some t'))"

abbreviation advance :: "manager_call list \<Rightarrow> resource_manager \<Rightarrow> resource_manager \<times> manager_call list" where
  "advance \<equiv> advance_thread call_access"

abbreviation race_step ::
  "nat \<Rightarrow> resource_manager \<times> manager_call list list \<Rightarrow> resource_manager \<times> manager_call list list" where
  "race_step \<equiv> threads_step call_access"

abbreviation race_reachable ::
  "resource_manager \<times> manager_call list list \<Rightarrow> resource_manager \<times> manager_call list list \<Rightarrow> bool" where
  "race_reachable \<equiv> threads_reachable call_access"

section \<open>A call that runs alone\<close>

fun run_alone :: "nat \<Rightarrow> manager_call \<Rightarrow> resource_manager \<Rightarrow> resource_manager \<times> manager_call" where
  "run_alone 0 t m = (m, t)"
| "run_alone (Suc n) t m = (let (m', t') = access t m in run_alone n t' m')"

lemma complete_alone: "run_alone 6 (CompleteBegin n) m = (complete_processing n m, Ended (Inr ()))"
  by (simp add: numeral_eq_Suc model_defs)

lemma check_alone:
  "run_alone 4 CheckBegin m = (fst (check_resources m), Ended (snd (check_resources m)))"
  by (simp add: numeral_eq_Suc model_defs in_flight_error_def memory_error_def)

lemma start_alone: "run_alone 1 (StartBegin n) m = (start_processing n m, Ended (Inr ()))"
  by simp

section \<open>What every interleaving keeps\<close>

text \<open>
  \<open>pending_flow\<close> is what a call still adds to the count in flight, \<open>pending_raise\<close> how many signals it
  may still raise.
\<close>

fun pending_flow :: "manager_call \<Rightarrow> usize" where
  "pending_flow (StartBegin n) = n"
| "pending_flow (CompleteBegin n) = - n"
| "pending_flow _ = 0"

fun pending_raise :: "manager_call \<Rightarrow> nat" where
  "pending_raise CheckBegin = 1"
| "pending_raise CheckEstimate = 1"
| "pending_raise (CheckStore _) = 1"
| "pending_raise (CheckRaise _) = 1"
| "pending_raise _ = 0"

fun completes :: "manager_call \<Rightarrow> bool" where
  "completes (CompleteBegin _) = True"
| "completes CompleteLoad = True"
| "completes (CompleteEstimate _) = True"
| "completes (CompleteStore _ _) = True"
| "completes CompleteTest = True"
| "completes CompleteLower = True"
| "completes _ = False"

fun fresh_call :: "manager_call \<Rightarrow> bool" where
  "fresh_call (CompleteBegin _) = True"
| "fresh_call CheckBegin = True"
| "fresh_call (StartBegin _) = True"
| "fresh_call _ = False"

lemma access_flow:
  "access t m = (m', t') \<Longrightarrow>
   messages_in_flight m' + pending_flow t' = messages_in_flight m + pending_flow t"
  by (cases t) (auto simp: model_defs)

interpretation flow: conserving call_access messages_in_flight pending_flow
proof unfold_locales
  fix t m m' r
  assume "call_access t m = (m', r)"
  moreover obtain m1 t1 where a: "access t m = (m1, t1)" by fastforce
  ultimately show "messages_in_flight m' + (case r of None \<Rightarrow> 0 | Some t' \<Rightarrow> pending_flow t')
      = messages_in_flight m + pending_flow t"
    using access_flow [OF a] by (cases t1) (auto simp: call_access_def)
qed

lemma raise_unat: "unat x + 1 < 2 ^ 64 \<Longrightarrow> unat (x + 1 :: usize) = unat x + 1"
  by (simp add: unat_word_ariths(1) del: One_nat_def)

lemma raise_signal:
  "unat (backpressure_active_signals m) + 1 < 2 ^ 64 \<Longrightarrow>
   unat (backpressure_active_signals (activate_backpressure_signal m)) = unat (backpressure_active_signals m) + 1"
  using raise_unat [of "backpressure_active_signals m"] unfolding activate_backpressure_signal_def by simp

lemma lower_signal:
  "0 < unat (backpressure_active_signals m) \<Longrightarrow>
   unat (backpressure_active_signals (deactivate_backpressure_signal m)) = unat (backpressure_active_signals m) - 1"
  unfolding deactivate_backpressure_signal_def by (simp add: unat_minus_one unat_gt_0)

lemma signals_frame [simp]:
  "backpressure_active_signals (start_processing n m) = backpressure_active_signals m"
  by (simp add: start_processing_def)

lemma access_signals:
  assumes "access t m = (m', t')" "unat (backpressure_active_signals m) + pending_raise t < 2 ^ 64"
    and "t = CompleteLower \<Longrightarrow> 0 < unat (backpressure_active_signals m)"
  shows "unat (backpressure_active_signals m') + pending_raise t' \<le> unat (backpressure_active_signals m) + pending_raise t"
  using assms by (cases t) (auto simp: raise_signal lower_signal split: if_splits)

lemma access_raises:
  assumes "access t m = (m', t')" "unat (backpressure_active_signals m) + pending_raise t < 2 ^ 64"
    and "\<not> completes t"
  shows "unat (backpressure_active_signals m) \<le> unat (backpressure_active_signals m')"
  using assms by (cases t) (auto simp: raise_signal split: if_splits)

lemma access_lower: "access t m = (m', CompleteLower) \<Longrightarrow> 0 < unat (backpressure_active_signals m')"
  by (cases t) (auto simp: is_backpressure_active_def word_less_nat_alt split: if_splits)

lemma access_kind: "access t m = (m', t') \<Longrightarrow> completes t' \<Longrightarrow> completes t"
  by (cases t) (auto split: if_splits)

text \<open>
  With one thread \<open>j\<close> that completes, a call of it that is about to lower a signal finds one: nobody else
  lowers, and the signals and the raises to come stay within the bound.
\<close>

definition signals_inv :: "nat \<Rightarrow> nat \<Rightarrow> resource_manager \<times> manager_call list list \<Rightarrow> bool" where
  "signals_inv j bound s \<longleftrightarrow>
     unat (backpressure_active_signals (fst s)) + total_owed pending_raise (snd s) \<le> bound
     \<and> (\<forall>i < length (snd s). list_all fresh_call (tl (snd s ! i)))
     \<and> (\<forall>i < length (snd s). i \<noteq> j \<longrightarrow> \<not> list_ex completes (snd s ! i))
     \<and> (\<forall>i < length (snd s). snd s ! i \<noteq> [] \<and> hd (snd s ! i) = CompleteLower \<longrightarrow>
          0 < unat (backpressure_active_signals (fst s)))"

lemma advance_signals:
  assumes "advance th m = (m', th')"
    and "unat (backpressure_active_signals m) + sum_list (map pending_raise th) < 2 ^ 64"
    and "th \<noteq> [] \<Longrightarrow> hd th = CompleteLower \<Longrightarrow> 0 < unat (backpressure_active_signals m)"
    and "list_all fresh_call (tl th)"
  shows "unat (backpressure_active_signals m') + sum_list (map pending_raise th')
        \<le> unat (backpressure_active_signals m) + sum_list (map pending_raise th)
    \<and> (\<not> list_ex completes th \<longrightarrow> \<not> list_ex completes th'
        \<and> unat (backpressure_active_signals m) \<le> unat (backpressure_active_signals m'))
    \<and> list_all fresh_call (tl th')
    \<and> (th' \<noteq> [] \<and> hd th' = CompleteLower \<longrightarrow> 0 < unat (backpressure_active_signals m'))"
proof (cases th)
  case Nil
  then show ?thesis using assms by simp
next
  case (Cons t ts)
  obtain m1 t1 where a: "access t m = (m1, t1)" by fastforce
  have m': "m' = m1" and th': "th' = (case t1 of Ended _ \<Rightarrow> ts | _ \<Rightarrow> t1 # ts)"
    using assms(1) a Cons by (cases t1; simp add: call_access_def)+
  have sum: "sum_list (map pending_raise th') = pending_raise t1 + sum_list (map pending_raise ts)"
    unfolding th' by (cases t1) simp_all
  have room: "unat (backpressure_active_signals m) + pending_raise t < 2 ^ 64"
    using assms(2) Cons by simp
  have lower: "t = CompleteLower \<Longrightarrow> 0 < unat (backpressure_active_signals m)" using assms(3) Cons by simp
  note head = access_signals [OF a room lower] access_raises [OF a room] access_kind [OF a]
  have fresh: "list_all fresh_call ts" using assms(4) Cons by simp
  have "unat (backpressure_active_signals m') + sum_list (map pending_raise th')
      \<le> unat (backpressure_active_signals m) + sum_list (map pending_raise th)"
    using head(1) Cons by (simp add: sum m')
  moreover have "\<not> list_ex completes th' \<and> unat (backpressure_active_signals m) \<le> unat (backpressure_active_signals m')"
    if "\<not> list_ex completes th"
    using that head(2,3) Cons unfolding th' m' by (cases t1) auto
  moreover have "list_all fresh_call (tl th')"
    using fresh unfolding th' by (cases t1; cases ts) simp_all
  moreover have "0 < unat (backpressure_active_signals m')" if "th' \<noteq> []" "hd th' = CompleteLower"
  proof -
    have "\<not> (\<exists>r. t1 = Ended r)" using that fresh unfolding th' by (cases t1; cases ts) auto
    then have "t1 = CompleteLower" using that(2) unfolding th' by (cases t1) simp_all
    then show ?thesis using access_lower a m' by blast
  qed
  ultimately show ?thesis by blast
qed

lemma total_of_member:
  fixes f :: "manager_call \<Rightarrow> nat"
  shows "i < length ths \<Longrightarrow> sum_list (map f (ths ! i)) \<le> total_owed f ths"
  unfolding total_owed_def by (rule member_le_sum_list) (auto intro: imageI)

lemma signals_inv_step:
  assumes "signals_inv j bound s" "i < length (snd s)" "bound < 2 ^ 64"
  shows "signals_inv j bound (race_step i s)"
proof -
  obtain m th where a: "advance (snd s ! i) (fst s) = (m, th)" by fastforce
  have room: "unat (backpressure_active_signals (fst s)) + sum_list (map pending_raise (snd s ! i)) < 2 ^ 64"
    using assms total_of_member [OF assms(2), of pending_raise] by (simp add: signals_inv_def)
  note adv = advance_signals [OF a room]
  have adv: "unat (backpressure_active_signals m) + sum_list (map pending_raise th)
        \<le> unat (backpressure_active_signals (fst s)) + sum_list (map pending_raise (snd s ! i))"
      "\<not> list_ex completes (snd s ! i) \<Longrightarrow> \<not> list_ex completes th
        \<and> unat (backpressure_active_signals (fst s)) \<le> unat (backpressure_active_signals m)"
      "list_all fresh_call (tl th)"
      "th \<noteq> [] \<Longrightarrow> hd th = CompleteLower \<Longrightarrow> 0 < unat (backpressure_active_signals m)"
    using adv assms(1,2) unfolding signals_inv_def by blast+
  have "0 < unat (backpressure_active_signals m)"
    if k: "k < length (snd s)" "k \<noteq> i" "snd s ! k \<noteq> []" "hd (snd s ! k) = CompleteLower" for k
  proof -
    have "list_ex completes (snd s ! k)" using k(3,4) by (cases "snd s ! k") auto
    then have "k = j" using assms(1) k(1) by (auto simp: signals_inv_def)
    then have "\<not> list_ex completes (snd s ! i)" using assms(1,2) k(2) by (auto simp: signals_inv_def)
    moreover have "0 < unat (backpressure_active_signals (fst s))"
      using assms(1) k by (auto simp: signals_inv_def)
    ultimately show ?thesis using adv(2) by simp
  qed
  moreover have "unat (backpressure_active_signals m) + total_owed pending_raise ((snd s)[i := th]) \<le> bound"
    using adv(1) total_owed_update [OF assms(2), of pending_raise th] assms(1) by (simp add: signals_inv_def)
  ultimately show ?thesis
    using assms(1,2) adv(2-4) unfolding signals_inv_def threads_step_def a
    by (simp add: nth_list_update)
qed

lemma signals_inv_reachable:
  assumes "race_reachable s0 s" "signals_inv j bound s0" "bound < 2 ^ 64"
  shows "signals_inv j bound s"
  using assms(1) by (induction rule: threads_reachable.induct) (auto intro: signals_inv_step assms(2,3))

section \<open>Properties\<close>

text \<open>
  Threads that call the resource manager at the same time, interleaved between any two accesses:
  when they are done, the messages in flight are exactly those before, plus those started, minus those
  completed. If only one thread completes batches, the counter of backpressure signals never passes
  below zero, whatever the others check and start: it is at most the signals before and the checks made.
\<close>

theorem single_completer_sound:
  assumes "race_reachable (m0, ths0) (m, ths)" "\<forall>th \<in> set ths0. list_all fresh_call th"
    and "\<forall>i < length ths0. i \<noteq> j \<longrightarrow> \<not> list_ex completes (ths0 ! i)"
    and "unat (backpressure_active_signals m0) + total_owed pending_raise ths0 < 2 ^ 64"
  shows "unat (backpressure_active_signals m) \<le> unat (backpressure_active_signals m0) + total_owed pending_raise ths0
    \<and> ((\<forall>th \<in> set ths. th = []) \<longrightarrow>
         messages_in_flight m = messages_in_flight m0 + total_owed pending_flow ths0)"
proof -
  let ?bound = "unat (backpressure_active_signals m0) + total_owed pending_raise ths0"
  have fresh: "list_all fresh_call (ths0 ! i)" if "i < length ths0" for i
    using that assms(2) by simp
  then have "list_all fresh_call (tl (ths0 ! i))" "ths0 ! i \<noteq> [] \<Longrightarrow> hd (ths0 ! i) \<noteq> CompleteLower"
    if "i < length ths0" for i
    using fresh [OF that] by (cases "ths0 ! i"; auto)+
  then have "signals_inv j ?bound (m0, ths0)"
    using assms(3) by (auto simp: signals_inv_def)
  then have "signals_inv j ?bound (m, ths)"
    by (rule signals_inv_reachable [OF assms(1) _ assms(4)])
  then have "unat (backpressure_active_signals m) \<le> ?bound"
    by (simp add: signals_inv_def)
  moreover have "messages_in_flight m = messages_in_flight m0 + total_owed pending_flow ths0"
    if "\<forall>th \<in> set ths. th = []"
    using flow.threads_conserve [OF assms(1)] total_owed_done [OF that, of pending_flow] by simp
  ultimately show ?thesis by blast
qed

lemma stalled_next_event:
  "backpressure_active_signals (sc_resources c) \<noteq> 0 \<Longrightarrow>
   \<exists>c'. next_event J K is c = Some (c', is, Inr None) \<and> sc_resources c' = sc_resources c"
  by (cases "is") (auto simp: pre_receive_def is_backpressure_active_def word_gt_0)

lemma stalled_consume:
  "backpressure_active_signals (sc_resources c) \<noteq> 0 \<Longrightarrow>
   \<exists>c'. consume J K (replicate n id) is c = ([], c', is) \<and> sc_resources c' = sc_resources c"
proof (induction n arbitrary: c)
  case (Suc n)
  obtain c1 where c1: "next_event J K is c = Some (c1, is, Inr None)" "sc_resources c1 = sc_resources c"
    using stalled_next_event [OF Suc.prems] by blast
  have "c\<lparr>sc_resources := id (sc_resources c)\<rparr> = c" by simp
  with c1 Suc.IH [of c1] Suc.prems show ?case by auto
qed simp

lemma unat_max_usize: "unat (- 1 :: usize) = 2 ^ 64 - 1"
  by (simp only: unsigned_minus_1_eq_mask mask_eq_exp_minus_1) simp

text \<open>Two completions that both test before either lowers.\<close>

definition racing_schedule :: "nat list" where
  "racing_schedule = [0, 1, 0, 0, 0, 0, 1, 1, 1, 1, 0, 1]"

lemma racing_facts:
  assumes "backpressure_active_signals m = 1"
    and "messages_in_flight m - a - b < messages_deactivation_point (rm_config m)"
    and "(messages_in_flight m - a - b) * (20 * 1024) < memory_deactivation_point (rm_config m)"
  shows "fold race_step racing_schedule (m, [[CompleteBegin a], [CompleteBegin b]]) =
    (m\<lparr>messages_in_flight := messages_in_flight m - a - b,
       current_memory_estimate_bytes := (messages_in_flight m - a - b) * (20 * 1024),
       backpressure_active_signals := - 1\<rparr>, [[], []])"
  using assms
  by (simp add: racing_schedule_def threads_step_def call_access_def is_backpressure_active_def deactivate_backpressure_signal_def)

text \<open>
  Two workers complete their batches while one backpressure signal is raised and the load they leave
  is below the deactivation points. One after the other they leave no signal. Interleaved, both may see
  the signal before either lowers it; the counter then wraps to 2^64 - 1, although the messages in
  flight are counted right. From then on, while no further batch completes, the consumer takes no
  message: every call of \<open>next_event\<close> returns empty and leaves Kafka's answers alone, so that once the
  batches already taken are done, none will ever complete again.
\<close>

theorem racing_completions_stall:
  assumes "backpressure_active_signals m = 1"
    and "messages_in_flight m - a - b < messages_deactivation_point (rm_config m)"
    and "(messages_in_flight m - a - b) * (20 * 1024) < memory_deactivation_point (rm_config m)"
  shows "backpressure_active_signals (complete_processing b (complete_processing a m)) = 0
    \<and> (\<exists>m'. race_reachable (m, [[CompleteBegin a], [CompleteBegin b]]) (m', [[], []])
         \<and> messages_in_flight m' = messages_in_flight m - a - b
         \<and> unat (backpressure_active_signals m') = 2 ^ 64 - 1
         \<and> (\<forall>c. sc_resources c = m' \<longrightarrow>
              (\<exists>c'. consume J K (replicate n id) is c = ([], c', is) \<and> sc_resources c' = m')))"
proof -
  let ?m = "m\<lparr>messages_in_flight := messages_in_flight m - a - b,
       current_memory_estimate_bytes := (messages_in_flight m - a - b) * (20 * 1024),
       backpressure_active_signals := - 1\<rparr>"
  have "race_reachable (m, [[CompleteBegin a], [CompleteBegin b]]) (?m, [[], []])"
    unfolding racing_facts [OF assms, symmetric]
    by (rule threads_schedule [OF threads_reachable.start]) (simp add: racing_schedule_def)
  moreover have "backpressure_active_signals (complete_processing b (complete_processing a m)) = 0"
    using assms by (simp add: complete_processing_def get_estimated_current_memory_def Let_def
        is_backpressure_active_def deactivate_backpressure_signal_def)
  moreover have "unat (backpressure_active_signals ?m) = 2 ^ 64 - 1"
    by (simp add: unat_max_usize)
  moreover have "\<exists>c'. consume J K (replicate n id) is c = ([], c', is) \<and> sc_resources c' = ?m"
    if "sc_resources c = ?m" for c
    using stalled_consume [of c J K n "is"] unfolding that by simp
  moreover have "messages_in_flight ?m = messages_in_flight m - a - b" by simp
  ultimately show ?thesis by blast
qed

section \<open>Witnesses\<close>

theorem single_completer_sound_witness:
  "\<exists>m. race_reachable (resource_manager_new (sample_limits 10), [[StartBegin 3, CompleteBegin 3], [CheckBegin]])
       (m, [[], []]) \<and> messages_in_flight m = 0 \<and> unat (backpressure_active_signals m) \<le> 1"
proof -
  let ?s = "(resource_manager_new (sample_limits 10), [[StartBegin 3, CompleteBegin 3], [CheckBegin]])"
  let ?is = "[1, 0, 1, 1, 0, 0, 0, 0, 0 :: nat]"
  obtain m ths where end_state: "fold race_step ?is ?s = (m, ths)" by fastforce
  have max: "max_messages_in_flight (sample_limits 10) = 10" by (simp add: sample_limits_def)
  have "0 < messages_deactivation_point (sample_limits 10)"
    using messages_point_pos [of "sample_limits 10"] max by simp
  then have ths: "ths = [[], []]"
    using end_state sample_limits_points [of 10] max
    by (auto simp: threads_step_def call_access_def resource_manager_new_def start_processing_def is_backpressure_active_def)
  have r: "race_reachable ?s (m, ths)"
    unfolding end_state [symmetric] by (rule threads_schedule [OF threads_reachable.start]) simp
  have fresh: "\<forall>th \<in> set [[StartBegin 3, CompleteBegin 3], [CheckBegin]]. list_all fresh_call th" by simp
  have one: "\<forall>i < length [[StartBegin 3, CompleteBegin 3], [CheckBegin]]. i \<noteq> 0 \<longrightarrow>
      \<not> list_ex completes ([[StartBegin 3, CompleteBegin 3], [CheckBegin]] ! i)"
    by (simp add: less_Suc_eq)
  have room: "unat (backpressure_active_signals (resource_manager_new (sample_limits 10)))
      + total_owed pending_raise [[StartBegin 3, CompleteBegin 3], [CheckBegin]] < 2 ^ 64"
    by (simp add: total_owed_def resource_manager_new_def)
  from single_completer_sound [OF r fresh one room] r show ?thesis
    unfolding ths by (intro exI [of _ m]) (simp add: total_owed_def resource_manager_new_def)
qed

theorem racing_completions_stall_witness:
  "\<exists>m'. race_reachable
       ((resource_manager_new (sample_limits 10))\<lparr>messages_in_flight := 10, backpressure_active_signals := 1\<rparr>,
        [[CompleteBegin 5], [CompleteBegin 5]]) (m', [[], []])
     \<and> messages_in_flight m' = 0 \<and> unat (backpressure_active_signals m') = 18446744073709551615"
proof -
  let ?m = "(resource_manager_new (sample_limits 10))\<lparr>messages_in_flight := 10, backpressure_active_signals := 1\<rparr>"
  have "max_messages_in_flight (sample_limits 10) = 10" by (simp add: sample_limits_def)
  then have low: "messages_in_flight ?m - 5 - 5 < messages_deactivation_point (rm_config ?m)"
    using messages_point_pos [of "sample_limits 10"] by (simp add: resource_manager_new_def)
  have mem: "(messages_in_flight ?m - 5 - 5) * (20 * 1024) < memory_deactivation_point (rm_config ?m)"
    using sample_limits_points(2) [of 10] by (simp add: resource_manager_new_def)
  have one: "backpressure_active_signals ?m = 1" by simp
  from racing_completions_stall [OF one low mem, of "undefined" "undefined" 0 "[]"]
  show ?thesis by auto
qed

end
