(* ===== verification/Channel.thy ===== *)
theory Channel
  imports Prelude
begin

text \<open>
  The interface of the async_channel crate, which connects \<open>add_event\<close>, the collector task and the
  workers of the batch processor. The crate is not part of the repository: its operations are a
  record the definitions take as an argument, and the locale \<open>channel\<close> states its documented contract,
  a bounded first-in-first-out queue that keeps its messages when it is closed. A \<open>send().await\<close> on a
  full channel and a \<open>recv().await\<close> on an empty open one wait: the operations are then not enabled.
\<close>

record ('m, 'c) channel_ops =
  ch_bounded :: "nat \<Rightarrow> 'c"
  ch_send :: "'m \<Rightarrow> 'c \<Rightarrow> 'c option"
  ch_recv :: "'c \<Rightarrow> ('m \<times> 'c) option"
  ch_close :: "'c \<Rightarrow> 'c"
  ch_closed :: "'c \<Rightarrow> bool"
  ch_full :: "'c \<Rightarrow> bool"
  ch_send_error :: string

locale channel =
  fixes ops :: "('m, 'c) channel_ops"
    and contents :: "'c \<Rightarrow> 'm list"
    and capacity :: "'c \<Rightarrow> nat"
  assumes bounded: "0 < n \<Longrightarrow> contents (ch_bounded ops n) = [] \<and> capacity (ch_bounded ops n) = n
      \<and> \<not> ch_closed ops (ch_bounded ops n)"
    and send_room: "\<not> ch_closed ops c \<Longrightarrow> length (contents c) < capacity c \<Longrightarrow> ch_send ops m c \<noteq> None"
    and send_effect: "ch_send ops m c = Some c' \<Longrightarrow> \<not> ch_closed ops c \<and> length (contents c) < capacity c
      \<and> contents c' = contents c @ [m] \<and> capacity c' = capacity c \<and> \<not> ch_closed ops c'"
    and recv_some: "contents c \<noteq> [] \<Longrightarrow> ch_recv ops c \<noteq> None"
    and recv_effect: "ch_recv ops c = Some (m, c') \<Longrightarrow> contents c = m # contents c'
      \<and> capacity c' = capacity c \<and> ch_closed ops c' = ch_closed ops c"
    and close_effect: "contents (ch_close ops c) = contents c \<and> capacity (ch_close ops c) = capacity c
      \<and> ch_closed ops (ch_close ops c)"
    and full_iff: "ch_full ops c \<longleftrightarrow> length (contents c) = capacity c"
begin

lemma recv_none: "ch_recv ops c = None \<longleftrightarrow> contents c = []"
  using recv_some [of c] recv_effect [of c] by (cases "ch_recv ops c") auto

lemma send_none: "ch_send ops m c = None \<longleftrightarrow> ch_closed ops c \<or> capacity c \<le> length (contents c)"
proof (cases "ch_send ops m c")
  case None
  then show ?thesis using send_room [of c m] not_less by blast
next
  case (Some c')
  then show ?thesis using send_effect [of m c] by auto
qed

end

section \<open>A reference instance\<close>

record 'm list_channel =
  lc_items :: "'m list"
  lc_capacity :: nat
  lc_closed :: bool

definition list_channel :: "('m, 'm list_channel) channel_ops" where
  "list_channel =
     \<lparr>ch_bounded = (\<lambda>n. \<lparr>lc_items = [], lc_capacity = n, lc_closed = False\<rparr>),
      ch_send = (\<lambda>m c. if lc_closed c \<or> lc_capacity c \<le> length (lc_items c) then None
                        else Some (c\<lparr>lc_items := lc_items c @ [m]\<rparr>)),
      ch_recv = (\<lambda>c. case lc_items c of [] \<Rightarrow> None | m # ms \<Rightarrow> Some (m, c\<lparr>lc_items := ms\<rparr>)),
      ch_close = (\<lambda>c. c\<lparr>lc_closed := True\<rparr>),
      ch_closed = lc_closed,
      ch_full = (\<lambda>c. length (lc_items c) = lc_capacity c),
      ch_send_error = ''sending into a closed channel''\<rparr>"

interpretation list_channel: channel list_channel lc_items lc_capacity
  by unfold_locales (auto simp: list_channel_def split: if_splits list.splits)

end
