(* ===== verification/Processors.thy ===== *)
theory Processors
  imports Events
begin

text \<open>
  src/processors: the trait \<open>EventProcessor\<close> and its two implementations. Processing changes a world
  \<open>'w\<close> and may panic: \<open>DexProcessor\<close> changes the process-wide statistics and prints, modelled by the
  statistics and the list of printed lines with their values (their layout is not modelled).
\<close>

section \<open>The trait\<close>

datatype 'a completion = Completed 'a | Panic

record ('j, 'w) event_processor =
  p_should_process :: "'j solana_event \<Rightarrow> bool"
  p_process :: "'j solana_event \<Rightarrow> 'w \<Rightarrow> 'w \<times> (sdk_error + unit) completion"

text \<open>
  What the callers rely on: processing an event that the processor does not want is a success that
  changes nothing.
\<close>

locale guarded_processor =
  fixes P :: "('j, 'w) event_processor"
  assumes unwanted: "\<not> p_should_process P e \<Longrightarrow> p_process P e w = (w, Completed (Inr ()))"
begin

text \<open>So filtering a batch with \<open>should_process\<close> first gives the same world as processing it all.\<close>

fun process_all :: "'j solana_event list \<Rightarrow> 'w \<Rightarrow> 'w" where
  "process_all [] w = w"
| "process_all (e # es) w = process_all es (fst (p_process P e w))"

lemma process_all_filter: "process_all (filter (p_should_process P) es) w = process_all es w"
  by (induction es arbitrary: w) (simp_all add: unwanted)

end

section \<open>The DEX processor\<close>

record dex_processor =
  min_amount_usd :: f64
  target_programs :: "string list"

definition dex_processor_default :: dex_processor where
  "dex_processor_default =
     \<lparr>min_amount_usd = f_lit 1000,
      target_programs =
        [''6EF8rrecthR5Dkzon8Nwu78hRRfgKubJ14M5uBEwF6P'',
         ''675kPX9MHTjS2zt1qfr1NYHuzeLXfQM9H24wFSUt1Mp8'',
         ''CAMMCzo5YL8w4VFF8KVHrK22GGUsp5VTaW7grrKgrWqK'',
         ''pAMMBay6oceH9fJKBRHGP5D4bD4sWpmSwMn52FMfXEA'',
         ''whirLbMiicVdio4qvUfM5KAg6Ct8VwpYzGff3uctyCc'',
         ''JUP6LkbZbjS1jKKwapdHNy74zcZ3tLUZoi5QNyVTaV4'']\<rparr>"

definition dex_should_process :: "'j json_ops \<Rightarrow> dex_processor \<Rightarrow> 'j solana_event \<Rightarrow> bool" where
  "dex_should_process J p e =
     (if event_type e \<noteq> DexTrade then False
      else if target_programs p \<noteq> []
           \<and> (case program_id J e of
                Some event_program \<Rightarrow> \<not> list_ex (\<lambda>target. target = event_program) (target_programs p)
              | None \<Rightarrow> True)
      then False
      else if f_lt (f_lit 0) (min_amount_usd p) then
        (case (amount_base J e, price J e) of
           (Some base_amount, Some trade_price) \<Rightarrow>
             if f_le trade_price (f_lit 0) then False
             else (let trade_usd_value = f_mul base_amount trade_price
                   in if f_lt trade_usd_value (min_amount_usd p) then False else True)
         | _ \<Rightarrow> False)
      else True)"

record dex_stats =
  total_events :: u64
  pumpfun_trades :: u64
  other_dex_trades :: u64
  large_trades :: u64

datatype trade_side = SideBuy | SideSell | SideOther

datatype value_tier = Tier10000 | Tier5000 | Tier1000 | TierLow

datatype printed =
    QuickStats u64 u64 u64 u64
  | PumpHeader trade_side value_tier f64 string f64 f64
  | PumpSignature string nat
  | DexLine trade_side string f64 string string
  | WhaleAlert f64 bool
  | BigTrade f64 bool

record dex_world =
  stats :: dex_stats
  printed_lines :: "printed list"

definition pumpfun_program :: string where
  "pumpfun_program = ''6EF8rrecthR5Dkzon8Nwu78hRvfgKubJ14M5uBEwF6P''"

text \<open>
  \<open>&s[..8]\<close> on the UTF-8 bytes of a text: it panics when the text is shorter or a character spans
  the cut.
\<close>

definition prefix8 :: "string \<Rightarrow> string option" where
  "prefix8 s =
     (if length s = 8 \<or> 8 < length s \<and> \<not> (128 \<le> (of_char (s ! 8) :: nat) \<and> (of_char (s ! 8) :: nat) < 192)
      then Some (take 8 s) else None)"

definition trade_side_of :: "string \<Rightarrow> trade_side" where
  "trade_side_of side =
     (let lower = map ascii_lower side
      in if lower = ''buy'' then SideBuy else if lower = ''sell'' then SideSell else SideOther)"

definition value_tier_of :: "f64 \<Rightarrow> value_tier" where
  "value_tier_of usd =
     (if f_lt (f_lit 10000) usd then Tier10000
      else if f_lt (f_lit 5000) usd then Tier5000
      else if f_lt (f_lit 1000) usd then Tier1000
      else TierLow)"

definition usd_value :: "f64 \<Rightarrow> f64 \<Rightarrow> f64" where
  "usd_value amount_base_val price_val =
     (if f_lt (f_lit 0) price_val then f_mul amount_base_val price_val else f_lit 0)"

definition count_trade :: "bool \<Rightarrow> f64 \<Rightarrow> dex_stats \<Rightarrow> dex_stats" where
  "count_trade is_pumpfun calculated_usd_value s0 =
     (let s1 = s0\<lparr>total_events := total_events s0 + 1\<rparr>;
          s2 = (if is_pumpfun then s1\<lparr>pumpfun_trades := pumpfun_trades s1 + 1\<rparr>
                else s1\<lparr>other_dex_trades := other_dex_trades s1 + 1\<rparr>)
      in if f_lt (f_lit 1000) calculated_usd_value then s2\<lparr>large_trades := large_trades s2 + 1\<rparr> else s2)"

definition quick_stats :: "dex_stats \<Rightarrow> printed list" where
  "quick_stats s =
     (if total_events s mod 10 = 0 then
        [QuickStats (total_events s) (pumpfun_trades s) (other_dex_trades s) (large_trades s)]
      else [])"

definition trade_alert :: "f64 \<Rightarrow> bool \<Rightarrow> printed list" where
  "trade_alert usd is_pumpfun =
     (if f_lt (f_lit 1000000) usd then [WhaleAlert usd is_pumpfun]
      else if f_lt (f_lit 100000) usd then [BigTrade usd is_pumpfun]
      else [])"

definition dex_process ::
  "'j json_ops \<Rightarrow> nat \<Rightarrow> dex_processor \<Rightarrow> 'j solana_event \<Rightarrow> dex_world
   \<Rightarrow> dex_world \<times> (sdk_error + unit) completion" where
  "dex_process J unix_secs p e w =
     (if \<not> dex_should_process J p e then (w, Completed (Inr ()))
      else
        (let program = (case program_id J e of Some i \<Rightarrow> i | None \<Rightarrow> ''unknown_program'');
             amount_base_val = (case amount_base J e of Some a \<Rightarrow> a | None \<Rightarrow> f_lit 0);
             price_val = (case price J e of Some a \<Rightarrow> a | None \<Rightarrow> f_lit 0);
             market_address =
               (case get_data_string_field J ''market_address'' e of Some m \<Rightarrow> m | None \<Rightarrow> ''N/A'');
             side = (case get_data_string_field J ''side'' e of Some s \<Rightarrow> s | None \<Rightarrow> ''N/A'');
             calculated_usd_value = usd_value amount_base_val price_val;
             is_pumpfun = (program = pumpfun_program);
             st = count_trade is_pumpfun calculated_usd_value (stats w);
             out1 = printed_lines w @ quick_stats st
         in if is_pumpfun then
              (let out2 = out1 @ [PumpHeader (trade_side_of side) (value_tier_of calculated_usd_value)
                                    calculated_usd_value market_address amount_base_val price_val]
               in case prefix8 (signature e) of
                    None \<Rightarrow> (\<lparr>stats = st, printed_lines = out2\<rparr>, Panic)
                  | Some sig \<Rightarrow>
                      (\<lparr>stats = st,
                        printed_lines = out2 @ [PumpSignature sig unix_secs]
                          @ trade_alert calculated_usd_value is_pumpfun\<rparr>, Completed (Inr ())))
            else
              (case (prefix8 market_address, prefix8 (signature e)) of
                 (Some market, Some sig) \<Rightarrow>
                   (\<lparr>stats = st,
                     printed_lines = out1 @ [DexLine (trade_side_of side) side calculated_usd_value market sig]
                       @ trade_alert calculated_usd_value is_pumpfun\<rparr>, Completed (Inr ()))
               | _ \<Rightarrow> (\<lparr>stats = st, printed_lines = out1\<rparr>, Panic))))"

definition dex_event_processor ::
  "'j json_ops \<Rightarrow> nat \<Rightarrow> dex_processor \<Rightarrow> ('j, dex_world) event_processor" where
  "dex_event_processor J unix_secs p =
     \<lparr>p_should_process = dex_should_process J p, p_process = dex_process J unix_secs p\<rparr>"

interpretation dex: guarded_processor "dex_event_processor J unix_secs p"
  for J unix_secs p
  by unfold_locales (simp add: dex_event_processor_def dex_process_def)

section \<open>The transaction processor\<close>

text \<open>Its only effect is a log entry with the fields of the transaction.\<close>

record transaction_log =
  log_signature :: string
  log_slot :: u64
  log_timestamp :: string
  log_signer :: string
  log_fee :: u64
  log_instructions :: u64
  log_accounts :: u64

definition tx_should_process :: "'j solana_event \<Rightarrow> bool" where
  "tx_should_process e \<longleftrightarrow> event_type e = Transaction"

definition tx_process ::
  "'j json_ops \<Rightarrow> 'j solana_event \<Rightarrow> transaction_log list
   \<Rightarrow> transaction_log list \<times> (sdk_error + unit) completion" where
  "tx_process J e w =
     (if event_type e \<noteq> Transaction then (w, Completed (Inr ()))
      else
        (w @ [\<lparr>log_signature = signature e, log_slot = slot e, log_timestamp = timestamp e,
               log_signer = (case get_data_string_field J ''signer'' e of Some s \<Rightarrow> s | None \<Rightarrow> ''N/A''),
               log_fee = (case get_data_u64_field J ''fee'' e of Some n \<Rightarrow> n | None \<Rightarrow> 0),
               log_instructions =
                 (case get_data_u64_field J ''instructions_count'' e of Some n \<Rightarrow> n | None \<Rightarrow> 0),
               log_accounts =
                 (case get_data_u64_field J ''accounts_count'' e of Some n \<Rightarrow> n | None \<Rightarrow> 0)\<rparr>],
         Completed (Inr ())))"

definition tx_event_processor :: "'j json_ops \<Rightarrow> ('j, transaction_log list) event_processor" where
  "tx_event_processor J = \<lparr>p_should_process = tx_should_process, p_process = tx_process J\<rparr>"

interpretation tx: guarded_processor "tx_event_processor J"
  for J
  by unfold_locales (simp add: tx_event_processor_def tx_process_def tx_should_process_def)

section \<open>Properties of the DEX processor\<close>

lemma f_lit_0 [simp]: "f_lit 0 = Fin 0"
  by (simp add: f_lit_def)

lemma default_dex_processor_facts:
  shows "dex_should_process J dex_processor_default e \<longleftrightarrow>
     event_type e = DexTrade
     \<and> program_id J e \<in> Some ` set (target_programs dex_processor_default)
     \<and> (\<exists>a pr. amount_base J e = Some a \<and> price J e = Some pr
          \<and> \<not> f_le pr (Fin 0) \<and> \<not> f_lt (f_mul a pr) (Fin 1000))"
  and "pumpfun_trades (stats (fst (dex_process J now dex_processor_default e w))) = pumpfun_trades (stats w)"
proof -
  have lit: "f_lit 1000 = Fin 1000" by (simp add: f_lit_def rnd_numeral)
  show sp: "dex_should_process J dex_processor_default e \<longleftrightarrow>
     event_type e = DexTrade
     \<and> program_id J e \<in> Some ` set (target_programs dex_processor_default)
     \<and> (\<exists>a pr. amount_base J e = Some a \<and> price J e = Some pr
          \<and> \<not> f_le pr (Fin 0) \<and> \<not> f_lt (f_mul a pr) (Fin 1000))"
  proof -
    have "target_programs dex_processor_default \<noteq> []" "min_amount_usd dex_processor_default = Fin 1000"
      by (simp_all add: dex_processor_default_def lit)
    then show ?thesis
      by (auto simp: dex_should_process_def list_ex_iff Let_def split: option.splits if_splits)
  qed
  have differ: "pumpfun_program \<notin> set (target_programs dex_processor_default)"
    by (simp add: pumpfun_program_def dex_processor_default_def)
  show "pumpfun_trades (stats (fst (dex_process J now dex_processor_default e w))) = pumpfun_trades (stats w)"
  proof (cases "dex_should_process J dex_processor_default e")
    case False
    then show ?thesis by (simp add: dex_process_def)
  next
    case True
    with sp differ obtain i where "program_id J e = Some i" "i \<noteq> pumpfun_program" by auto
    then show ?thesis
      using True by (simp add: dex_process_def count_trade_def Let_def split: option.split)
  qed
qed

text \<open>
  The default DEX processor takes exactly the DEX trades of its six programs whose amount and
  price are present, with a price above 0 (or NaN) and a product in floating point that is not below
  1000; and it never counts one as a Pump.fun trade: the program id it targets and the one it
  compares with for the Pump.fun statistics differ in one character.
\<close>

theorem default_dex_processor:
  "(dex_should_process J dex_processor_default e \<longleftrightarrow>
     event_type e = DexTrade
     \<and> program_id J e \<in> Some ` set (target_programs dex_processor_default)
     \<and> (\<exists>a pr. amount_base J e = Some a \<and> price J e = Some pr
          \<and> \<not> f_le pr (Fin 0) \<and> \<not> f_lt (f_mul a pr) (Fin 1000)))
    \<and> (pumpfun_trades (stats (fst (dex_process J now dex_processor_default e w))) = pumpfun_trades (stats w))"
  by (intro conjI default_dex_processor_facts)

lemma program_or_unknown:
  "(case program_id J e of Some i \<Rightarrow> i | None \<Rightarrow> ''unknown_program'') = pumpfun_program
   \<longleftrightarrow> program_id J e = Some pumpfun_program"
proof -
  have "''unknown_program'' \<noteq> pumpfun_program" by (simp add: pumpfun_program_def)
  then show ?thesis by (cases "program_id J e") simp_all
qed

lemma dex_process_panics:
  assumes "dex_should_process J p e"
  shows "snd (dex_process J now p e w) = Panic \<longleftrightarrow>
      prefix8 (signature e) = None
      \<or> program_id J e \<noteq> Some pumpfun_program
        \<and> (case get_data_string_field J ''market_address'' e of None \<Rightarrow> True | Some m \<Rightarrow> prefix8 m = None)"
proof -
  have short: "prefix8 ''N/A'' = None" by (simp add: prefix8_def)
  obtain m where m: "(case get_data_string_field J ''market_address'' e of Some m \<Rightarrow> m | None \<Rightarrow> ''N/A'') = m"
    by blast
  then have "(case get_data_string_field J ''market_address'' e of None \<Rightarrow> True | Some m \<Rightarrow> prefix8 m = None)
      \<longleftrightarrow> prefix8 m = None"
    using short by (auto split: option.splits)
  then show ?thesis
    using assms
    by (cases "prefix8 (signature e)"; cases "prefix8 m")
       (simp_all add: dex_process_def program_or_unknown m Let_def)
qed

lemma dex_process_outcome_facts:
  assumes "dex_should_process J p e"
  shows "snd (dex_process J now p e w) = Panic \<longleftrightarrow>
      prefix8 (signature e) = None
      \<or> program_id J e \<noteq> Some pumpfun_program
        \<and> (case get_data_string_field J ''market_address'' e of None \<Rightarrow> True | Some m \<Rightarrow> prefix8 m = None)"
    and "let s = stats w; s' = stats (fst (dex_process J now p e w))
      in total_events s' = total_events s + 1
       \<and> pumpfun_trades s' + other_dex_trades s' = pumpfun_trades s + other_dex_trades s + 1"
  using dex_process_panics [OF assms] assms
  by (simp_all add: dex_process_def program_or_unknown count_trade_def Let_def split: option.split)

text \<open>
  A wanted trade makes the processor panic exactly when the first eight bytes of the signature,
  or (for a trade that is not Pump.fun's) of the market address, cannot be cut off; the market
  address is \<open>N/A\<close> when the event has none, which is too short, so every such trade panics. The
  statistics are changed all the same: each wanted trade counts once in the total and once in one of
  the two classes.
\<close>

theorem dex_process_outcome:
  assumes "dex_should_process J p e"
  shows "(snd (dex_process J now p e w) = Panic \<longleftrightarrow>
      prefix8 (signature e) = None
      \<or> program_id J e \<noteq> Some pumpfun_program
        \<and> (case get_data_string_field J ''market_address'' e of None \<Rightarrow> True | Some m \<Rightarrow> prefix8 m = None))
    \<and> (let s = stats w; s' = stats (fst (dex_process J now p e w))
      in total_events s' = total_events s + 1
       \<and> pumpfun_trades s' + other_dex_trades s' = pumpfun_trades s + other_dex_trades s + 1)"
  by (intro conjI dex_process_outcome_facts [OF assms])

definition sample_trade :: "(string \<times> json) list \<Rightarrow> json solana_event" where
  "sample_trade members =
     \<lparr>event_type = DexTrade, slot = 7, signature = ''3f2a9c01d4'', timestamp = ''1700000000'',
      data = JObject members\<rparr>"

theorem dex_process_outcome_witness:
  "\<exists>p e. dex_should_process json_tree p e
     \<and> snd (dex_process json_tree 0 p e \<lparr>stats = \<lparr>total_events = 0, pumpfun_trades = 0,
          other_dex_trades = 0, large_trades = 0\<rparr>, printed_lines = []\<rparr>) = Panic"
proof -
  let ?p = "\<lparr>min_amount_usd = Fin 0, target_programs = []\<rparr>"
  let ?e = "sample_trade [(''program_id'', JString ''X'')]"
  have want: "dex_should_process json_tree ?p ?e"
    by (simp add: dex_should_process_def sample_trade_def)
  have "get_data_string_field json_tree ''market_address'' ?e = None" "program_id json_tree ?e = Some ''X''"
    by (simp_all add: sample_trade_def json_tree_def event_field_defs)
  then show ?thesis
    using dex_process_outcome [OF want, THEN conjunct1] want by (intro exI conjI) (assumption, simp add: pumpfun_program_def)
qed

end
