(* ===== verification/Batch.thy ===== *)
theory Batch
  imports Channel Processors Resources
begin

text \<open>
  src/batch_processor.rs: the event channel, the collector task that forms batches, the batch channel
  and the worker tasks. Every task advances in atomic operations, between two awaits; the system is a
  transition relation in which the tasks, the callers of \<open>add_event\<close> and the clock interleave freely.
  Logging and timers are left out. The fields \<open>accepted\<close>, \<open>taken\<close> and \<open>lost\<close> are history for the
  proofs and are never read.
\<close>

section \<open>State\<close>

datatype send_reason = FullBatch | FinalBatch | TimedOut

datatype 'e collector_mode = Collecting | Sending send_reason "'e list" | Stopped

text \<open>\<open>loop_entered\<close> is the instant at which the current iteration computed \<open>elapsed()\<close>.\<close>

record 'e collector_task =
  current_batch :: "'e list"
  last_activity :: instant
  loop_entered :: instant
  collector_mode :: "'e collector_mode"

text \<open>A worker is processing a batch of the given length, with the events left and its two counts.\<close>

datatype 'e worker =
    Idle
  | Working (batch_len: nat) (todo: "'e list") (succeeded: nat) (failed: nat)
  | WorkerStopped
  | Dead (dead_len: nat)

record ('e, 'ec, 'bc, 'w) batch_processor =
  bp_batch_size :: usize
  bp_batch_timeout :: duration
  event_channel :: 'ec
  batch_channel :: 'bc
  bp_resources :: resource_manager
  collector :: "'e collector_task"
  workers :: "'e worker list"
  bp_world :: 'w
  accepted :: "'e list"
  taken :: "'e list list"
  lost :: "'e list"

definition batch_processor_new ::
  "('e, 'ec) channel_ops \<Rightarrow> ('e list, 'bc) channel_ops \<Rightarrow> processing_config \<Rightarrow> resource_manager
   \<Rightarrow> usize \<Rightarrow> instant \<Rightarrow> 'w \<Rightarrow> ('e, 'ec, 'bc, 'w) batch_processor" where
  "batch_processor_new E B cfg rm queue_size now w =
     (let worker_batch_queue_capacity = max (parallel_workers cfg * 2) 10
      in \<lparr>bp_batch_size = batch_size cfg, bp_batch_timeout = batch_timeout cfg,
          event_channel = ch_bounded E (unat queue_size),
          batch_channel =
            (let c = ch_bounded B (unat worker_batch_queue_capacity)
             in if parallel_workers cfg = 0 then ch_close B c else c),
          bp_resources = rm,
          collector = \<lparr>current_batch = [], last_activity = now, loop_entered = now, collector_mode = Collecting\<rparr>,
          workers = replicate (unat (parallel_workers cfg)) Idle,
          bp_world = w, accepted = [], taken = [], lost = []\<rparr>)"

section \<open>The collector\<close>

definition collector_on_event :: "nat \<Rightarrow> instant \<Rightarrow> instant \<Rightarrow> 'e \<Rightarrow> 'e collector_task \<Rightarrow> 'e collector_task" where
  "collector_on_event max_batch_size now next event c =
     (let batch = current_batch c @ [event];
          c1 = c\<lparr>last_activity := now, loop_entered := next\<rparr>
      in if max_batch_size \<le> length batch then c1\<lparr>current_batch := [], collector_mode := Sending FullBatch batch\<rparr>
         else c1\<lparr>current_batch := batch\<rparr>)"

definition collector_on_closed :: "'e collector_task \<Rightarrow> 'e collector_task" where
  "collector_on_closed c =
     (if current_batch c \<noteq> [] then
        c\<lparr>current_batch := [], collector_mode := Sending FinalBatch (current_batch c)\<rparr>
      else c\<lparr>collector_mode := Stopped\<rparr>)"

definition remaining_timeout :: "duration \<Rightarrow> 'e collector_task \<Rightarrow> duration" where
  "remaining_timeout batch_creation_timeout c =
     batch_creation_timeout - (loop_entered c - last_activity c)"

definition timeout_enabled :: "duration \<Rightarrow> instant \<Rightarrow> 'e collector_task \<Rightarrow> bool" where
  "timeout_enabled batch_creation_timeout now c \<longleftrightarrow>
     current_batch c \<noteq> [] \<and> 0 < remaining_timeout batch_creation_timeout c
     \<and> loop_entered c + remaining_timeout batch_creation_timeout c \<le> now"

definition collector_on_timeout :: "'e collector_task \<Rightarrow> 'e collector_task" where
  "collector_on_timeout c =
     c\<lparr>current_batch := [], collector_mode := Sending TimedOut (current_batch c)\<rparr>"

fun collector_sent :: "instant \<Rightarrow> instant \<Rightarrow> send_reason \<Rightarrow> 'e collector_task \<Rightarrow> 'e collector_task" where
  "collector_sent now next FullBatch c = c\<lparr>collector_mode := Collecting, loop_entered := next\<rparr>"
| "collector_sent now next FinalBatch c = c\<lparr>collector_mode := Stopped\<rparr>"
| "collector_sent now next TimedOut c =
     c\<lparr>collector_mode := Collecting, last_activity := now, loop_entered := next\<rparr>"

section \<open>The workers\<close>

definition worker_start :: "'e list \<Rightarrow> resource_manager \<Rightarrow> 'e worker \<times> resource_manager" where
  "worker_start event_batch rm =
     (if event_batch = [] then (Idle, rm)
      else (Working (length event_batch) event_batch 0 0,
            start_processing (of_nat (length event_batch)) rm))"

text \<open>One event of the batch: a panic of the processor ends the worker's task.\<close>

definition worker_event ::
  "('j, 'w) event_processor \<Rightarrow> nat \<Rightarrow> 'j solana_event \<Rightarrow> 'j solana_event list \<Rightarrow> nat \<Rightarrow> nat \<Rightarrow> 'w
   \<Rightarrow> 'j solana_event worker \<times> 'w" where
  "worker_event P n event rest ok fail w =
     (if p_should_process P event then
        (case p_process P event w of
           (w', Completed (Inr _)) \<Rightarrow> (Working n rest (ok + 1) fail, w')
         | (w', Completed (Inl e)) \<Rightarrow> (Working n rest ok (fail + 1), w')
         | (w', Panic) \<Rightarrow> (Dead n, w'))
      else (Working n rest ok fail, w))"

definition worker_finish :: "nat \<Rightarrow> resource_manager \<Rightarrow> 'e worker \<times> resource_manager" where
  "worker_finish n rm = (Idle, complete_processing (of_nat n) rm)"

fun is_dead :: "'e worker \<Rightarrow> bool" where
  "is_dead (Dead _) = True"
| "is_dead _ = False"

section \<open>The operations of the system\<close>

type_synonym ('j, 'ec, 'bc, 'w) bp = "('j solana_event, 'ec, 'bc, 'w) batch_processor"

text \<open>\<open>add_event\<close> waits (\<open>None\<close>) while the channel is full and fails once it is closed.\<close>

definition add_event ::
  "('e, 'ec) channel_ops \<Rightarrow> 'e \<Rightarrow> ('e, 'ec, 'bc, 'w) batch_processor
   \<Rightarrow> (('e, 'ec, 'bc, 'w) batch_processor \<times> (sdk_error + unit)) option" where
  "add_event E event s =
     (if ch_closed E (event_channel s) then
        Some (s, Inl (ChannelError (''Failed to send event to collector task: '' @ ch_send_error E)))
      else
        (case ch_send E event (event_channel s) of
           None \<Rightarrow> None
         | Some c \<Rightarrow> Some (s\<lparr>event_channel := c, accepted := accepted s @ [event]\<rparr>, Inr ())))"

text \<open>A stopped collector drops the only receiver of the event channel, which closes it.\<close>

definition set_collector ::
  "('e, 'ec) channel_ops \<Rightarrow> 'e collector_task \<Rightarrow> ('e, 'ec, 'bc, 'w) batch_processor
   \<Rightarrow> ('e, 'ec, 'bc, 'w) batch_processor" where
  "set_collector E c s =
     (if collector_mode c = Stopped then s\<lparr>collector := c, event_channel := ch_close E (event_channel s)\<rparr>
      else s\<lparr>collector := c\<rparr>)"

definition collector_recv ::
  "('e, 'ec) channel_ops \<Rightarrow> instant \<Rightarrow> instant \<Rightarrow> ('e, 'ec, 'bc, 'w) batch_processor
   \<Rightarrow> ('e, 'ec, 'bc, 'w) batch_processor option" where
  "collector_recv E now next s =
     (if collector_mode (collector s) \<noteq> Collecting then None
      else
        (case ch_recv E (event_channel s) of
           Some (event, c) \<Rightarrow>
             Some (set_collector E
               (collector_on_event (unat (bp_batch_size s)) now next event (collector s)) (s\<lparr>event_channel := c\<rparr>))
         | None \<Rightarrow>
             if ch_closed E (event_channel s) then
               Some (set_collector E (collector_on_closed (collector s)) s)
             else None))"

text \<open>The \<open>select!\<close> is biased: the timeout fires only while no event is there to receive.\<close>

definition collector_timeout ::
  "('e, 'ec) channel_ops \<Rightarrow> instant \<Rightarrow> ('e, 'ec, 'bc, 'w) batch_processor
   \<Rightarrow> ('e, 'ec, 'bc, 'w) batch_processor option" where
  "collector_timeout E now s =
     (if collector_mode (collector s) \<noteq> Collecting \<or> ch_recv E (event_channel s) \<noteq> None
         \<or> ch_closed E (event_channel s) \<or> \<not> timeout_enabled (bp_batch_timeout s) now (collector s)
      then None
      else Some (s\<lparr>collector := collector_on_timeout (collector s)\<rparr>))"

definition collector_send ::
  "('e, 'ec) channel_ops \<Rightarrow> ('e list, 'bc) channel_ops \<Rightarrow> instant \<Rightarrow> instant
   \<Rightarrow> ('e, 'ec, 'bc, 'w) batch_processor \<Rightarrow> ('e, 'ec, 'bc, 'w) batch_processor option" where
  "collector_send E B now next s =
     (case collector_mode (collector s) of
        Sending reason batch \<Rightarrow>
          if ch_closed B (batch_channel s) then
            Some (set_collector E ((collector s)\<lparr>collector_mode := Stopped\<rparr>) (s\<lparr>lost := lost s @ batch\<rparr>))
          else
            (case ch_send B batch (batch_channel s) of
               None \<Rightarrow> None
             | Some c \<Rightarrow>
                 Some (set_collector E (collector_sent now next reason (collector s)) (s\<lparr>batch_channel := c\<rparr>)))
      | _ \<Rightarrow> None)"

definition worker_take ::
  "('e list, 'bc) channel_ops \<Rightarrow> nat \<Rightarrow> ('e, 'ec, 'bc, 'w) batch_processor
   \<Rightarrow> ('e, 'ec, 'bc, 'w) batch_processor option" where
  "worker_take B i s =
     (if i < length (workers s) \<and> workers s ! i = Idle then
        (case ch_recv B (batch_channel s) of
           Some (event_batch, c) \<Rightarrow>
             (let (wk, rm) = worker_start event_batch (bp_resources s)
              in Some (s\<lparr>batch_channel := c, workers := (workers s)[i := wk], bp_resources := rm,
                         taken := taken s @ [event_batch]\<rparr>))
         | None \<Rightarrow>
             if ch_closed B (batch_channel s) then Some (s\<lparr>workers := (workers s)[i := WorkerStopped]\<rparr>)
             else None)
      else None)"

text \<open>When the last worker is gone no receiver of the batch channel is left, which closes it.\<close>

definition worker_step ::
  "('j solana_event list, 'bc) channel_ops \<Rightarrow> ('j, 'w) event_processor \<Rightarrow> nat \<Rightarrow> ('j, 'ec, 'bc, 'w) bp
   \<Rightarrow> ('j, 'ec, 'bc, 'w) bp option" where
  "worker_step B P i s =
     (if i < length (workers s) then
        (case workers s ! i of
           Working n [] ok fail \<Rightarrow>
             (let (wk, rm) = worker_finish n (bp_resources s)
              in Some (s\<lparr>workers := (workers s)[i := wk], bp_resources := rm\<rparr>))
         | Working n (event # rest) ok fail \<Rightarrow>
             (let (wk, w) = worker_event P n event rest ok fail (bp_world s);
                  s1 = s\<lparr>workers := (workers s)[i := wk], bp_world := w\<rparr>
              in Some (if list_all is_dead (workers s1) then s1\<lparr>batch_channel := ch_close B (batch_channel s1)\<rparr>
                       else s1))
         | _ \<Rightarrow> None)
      else None)"

definition bp_shutdown ::
  "('e, 'ec) channel_ops \<Rightarrow> ('e, 'ec, 'bc, 'w) batch_processor \<Rightarrow> ('e, 'ec, 'bc, 'w) batch_processor" where
  "bp_shutdown E s = s\<lparr>event_channel := ch_close E (event_channel s)\<rparr>"

text \<open>
  The operations of the whole system. The consumer shares the resource manager and checks it.
\<close>

datatype 'e bp_op =
    AddEvent 'e
  | CollectorRecv instant instant
  | CollectorTimeout instant
  | CollectorSend instant instant
  | WorkerTake nat
  | WorkerStep nat
  | Shutdown
  | CheckResources

fun bp_exec ::
  "('j solana_event, 'ec) channel_ops \<Rightarrow> ('j solana_event list, 'bc) channel_ops \<Rightarrow> ('j, 'w) event_processor
   \<Rightarrow> 'j solana_event bp_op \<Rightarrow> ('j, 'ec, 'bc, 'w) bp \<Rightarrow> ('j, 'ec, 'bc, 'w) bp option" where
  "bp_exec E B P (AddEvent e) s = map_option fst (add_event E e s)"
| "bp_exec E B P (CollectorRecv now next) s = collector_recv E now next s"
| "bp_exec E B P (CollectorTimeout now) s = collector_timeout E now s"
| "bp_exec E B P (CollectorSend now next) s = collector_send E B now next s"
| "bp_exec E B P (WorkerTake i) s = worker_take B i s"
| "bp_exec E B P (WorkerStep i) s = worker_step B P i s"
| "bp_exec E B P Shutdown s = Some (bp_shutdown E s)"
| "bp_exec E B P CheckResources s = Some (s\<lparr>bp_resources := fst (check_resources (bp_resources s))\<rparr>)"

inductive bp_reachable ::
  "('j solana_event, 'ec) channel_ops \<Rightarrow> ('j solana_event list, 'bc) channel_ops \<Rightarrow> ('j, 'w) event_processor
   \<Rightarrow> ('j, 'ec, 'bc, 'w) bp \<Rightarrow> ('j, 'ec, 'bc, 'w) bp \<Rightarrow> bool"
  for E B P s0 where
  init: "bp_reachable E B P s0 s0"
| step: "bp_reachable E B P s0 s \<Longrightarrow> bp_exec E B P op s = Some s' \<Longrightarrow> bp_reachable E B P s0 s'"


section \<open>Invariants\<close>

fun pending_batch :: "'e collector_mode \<Rightarrow> 'e list" where
  "pending_batch (Sending _ batch) = batch"
| "pending_batch _ = []"

fun worker_load :: "'e worker \<Rightarrow> nat" where
  "worker_load (Working n _ _ _) = n"
| "worker_load (Dead n) = n"
| "worker_load _ = 0"

definition total_load :: "'e worker list \<Rightarrow> nat" where
  "total_load ws = sum_list (map worker_load ws)"

lemma total_load_update:
  "i < length ws \<Longrightarrow> total_load (ws[i := x]) + worker_load (ws ! i) = total_load ws + worker_load x"
proof (induction ws arbitrary: i)
  case (Cons y ws)
  then show ?case by (cases i) (auto simp: total_load_def)
qed simp

lemma flight_update:
  assumes "i < length ws" "m = of_nat (total_load ws)"
  shows "m + of_nat (worker_load x) - of_nat (worker_load (ws ! i)) = (of_nat (total_load (ws[i := x])) :: usize)"
proof -
  have "(of_nat (total_load (ws[i := x]) + worker_load (ws ! i)) :: usize) = of_nat (total_load ws + worker_load x)"
    using total_load_update [OF assms(1)] by simp
  then show ?thesis by (simp add: assms(2) algebra_simps)
qed

locale batch_channels = ev: channel E econt ecap + bt: channel B bcont bcap
  for E :: "('j solana_event, 'ec) channel_ops" and econt ecap
    and B :: "('j solana_event list, 'bc) channel_ops" and bcont bcap
begin

text \<open>Where the accepted events are, in the order of acceptance.\<close>

definition located :: "('j, 'ec, 'bc, 'w) bp \<Rightarrow> bool" where
  "located s \<longleftrightarrow>
     accepted s = concat (taken s @ bcont (batch_channel s)) @ lost s
       @ pending_batch (collector_mode (collector s)) @ current_batch (collector s) @ econt (event_channel s)
     \<and> (lost s \<noteq> [] \<longrightarrow> collector_mode (collector s) = Stopped)
     \<and> (collector_mode (collector s) \<noteq> Collecting \<longrightarrow> current_batch (collector s) = [])"

definition sized :: "('j, 'ec, 'bc, 'w) bp \<Rightarrow> bool" where
  "sized s \<longleftrightarrow>
     length (current_batch (collector s)) < max 1 (unat (bp_batch_size s))
     \<and> (\<forall>b \<in> set (taken s) \<union> set (bcont (batch_channel s)). b \<noteq> [] \<and> length b \<le> max 1 (unat (bp_batch_size s)))
     \<and> (\<forall>reason b. collector_mode (collector s) = Sending reason b \<longrightarrow>
          b \<noteq> [] \<and> length b \<le> max 1 (unat (bp_batch_size s)))"

definition counted :: "('j, 'ec, 'bc, 'w) bp \<Rightarrow> bool" where
  "counted s \<longleftrightarrow>
     messages_in_flight (bp_resources s) = of_nat (total_load (workers s))
     \<and> (\<forall>w \<in> set (workers s). worker_load w \<le> max 1 (unat (bp_batch_size s)))"

text \<open>The batch channel is closed only when every worker is dead, and only then is a batch lost.\<close>

definition closing :: "('j, 'ec, 'bc, 'w) bp \<Rightarrow> bool" where
  "closing s \<longleftrightarrow>
     (ch_closed B (batch_channel s) \<longrightarrow> list_all is_dead (workers s))
     \<and> (lost s \<noteq> [] \<longrightarrow> list_all is_dead (workers s))
     \<and> WorkerStopped \<notin> set (workers s)"

definition bp_inv :: "('j, 'ec, 'bc, 'w) bp \<Rightarrow> bool" where
  "bp_inv s \<longleftrightarrow> located s \<and> sized s \<and> counted s \<and> closing s"

lemmas bp_inv_defs = bp_inv_def located_def sized_def counted_def closing_def

lemma inv_add_event:
  assumes "bp_inv s" "add_event E e s = Some (s', r)"
  shows "bp_inv s'"
proof (cases "ch_closed E (event_channel s)")
  case True
  then show ?thesis using assms by (simp add: add_event_def)
next
  case False
  then obtain c where c: "ch_send E e (event_channel s) = Some c"
    and s': "s' = s\<lparr>event_channel := c, accepted := accepted s @ [e]\<rparr>"
    using assms(2) by (auto simp: add_event_def split: option.splits)
  show ?thesis
    using assms(1) ev.send_effect [OF c] unfolding s' bp_inv_defs by simp
qed

lemma collector_on_event_modes:
  "collector_mode (collector_on_event n now next e c) =
     (if n \<le> length (current_batch c) + 1 then Sending FullBatch (current_batch c @ [e]) else collector_mode c)"
  "current_batch (collector_on_event n now next e c) =
     (if n \<le> length (current_batch c) + 1 then [] else current_batch c @ [e])"
  by (simp_all add: collector_on_event_def Let_def)

lemma inv_collector_recv:
  assumes "bp_inv s" "collector_recv E now next s = Some s'"
  shows "bp_inv s'"
proof -
  have mode: "collector_mode (collector s) = Collecting"
    using assms(2) by (simp add: collector_recv_def split: if_splits)
  then have lost: "lost s = []" using assms(1) by (auto simp: bp_inv_defs)
  show ?thesis
  proof (cases "ch_recv E (event_channel s)")
    case None
    then show ?thesis
      using assms mode ev.recv_none [of "event_channel s"] ev.close_effect
      by (auto simp: bp_inv_defs collector_recv_def set_collector_def collector_on_closed_def split: if_splits)
  next
    case (Some p)
    then obtain e c where p: "ch_recv E (event_channel s) = Some (e, c)" by (cases p) simp
    then have s': "s' = s\<lparr>event_channel := c,
        collector := collector_on_event (unat (bp_batch_size s)) now next e (collector s)\<rparr>"
      using assms(2) mode by (simp add: collector_recv_def set_collector_def collector_on_event_modes split: if_splits)
    show ?thesis
      using assms(1) mode lost ev.recv_effect [OF p]
      unfolding s' bp_inv_defs by (auto simp: collector_on_event_modes max_def split: if_splits)
  qed
qed

lemma inv_collector_timeout: "bp_inv s \<Longrightarrow> collector_timeout E now s = Some s' \<Longrightarrow> bp_inv s'"
  by (auto simp: bp_inv_defs collector_timeout_def timeout_enabled_def collector_on_timeout_def split: if_splits)

lemma inv_collector_send:
  assumes "bp_inv s" "collector_send E B now next s = Some s'"
  shows "bp_inv s'"
proof -
  obtain reason batch where mode: "collector_mode (collector s) = Sending reason batch"
    using assms(2) by (auto simp: collector_send_def split: collector_mode.splits)
  then have rest: "lost s = []" "current_batch (collector s) = []" using assms(1) by (auto simp: bp_inv_defs)
  show ?thesis
  proof (cases "ch_closed B (batch_channel s)")
    case True
    then have s': "s' = set_collector E ((collector s)\<lparr>collector_mode := Stopped\<rparr>) (s\<lparr>lost := lost s @ batch\<rparr>)"
      using assms(2) mode by (simp add: collector_send_def)
    show ?thesis
      using assms(1) mode rest True ev.close_effect [of "event_channel s"]
      unfolding s' bp_inv_defs set_collector_def by auto
  next
    case False
    then obtain c where c: "ch_send B batch (batch_channel s) = Some c"
      and s': "s' = set_collector E (collector_sent now next reason (collector s)) (s\<lparr>batch_channel := c\<rparr>)"
      using assms(2) mode by (auto simp: collector_send_def split: option.splits)
    show ?thesis
      using assms(1) mode rest bt.send_effect [OF c] ev.close_effect [of "event_channel s"]
      unfolding s' bp_inv_defs set_collector_def by (cases reason) auto
  qed
qed

lemma inv_worker_take:
  assumes "bp_inv s" "worker_take B i s = Some s'"
  shows "bp_inv s'"
proof -
  have i: "i < length (workers s)" "workers s ! i = Idle"
    using assms(2) by (auto simp: worker_take_def split: if_splits)
  then have alive: "\<not> list_all is_dead (workers s)" by (metis is_dead.simps(2) list_all_length)
  then have op: "\<not> ch_closed B (batch_channel s)" and lost: "lost s = []"
    using assms(1) by (auto simp: bp_inv_defs)
  obtain b c where r: "ch_recv B (batch_channel s) = Some (b, c)"
    using assms(2) i op by (auto simp: worker_take_def split: option.splits)
  have b: "b \<noteq> []" "length b \<le> max 1 (unat (bp_batch_size s))"
    using assms(1) bt.recv_effect [OF r] by (auto simp: bp_inv_defs)
  have s': "s' = s\<lparr>batch_channel := c, workers := (workers s)[i := Working (length b) b 0 0],
      bp_resources := start_processing (of_nat (length b)) (bp_resources s), taken := taken s @ [b]\<rparr>"
    using assms(2) i r b by (simp add: worker_take_def worker_start_def)
  have load: "messages_in_flight (bp_resources s) + of_nat (length b)
      = of_nat (total_load ((workers s)[i := Working (length b) b 0 0]))"
    using flight_update [OF i(1), of "messages_in_flight (bp_resources s)" "Working (length b) b 0 0"] assms(1) i(2)
    by (simp add: bp_inv_defs)
  show ?thesis
    using assms(1) bt.recv_effect [OF r] b lost op load
    unfolding s' bp_inv_defs by (auto simp: start_processing_def dest!: set_update_subset_insert [THEN subsetD])
qed

lemma complete_processing_flight:
  "messages_in_flight (complete_processing n m) = messages_in_flight m - n"
  by (simp add: model_defs)

lemma dead_update_Idle: "i < length ws \<Longrightarrow> \<not> is_dead x \<Longrightarrow> \<not> list_all is_dead (ws[i := x])"
  by (metis length_list_update list_all_length nth_list_update_eq)

lemma inv_worker_finish:
  assumes "bp_inv s" "i < length (workers s)" "workers s ! i = Working n [] ok fail"
  shows "bp_inv (s\<lparr>workers := (workers s)[i := Idle],
    bp_resources := complete_processing (of_nat n) (bp_resources s)\<rparr>)"
proof -
  have "\<not> list_all is_dead (workers s)" using assms(2,3) by (metis is_dead.simps(3) list_all_length)
  then have op: "\<not> ch_closed B (batch_channel s)" "lost s = []"
    using assms(1) by (auto simp: bp_inv_defs)
  have load: "messages_in_flight (bp_resources s) - of_nat n = of_nat (total_load ((workers s)[i := Idle]))"
    using flight_update [OF assms(2), of "messages_in_flight (bp_resources s)" Idle] assms(1,3)
    by (simp add: bp_inv_defs)
  show ?thesis
    using assms(1) op load unfolding bp_inv_defs
    by (auto simp: complete_processing_flight dest!: set_update_subset_insert [THEN subsetD])
qed

lemma inv_worker_event:
  assumes "bp_inv s" "i < length (workers s)" "worker_load (workers s ! i) = worker_load wk"
    "wk \<noteq> WorkerStopped" "\<not> is_dead (workers s ! i)"
  shows "bp_inv (s\<lparr>workers := (workers s)[i := wk], bp_world := w\<rparr>)"
proof -
  have "\<not> list_all is_dead (workers s)" using assms(2,5) by (metis list_all_length)
  then have op: "\<not> ch_closed B (batch_channel s)" "lost s = []"
    using assms(1) by (auto simp: bp_inv_defs)
  have load: "messages_in_flight (bp_resources s) = of_nat (total_load ((workers s)[i := wk]))"
    using flight_update [OF assms(2), of "messages_in_flight (bp_resources s)" wk] assms(1,3)
    by (simp add: bp_inv_defs)
  have "worker_load wk \<le> max 1 (unat (bp_batch_size s))"
    using assms(1-3) by (metis bp_inv_def counted_def nth_mem)
  then show ?thesis
    using assms(1,4) op load unfolding bp_inv_defs
    by (auto dest!: set_update_subset_insert [THEN subsetD])
qed

lemma inv_close_batches:
  "bp_inv s \<Longrightarrow> list_all is_dead (workers s) \<Longrightarrow> bp_inv (s\<lparr>batch_channel := ch_close B (batch_channel s)\<rparr>)"
  using bt.close_effect [of "batch_channel s"] unfolding bp_inv_defs by simp

lemma worker_event_load:
  "worker_event P n e rest ok fail w = (wk, w') \<Longrightarrow> worker_load wk = n \<and> wk \<noteq> WorkerStopped"
  by (auto simp: worker_event_def split: if_splits prod.splits completion.splits sum.splits)

lemma inv_worker_step:
  assumes "bp_inv s" "worker_step B P i s = Some s'"
  shows "bp_inv s'"
proof -
  have i: "i < length (workers s)" using assms(2) by (simp add: worker_step_def split: if_splits)
  then obtain n es ok fail where wi: "workers s ! i = Working n es ok fail"
    using assms(2) by (auto simp: worker_step_def split: worker.splits)
  show ?thesis
  proof (cases es)
    case Nil
    then show ?thesis
      using inv_worker_finish [OF assms(1) i] assms(2) i wi by (simp add: worker_step_def worker_finish_def)
  next
    case (Cons e rest)
    obtain wk w where ev: "worker_event P n e rest ok fail (bp_world s) = (wk, w)" by fastforce
    let ?s = "s\<lparr>workers := (workers s)[i := wk], bp_world := w\<rparr>"
    have inv: "bp_inv ?s"
      using worker_event_load [OF ev] wi by (intro inv_worker_event assms(1) i) simp_all
    have "s' = (if list_all is_dead (workers ?s) then ?s\<lparr>batch_channel := ch_close B (batch_channel ?s)\<rparr> else ?s)"
      using assms(2) i wi Cons ev by (simp add: worker_step_def Let_def)
    then show ?thesis using inv inv_close_batches [OF inv] by simp
  qed
qed

lemma inv_shutdown: "bp_inv s \<Longrightarrow> bp_inv (bp_shutdown E s)"
  using ev.close_effect [of "event_channel s"] unfolding bp_inv_defs bp_shutdown_def by simp

lemma check_resources_flight: "messages_in_flight (fst (check_resources m)) = messages_in_flight m"
  by (simp add: model_defs)

lemma inv_check: "bp_inv s \<Longrightarrow> bp_inv (s\<lparr>bp_resources := fst (check_resources (bp_resources s))\<rparr>)"
  unfolding bp_inv_defs by (simp add: check_resources_flight)

lemma inv_exec: "bp_inv s \<Longrightarrow> bp_exec E B P op s = Some s' \<Longrightarrow> bp_inv s'"
  by (cases op)
     (auto intro: inv_add_event inv_collector_recv inv_collector_timeout inv_collector_send inv_worker_take
        inv_worker_step inv_shutdown inv_check)

lemma inv_new:
  assumes "queue_size \<noteq> 0" "messages_in_flight rm = 0"
  shows "bp_inv (batch_processor_new E B cfg rm queue_size now w)"
proof -
  have q: "0 < unat queue_size" using assms(1) by (simp add: unat_gt_0)
  have "(10 :: usize) \<le> max (parallel_workers cfg * 2) 10" by (rule max.cobounded2)
  then have c: "0 < unat (max (parallel_workers cfg * 2) 10)" by (simp add: word_le_nat_alt)
  have load: "total_load (replicate n Idle) = 0" for n by (simp add: total_load_def sum_list_replicate)
  show ?thesis
    using ev.bounded [OF q] bt.bounded [OF c] bt.close_effect assms(2)
    unfolding bp_inv_defs batch_processor_new_def Let_def
    by (auto simp: load list_all_length)
qed

lemma inv_reachable: "bp_reachable E B P s0 s \<Longrightarrow> bp_inv s0 \<Longrightarrow> bp_inv s"
  by (induction rule: bp_reachable.induct) (auto intro: inv_exec)

text \<open>One worker: what it has done is the sequential processing of a prefix of the taken events.\<close>

definition sequential :: "('j, 'w) event_processor \<Rightarrow> 'w \<Rightarrow> ('j, 'ec, 'bc, 'w) bp \<Rightarrow> bool" where
  "sequential P w0 s \<longleftrightarrow> length (workers s) = 1 \<and>
     (\<exists>h r. concat (taken s) = h @ r \<and> bp_world s = fold (\<lambda>e w. fst (p_process P e w)) h w0
        \<and> (is_dead (workers s ! 0) \<or> r = (case workers s ! 0 of Working n es ok fail \<Rightarrow> es | _ \<Rightarrow> [])))"

lemma sequential_frame:
  "sequential P w0 s \<Longrightarrow> workers s' = workers s \<Longrightarrow> taken s' = taken s \<Longrightarrow> bp_world s' = bp_world s \<Longrightarrow>
   sequential P w0 s'"
  by (simp add: sequential_def)

lemma collector_frame:
  "add_event E e s = Some (s', r) \<Longrightarrow> workers s' = workers s \<and> taken s' = taken s \<and> bp_world s' = bp_world s"
  "collector_recv E now next s = Some s' \<Longrightarrow> workers s' = workers s \<and> taken s' = taken s \<and> bp_world s' = bp_world s"
  "collector_timeout E now s = Some s' \<Longrightarrow> workers s' = workers s \<and> taken s' = taken s \<and> bp_world s' = bp_world s"
  "collector_send E B now next s = Some s' \<Longrightarrow> workers s' = workers s \<and> taken s' = taken s \<and> bp_world s' = bp_world s"
     apply (auto simp: add_event_def split: if_splits option.splits) [1]
    apply (auto simp: collector_recv_def set_collector_def split: if_splits option.splits) [1]
   apply (auto simp: collector_timeout_def split: if_splits) [1]
  apply (auto simp: collector_send_def set_collector_def split: if_splits option.splits collector_mode.splits)
  done

lemma sequential_take:
  assumes "sequential P w0 s" "worker_take B i s = Some s'"
  shows "sequential P w0 s'"
proof -
  have i: "i = 0" "workers s ! 0 = Idle"
    using assms by (auto simp: sequential_def worker_take_def split: if_splits)
  then obtain h where h: "concat (taken s) = h" "bp_world s = fold (\<lambda>e w. fst (p_process P e w)) h w0"
    using assms(1) by (auto simp: sequential_def)
  have one: "length (workers s) = 1" using assms(1) by (simp add: sequential_def)
  show ?thesis
  proof (cases "ch_recv B (batch_channel s)")
    case None
    then have "s' = s\<lparr>workers := (workers s)[0 := WorkerStopped]\<rparr>"
      using assms(2) i one by (simp add: worker_take_def split: if_splits)
    then show ?thesis using h one by (auto simp: sequential_def)
  next
    case (Some p)
    then obtain b c where "ch_recv B (batch_channel s) = Some (b, c)" by (cases p) simp
    then show ?thesis
      using assms(2) i one h by (auto simp: sequential_def worker_take_def worker_start_def split: if_splits)
  qed
qed

lemma sequential_step:
  assumes "guarded_processor P" "sequential P w0 s" "worker_step B P i s = Some s'"
  shows "sequential P w0 s'"
proof -
  have one: "length (workers s) = 1" using assms(2) by (simp add: sequential_def)
  then have i: "i = 0" using assms(3) by (simp add: worker_step_def split: if_splits)
  then obtain n es ok fail where w0: "workers s ! 0 = Working n es ok fail"
    using assms(3) one by (auto simp: worker_step_def split: worker.splits)
  then obtain h where h: "concat (taken s) = h @ es" "bp_world s = fold (\<lambda>e w. fst (p_process P e w)) h w0"
    using assms(2) by (auto simp: sequential_def)
  show ?thesis
  proof (cases es)
    case Nil
    then show ?thesis
      using assms(3) i one w0 h by (auto simp: sequential_def worker_step_def worker_finish_def)
  next
    case (Cons e rest)
    obtain wk w where ev: "worker_event P n e rest ok fail (bp_world s) = (wk, w)" by fastforce
    have w: "w = fst (p_process P e (bp_world s))" and wk: "is_dead wk \<or> (\<exists>ok' fail'. wk = Working n rest ok' fail')"
      using ev guarded_processor.unwanted [OF assms(1), of e "bp_world s"]
      by (auto simp: worker_event_def split: if_splits prod.splits completion.splits sum.splits)
    have s': "workers s' = [wk]" "taken s' = taken s" "bp_world s' = w"
      using assms(3) i one w0 Cons ev by (auto simp: worker_step_def Let_def length_Suc_conv split: if_splits)
    have "concat (taken s') = (h @ [e]) @ rest" "bp_world s' = fold (\<lambda>e w. fst (p_process P e w)) (h @ [e]) w0"
      by (simp add: s' h Cons) (simp add: s' w h fold_append)
    moreover have "is_dead (workers s' ! 0) \<or> rest = (case workers s' ! 0 of Working n es ok fail \<Rightarrow> es | _ \<Rightarrow> [])"
      using wk s' by auto
    ultimately show ?thesis
      unfolding sequential_def by (intro conjI exI [of _ "h @ [e]"] exI [of _ rest]) (simp add: s', assumption+)
  qed
qed

lemma sequential_exec:
  assumes "guarded_processor P" "sequential P w0 s" "bp_exec E B P op s = Some s'"
  shows "sequential P w0 s'"
  using assms(3)
proof (cases op)
  case Shutdown
  then show ?thesis using assms(3) by (intro sequential_frame [OF assms(2)]) (auto simp: bp_shutdown_def)
next
  case CheckResources
  then show ?thesis using assms(3) by (intro sequential_frame [OF assms(2)]) auto
next
  case (AddEvent e)
  then obtain r where "add_event E e s = Some (s', r)" using assms(3) by auto
  from sequential_frame [OF assms(2)] collector_frame(1) [OF this] show ?thesis by blast
next
  case (CollectorRecv t u)
  with assms(3) have "collector_recv E t u s = Some s'" by simp
  from sequential_frame [OF assms(2)] collector_frame(2) [OF this] show ?thesis by blast
next
  case (CollectorTimeout now)
  with assms(3) have "collector_timeout E now s = Some s'" by simp
  from sequential_frame [OF assms(2)] collector_frame(3) [OF this] show ?thesis by blast
next
  case (CollectorSend t u)
  with assms(3) have "collector_send E B t u s = Some s'" by simp
  from sequential_frame [OF assms(2)] collector_frame(4) [OF this] show ?thesis by blast
next
  case (WorkerTake i)
  with assms(3) show ?thesis using sequential_take [OF assms(2)] by simp
next
  case (WorkerStep i)
  with assms(3) show ?thesis using sequential_step [OF assms(1,2)] by simp
qed

lemma sequential_reachable:
  assumes "bp_reachable E B P s0 s" "guarded_processor P" "sequential P w0 s0"
  shows "sequential P w0 s"
  using assms by (induction rule: bp_reachable.induct) (auto intro: sequential_exec)

end

section \<open>Properties\<close>

interpretation list_bp: batch_channels list_channel lc_items lc_capacity list_channel lc_items lc_capacity
  by unfold_locales

fun bp_run ::
  "('j solana_event, 'ec) channel_ops \<Rightarrow> ('j solana_event list, 'bc) channel_ops \<Rightarrow> ('j, 'w) event_processor
   \<Rightarrow> 'j solana_event bp_op list \<Rightarrow> ('j, 'ec, 'bc, 'w) bp \<Rightarrow> ('j, 'ec, 'bc, 'w) bp option" where
  "bp_run E B P [] s = Some s"
| "bp_run E B P (op # ops) s = Option.bind (bp_exec E B P op s) (bp_run E B P ops)"

lemma reachable_from: "bp_run E B P ops s = Some s' \<Longrightarrow> bp_reachable E B P s0 s \<Longrightarrow> bp_reachable E B P s0 s'"
  by (induction ops arbitrary: s) (auto simp: bind_eq_Some_conv intro: bp_reachable.step)

lemmas reachable_run = reachable_from [OF _ bp_reachable.init]

lemma exec_kept:
  assumes "bp_exec E B P op s = Some s'"
  shows "bp_batch_size s' = bp_batch_size s \<and> length (workers s') = length (workers s)"
proof (cases op)
  case (AddEvent e)
  then show ?thesis using assms by (auto simp: add_event_def split: if_splits option.splits)
next
  case (CollectorRecv t u)
  then show ?thesis
    using assms by (auto simp: collector_recv_def set_collector_def split: if_splits option.splits)
next
  case (CollectorTimeout t)
  then show ?thesis using assms by (auto simp: collector_timeout_def split: if_splits)
next
  case (CollectorSend t u)
  then show ?thesis
    using assms
    by (auto simp: collector_send_def set_collector_def split: if_splits option.splits collector_mode.splits)
next
  case (WorkerTake i)
  then show ?thesis
    using assms by (auto simp: worker_take_def split: if_splits option.splits prod.splits)
next
  case (WorkerStep i)
  then show ?thesis
    using assms
    by (auto simp: worker_step_def Let_def split: if_splits worker.splits list.splits prod.splits)
qed (use assms in \<open>auto simp: bp_shutdown_def\<close>)

lemma reachable_kept:
  "bp_reachable E B P s0 s \<Longrightarrow> bp_batch_size s = bp_batch_size s0 \<and> length (workers s) = length (workers s0)"
  by (induction rule: bp_reachable.induct) (auto dest: exec_kept)

lemma batch_inv:
  assumes "batch_channels E econt ecap B bcont bcap" "queue_size \<noteq> 0" "messages_in_flight rm = 0"
    and "bp_reachable E B P (batch_processor_new E B cfg rm queue_size now w) s"
  shows "batch_channels.bp_inv econt B bcont s"
    and "bp_batch_size s = batch_size cfg" "length (workers s) = unat (parallel_workers cfg)"
  using batch_channels.inv_reachable [OF assms(1,4) batch_channels.inv_new [OF assms(1-3)]]
    reachable_kept [OF assms(4)] by (simp_all add: batch_processor_new_def)

lemmas batch_inv_defs =
  batch_channels.bp_inv_def batch_channels.located_def batch_channels.sized_def batch_channels.counted_def
  batch_channels.closing_def

lemma events_conserved_facts:
  assumes "batch_channels E econt ecap B bcont bcap" "queue_size \<noteq> 0" "messages_in_flight rm = 0"
    and "bp_reachable E B P (batch_processor_new E B cfg rm queue_size now w) s"
  shows "accepted s = concat (taken s @ bcont (batch_channel s)) @ lost s
      @ pending_batch (collector_mode (collector s)) @ current_batch (collector s) @ econt (event_channel s)"
    and "lost s = [] \<or> list_all is_dead (workers s)"
  using batch_inv(1) [OF assms] by (auto simp: batch_inv_defs [OF assms(1)])

text \<open>
  C2. Nothing is lost, duplicated or reordered on the way to the workers: in every reachable state
  the accepted events are, in the order of acceptance, those in the batches the workers have taken,
  in the batches that wait, in the batch being sent, in the batch being formed, and in the event
  channel. A batch can only be dropped once every worker task has died of a panic.
\<close>

theorem events_conserved:
  assumes "batch_channels E econt ecap B bcont bcap" "queue_size \<noteq> 0" "messages_in_flight rm = 0"
    and "bp_reachable E B P (batch_processor_new E B cfg rm queue_size now w) s"
  shows "(accepted s = concat (taken s @ bcont (batch_channel s)) @ lost s
      @ pending_batch (collector_mode (collector s)) @ current_batch (collector s) @ econt (event_channel s))
    \<and> (lost s = [] \<or> list_all is_dead (workers s))"
  by (intro conjI events_conserved_facts [OF assms])

text \<open>
  Every batch a worker takes is non-empty and has at most \<open>batch_size\<close> events (one, if that is 0).
\<close>

theorem batches_bounded:
  assumes "batch_channels E econt ecap B bcont bcap" "queue_size \<noteq> 0" "messages_in_flight rm = 0"
    and "bp_reachable E B P (batch_processor_new E B cfg rm queue_size now w) s"
  shows "length ` set (taken s @ bcont (batch_channel s)) \<subseteq> {1..max 1 (unat (batch_size cfg))}"
proof -
  have "\<forall>b \<in> set (taken s) \<union> set (bcont (batch_channel s)). b \<noteq> [] \<and> length b \<le> max 1 (unat (batch_size cfg))"
    using batch_inv(1) [OF assms] batch_inv(2) [OF assms] by (simp add: batch_inv_defs [OF assms(1)])
  then show ?thesis by (force simp: Suc_le_eq)
qed

lemma in_flight_exact_facts:
  assumes "batch_channels E econt ecap B bcont bcap" "queue_size \<noteq> 0" "messages_in_flight rm = 0"
    and "bp_reachable E B P (batch_processor_new E B cfg rm queue_size now w) s"
  shows "messages_in_flight (bp_resources s) = of_nat (sum_list (map worker_load (workers s)))"
    and "sum_list (map worker_load (workers s)) \<le> unat (parallel_workers cfg) * max 1 (unat (batch_size cfg))"
proof -
  have inv: "messages_in_flight (bp_resources s) = of_nat (total_load (workers s))"
    "\<forall>w \<in> set (workers s). worker_load w \<le> max 1 (unat (batch_size cfg))"
    using batch_inv(1) [OF assms] batch_inv(2) [OF assms] by (simp_all add: batch_inv_defs [OF assms(1)])
  then show "messages_in_flight (bp_resources s) = of_nat (sum_list (map worker_load (workers s)))"
    by (simp add: total_load_def)
  have "sum_list (map worker_load ws) \<le> length ws * m" if "\<forall>w \<in> set ws. worker_load w \<le> m"
    for m and ws :: "'a solana_event worker list"
    using that by (induction ws) auto
  from this [OF inv(2)] show "sum_list (map worker_load (workers s)) \<le> unat (parallel_workers cfg) * max 1 (unat (batch_size cfg))"
    using batch_inv(3) [OF assms] by simp
qed

text \<open>
  The count of messages in flight is exactly the sizes of the batches that workers hold: a batch
  is counted from the moment it is taken until it is done, the events that queue before the workers
  are not counted, and the batch of a worker that died of a panic stays counted for ever. The count is
  at most \<open>parallel_workers\<close> times the batch size.
\<close>

theorem in_flight_exact:
  assumes "batch_channels E econt ecap B bcont bcap" "queue_size \<noteq> 0" "messages_in_flight rm = 0"
    and "bp_reachable E B P (batch_processor_new E B cfg rm queue_size now w) s"
  shows "(messages_in_flight (bp_resources s) = of_nat (sum_list (map worker_load (workers s))))
    \<and> (sum_list (map worker_load (workers s)) \<le> unat (parallel_workers cfg) * max 1 (unat (batch_size cfg)))"
  by (intro conjI in_flight_exact_facts [OF assms])

text \<open>
  C24. One worker and a processor that ignores what it does not want: the batching is invisible. The
  world is what processing a prefix of the accepted events one after the other, in the order of
  acceptance, makes of it; and unless the processor has panicked, the rest of the accepted events is
  what the worker and the queues still hold. Both processors of processors/ ignore what they do not want
  (\<open>guarded_processor\<close> is interpreted on them); the MonitoredDexProcessor of the examples counts it, and
  is not one.
\<close>

theorem batching_sequential:
  assumes "batch_channels E econt ecap B bcont bcap" "queue_size \<noteq> 0" "messages_in_flight rm = 0"
    and "bp_reachable E B P (batch_processor_new E B cfg rm queue_size now w) s"
    and "guarded_processor P" "parallel_workers cfg = 1"
  shows "\<exists>handled rest. accepted s = handled @ rest
    \<and> bp_world s = fold (\<lambda>e w. fst (p_process P e w)) handled w
    \<and> (is_dead (workers s ! 0)
       \<or> rest = (case workers s ! 0 of Working n es ok fail \<Rightarrow> es | _ \<Rightarrow> []) @ concat (bcont (batch_channel s))
           @ pending_batch (collector_mode (collector s)) @ current_batch (collector s) @ econt (event_channel s))"
proof -
  have "batch_channels.sequential P w (batch_processor_new E B cfg rm queue_size now w)"
    using assms(6) by (simp add: batch_channels.sequential_def [OF assms(1)] batch_processor_new_def Let_def)
  from batch_channels.sequential_reachable [OF assms(1,4,5) this]
  obtain h r where h: "length (workers s) = 1" "concat (taken s) = h @ r"
      "bp_world s = fold (\<lambda>e w. fst (p_process P e w)) h w"
      "is_dead (workers s ! 0) \<or> r = (case workers s ! 0 of Working n es ok fail \<Rightarrow> es | _ \<Rightarrow> [])"
    unfolding batch_channels.sequential_def [OF assms(1)] by blast
  have acc: "accepted s = concat (taken s @ bcont (batch_channel s)) @ lost s
      @ pending_batch (collector_mode (collector s)) @ current_batch (collector s) @ econt (event_channel s)"
    and lost: "lost s \<noteq> [] \<longrightarrow> list_all is_dead (workers s)"
    using batch_inv(1) [OF assms(1-4)] by (simp_all add: batch_inv_defs [OF assms(1)])
  have "is_dead (workers s ! 0) \<or> lost s = []"
    using lost h(1) by (auto simp: list_all_length)
  then show ?thesis
    using acc h(2-4) by (intro exI [of _ h] exI) (auto simp: append_assoc)
qed

lemma workers_never_stop_facts:
  assumes "batch_channels E econt ecap B bcont bcap" "queue_size \<noteq> 0" "messages_in_flight rm = 0"
    and "bp_reachable E B P (batch_processor_new E B cfg rm queue_size now w) s"
  shows "WorkerStopped \<notin> set (workers (bp_shutdown E s))"
    and "\<not> ch_closed B (batch_channel (bp_shutdown E s)) \<or> list_all is_dead (workers s)"
  using batch_inv(1) [OF assms] by (auto simp: batch_inv_defs [OF assms(1)] bp_shutdown_def)

text \<open>
  No worker task ever ends by itself, after \<open>shutdown\<close> either: the processor object keeps a
  sender of the batch channel, so that channel is not closed while a worker is alive, and the workers
  wait on it for ever.
\<close>

theorem workers_never_stop:
  assumes "batch_channels E econt ecap B bcont bcap" "queue_size \<noteq> 0" "messages_in_flight rm = 0"
    and "bp_reachable E B P (batch_processor_new E B cfg rm queue_size now w) s"
  shows "(WorkerStopped \<notin> set (workers (bp_shutdown E s)))
    \<and> (\<not> ch_closed B (batch_channel (bp_shutdown E s)) \<or> list_all is_dead (workers s))"
  by (intro conjI workers_never_stop_facts [OF assms])

text \<open>
  The batch timeout measures inactivity, not the age of a batch: after an event that does not
  fill the batch, the flush is possible exactly from the full timeout after that event on, however
  old the events before it are, and only if the loop came round before it had elapsed. A timeout of 0
  never flushes.
\<close>

theorem timeout_from_last_event:
  assumes "length (current_batch c) + 1 < max_batch" "received \<le> next"
  shows "timeout_enabled t now (collector_on_event max_batch received next e c)
    \<longleftrightarrow> next < received + t \<and> received + t \<le> now"
  using assms by (auto simp: timeout_enabled_def remaining_timeout_def collector_on_event_def Let_def)

theorem timeout_from_last_event_witness:
  "\<not> timeout_enabled 500 1399 (collector_on_event 100 900 900 (2 :: nat)
       \<lparr>current_batch = [1], last_activity = 0, loop_entered = 0, collector_mode = Collecting\<rparr>)
   \<and> timeout_enabled 500 1400 (collector_on_event 100 900 900 (2 :: nat)
       \<lparr>current_batch = [1], last_activity = 0, loop_entered = 0, collector_mode = Collecting\<rparr>)"
  by (simp add: timeout_from_last_event)

section \<open>Witnesses\<close>

text \<open>Two events through one worker: the second is still to be processed.\<close>

definition sample_event :: "string \<Rightarrow> json solana_event" where
  "sample_event sig =
     \<lparr>event_type = Transaction, slot = 1, signature = sig, timestamp = ''0'', data = JObject []\<rparr>"

definition sample_processing :: processing_config where
  "sample_processing =
     \<lparr>parallel_workers = 1, buffer_size = 10, batch_size = 2, batch_timeout = from_millis 500,
      dedup_window = from_secs 1, enable_pre_filtering = True, enable_metrics = False\<rparr>"

definition sample_ops :: "json solana_event bp_op list" where
  "sample_ops =
     [AddEvent (sample_event ''a''), AddEvent (sample_event ''b''), CollectorRecv 1 1, CollectorRecv 2 2,
      CollectorSend 3 3, WorkerTake 0, WorkerStep 0]"

definition sample_start ::
  "(json, json solana_event list_channel, json solana_event list list_channel, transaction_log list) bp" where
  "sample_start =
     batch_processor_new list_channel list_channel sample_processing
       (resource_manager_new resource_limits_default) 5 0 []"

lemma sample_fields:
  "parallel_workers sample_processing = 1" "batch_size sample_processing = 2"
  "batch_timeout sample_processing = from_millis 500"
  by (simp_all add: sample_processing_def)

lemma sample_run:
  "\<exists>s. bp_run list_channel list_channel (tx_event_processor json_tree) sample_ops sample_start = Some s
     \<and> accepted s = [sample_event ''a'', sample_event ''b'']
     \<and> taken s = [[sample_event ''a'', sample_event ''b'']]
     \<and> workers s = [Working 2 [sample_event ''b''] 1 0]
     \<and> length (bp_world s) = 1"
  by (simp add: sample_ops_def sample_start_def batch_processor_new_def sample_fields list_channel_def
      add_event_def collector_recv_def collector_on_event_def set_collector_def collector_send_def
      worker_take_def worker_start_def worker_step_def worker_event_def tx_event_processor_def
      tx_should_process_def tx_process_def sample_event_def resource_manager_new_def
      start_processing_def Let_def)

lemma sample_reachable:
  "\<exists>s. bp_reachable list_channel list_channel (tx_event_processor json_tree)
        (batch_processor_new list_channel list_channel sample_processing
           (resource_manager_new resource_limits_default) 5 0 []) s
     \<and> accepted s = [sample_event ''a'', sample_event ''b'']
     \<and> taken s = [[sample_event ''a'', sample_event ''b'']]
     \<and> workers s = [Working 2 [sample_event ''b''] 1 0]
     \<and> length (bp_world s) = 1"
  using sample_run reachable_run unfolding sample_start_def by blast

lemma sample_limits_fresh: "messages_in_flight (resource_manager_new c) = 0"
  by (simp add: resource_manager_new_def)

theorem events_conserved_witness:
  "\<exists>s. accepted s = [sample_event ''a'', sample_event ''b'']
     \<and> [sample_event ''a'', sample_event ''b''] = concat (taken s @ lc_items (batch_channel s)) @ lost s
         @ pending_batch (collector_mode (collector s)) @ current_batch (collector s)
         @ lc_items (event_channel (s :: (json, json solana_event list_channel,
             json solana_event list list_channel, transaction_log list) bp))"
proof -
  obtain s where s: "bp_reachable list_channel list_channel (tx_event_processor json_tree)
        (batch_processor_new list_channel list_channel sample_processing
           (resource_manager_new resource_limits_default) 5 0 []) s"
    "accepted s = [sample_event ''a'', sample_event ''b'']"
    using sample_reachable by blast
  have "(5 :: usize) \<noteq> 0" by simp
  from events_conserved [OF list_bp.batch_channels_axioms this sample_limits_fresh s(1)] s(2)
  show ?thesis by (intro exI [of _ s] conjI) simp_all
qed

theorem batches_bounded_witness:
  "\<exists>s. taken s = [[sample_event ''a'', sample_event ''b'']]
     \<and> length ` set (taken s @ lc_items (batch_channel (s :: (json, json solana_event list_channel,
             json solana_event list list_channel, transaction_log list) bp))) \<subseteq> {1..2}"
proof -
  obtain s where s: "bp_reachable list_channel list_channel (tx_event_processor json_tree)
        (batch_processor_new list_channel list_channel sample_processing
           (resource_manager_new resource_limits_default) 5 0 []) s"
    "taken s = [[sample_event ''a'', sample_event ''b'']]"
    using sample_reachable by blast
  have "(5 :: usize) \<noteq> 0" by simp
  note bounded = batches_bounded [OF list_bp.batch_channels_axioms this sample_limits_fresh s(1)]
  have "max 1 (unat (batch_size sample_processing)) = 2" by (simp add: sample_fields)
  with bounded have "length ` set (taken s @ lc_items (batch_channel s)) \<subseteq> {1..2}" by metis
  with s(2) show ?thesis by blast
qed

theorem in_flight_exact_witness:
  "\<exists>s. workers s = [Working 2 [sample_event ''b''] 1 0]
     \<and> messages_in_flight (bp_resources (s :: (json, json solana_event list_channel,
             json solana_event list list_channel, transaction_log list) bp)) = 2"
proof -
  obtain s where s: "bp_reachable list_channel list_channel (tx_event_processor json_tree)
        (batch_processor_new list_channel list_channel sample_processing
           (resource_manager_new resource_limits_default) 5 0 []) s"
    "workers s = [Working 2 [sample_event ''b''] 1 0]"
    using sample_reachable by blast
  have "(5 :: usize) \<noteq> 0" by simp
  from in_flight_exact [OF list_bp.batch_channels_axioms this sample_limits_fresh s(1)] s(2)
  show ?thesis by (intro exI [of _ s] conjI) simp_all
qed

theorem batching_sequential_witness:
  "\<exists>handled rest. [sample_event ''a'', sample_event ''b''] = handled @ rest
     \<and> length (fold (\<lambda>e w. fst (p_process (tx_event_processor json_tree) e w)) handled []) = 1"
proof -
  obtain s where s: "bp_reachable list_channel list_channel (tx_event_processor json_tree)
        (batch_processor_new list_channel list_channel sample_processing
           (resource_manager_new resource_limits_default) 5 0 []) s"
    "accepted s = [sample_event ''a'', sample_event ''b'']" "length (bp_world s) = 1"
    using sample_reachable by blast
  have "(5 :: usize) \<noteq> 0" by simp
  from batching_sequential [OF list_bp.batch_channels_axioms this sample_limits_fresh s(1)
      tx.guarded_processor_axioms sample_fields(1)] s(2,3)
  show ?thesis by metis
qed

theorem workers_never_stop_witness:
  "\<exists>s. accepted s = [sample_event ''a'', sample_event ''b'']
     \<and> WorkerStopped \<notin> set (workers (bp_shutdown list_channel (s :: (json, json solana_event list_channel,
             json solana_event list list_channel, transaction_log list) bp)))"
proof -
  obtain s where s: "bp_reachable list_channel list_channel (tx_event_processor json_tree)
        (batch_processor_new list_channel list_channel sample_processing
           (resource_manager_new resource_limits_default) 5 0 []) s"
    "accepted s = [sample_event ''a'', sample_event ''b'']"
    using sample_reachable by blast
  have "(5 :: usize) \<noteq> 0" by simp
  from workers_never_stop [OF list_bp.batch_channels_axioms this sample_limits_fresh s(1)] s(2)
  show ?thesis by blast
qed

end
