(* ===== verification/BatchRaces.thy ===== *)
theory BatchRaces
  imports ResourceRaces Batch
begin

text \<open>
  The batch processor over the single accesses of the resource manager: what Batch does in one step, the
  start and the completion of a batch and the check of the consumer, takes several here, and the other
  tasks interleave between them. Everything else of a step of Batch is protected by a channel or local
  to its task.
\<close>

section \<open>The system\<close>

text \<open>A worker may be inside one call of the resource manager, and so may the consumer.\<close>

record ('j, 'ec, 'bc, 'w) racing_bp =
  rb_bp :: "('j, 'ec, 'bc, 'w) bp"
  rb_calls :: "manager_call option list"
  rb_check :: "manager_call option"

definition racing_start :: "('j, 'ec, 'bc, 'w) bp \<Rightarrow> ('j, 'ec, 'bc, 'w) racing_bp" where
  "racing_start b = \<lparr>rb_bp = b, rb_calls = replicate (length (workers b)) None, rb_check = None\<rparr>"

definition with_resources :: "resource_manager \<Rightarrow> ('j, 'ec, 'bc, 'w) bp \<Rightarrow> ('j, 'ec, 'bc, 'w) bp" where
  "with_resources m b = b\<lparr>bp_resources := m\<rparr>"

text \<open>The steps of Batch that make no call; a worker makes none while it is inside one.\<close>

fun without_call :: "'e bp_op \<Rightarrow> ('j, 'ec, 'bc, 'w) racing_bp \<Rightarrow> bool" where
  "without_call CheckResources s = False"
| "without_call (WorkerTake i) s = False"
| "without_call (WorkerStep i) s =
     (i < length (rb_calls s) \<and> rb_calls s ! i = None
      \<and> (case workers (rb_bp s) ! i of Working n (e # rest) ok fail \<Rightarrow> True | _ \<Rightarrow> False))"
| "without_call _ s = True"

definition racing_take ::
  "('j solana_event list, 'bc) channel_ops \<Rightarrow> nat \<Rightarrow> ('j, 'ec, 'bc, 'w) racing_bp
   \<Rightarrow> ('j, 'ec, 'bc, 'w) racing_bp option" where
  "racing_take B i s =
     map_option (\<lambda>b. s\<lparr>rb_bp := with_resources (bp_resources (rb_bp s)) b,
         rb_calls := (case workers b ! i of
             Working n rest ok fail \<Rightarrow> (rb_calls s)[i := Some (StartBegin (of_nat n))]
           | _ \<Rightarrow> rb_calls s)\<rparr>)
       (worker_take B i (rb_bp s))"

definition racing_finish :: "nat \<Rightarrow> ('j, 'ec, 'bc, 'w) racing_bp \<Rightarrow> ('j, 'ec, 'bc, 'w) racing_bp option" where
  "racing_finish i s =
     (if i < length (rb_calls s) \<and> rb_calls s ! i = None then
        (case workers (rb_bp s) ! i of
           Working n [] ok fail \<Rightarrow> Some (s\<lparr>rb_calls := (rb_calls s)[i := Some (CompleteBegin (of_nat n))]\<rparr>)
         | _ \<Rightarrow> None)
      else None)"

definition racing_access :: "nat \<Rightarrow> ('j, 'ec, 'bc, 'w) racing_bp \<Rightarrow> ('j, 'ec, 'bc, 'w) racing_bp option" where
  "racing_access i s =
     (if i < length (rb_calls s) then
        (case rb_calls s ! i of
           None \<Rightarrow> None
         | Some t \<Rightarrow>
             (case access t (bp_resources (rb_bp s)) of
                (m, Ended r) \<Rightarrow>
                  Some (s\<lparr>rb_bp := with_resources m
                            (if completes t then (rb_bp s)\<lparr>workers := (workers (rb_bp s))[i := Idle]\<rparr> else rb_bp s),
                          rb_calls := (rb_calls s)[i := None]\<rparr>)
              | (m, t') \<Rightarrow>
                  Some (s\<lparr>rb_bp := with_resources m (rb_bp s), rb_calls := (rb_calls s)[i := Some t']\<rparr>)))
      else None)"

text \<open>The consumer looks for a signal first, and checks the resources only if there is none.\<close>

definition racing_check :: "('j, 'ec, 'bc, 'w) racing_bp \<Rightarrow> ('j, 'ec, 'bc, 'w) racing_bp" where
  "racing_check s =
     (case rb_check s of
        None \<Rightarrow> if is_backpressure_active (bp_resources (rb_bp s)) then s else s\<lparr>rb_check := Some CheckBegin\<rparr>
      | Some t \<Rightarrow>
          (let (m, t') = access t (bp_resources (rb_bp s))
           in s\<lparr>rb_bp := with_resources m (rb_bp s), rb_check := (case t' of Ended _ \<Rightarrow> None | _ \<Rightarrow> Some t')\<rparr>))"

datatype 'e racing_op = Coarse "'e bp_op" | Take nat | Finish nat | Access nat | Check

fun racing_exec ::
  "('j solana_event, 'ec) channel_ops \<Rightarrow> ('j solana_event list, 'bc) channel_ops \<Rightarrow> ('j, 'w) event_processor
   \<Rightarrow> 'j solana_event racing_op \<Rightarrow> ('j, 'ec, 'bc, 'w) racing_bp \<Rightarrow> ('j, 'ec, 'bc, 'w) racing_bp option" where
  "racing_exec E B P (Coarse op) s =
     (if without_call op s then map_option (\<lambda>b. s\<lparr>rb_bp := b\<rparr>) (bp_exec E B P op (rb_bp s)) else None)"
| "racing_exec E B P (Take i) s = racing_take B i s"
| "racing_exec E B P (Finish i) s = racing_finish i s"
| "racing_exec E B P (Access i) s = racing_access i s"
| "racing_exec E B P Check s = Some (racing_check s)"

inductive racing_reachable ::
  "('j solana_event, 'ec) channel_ops \<Rightarrow> ('j solana_event list, 'bc) channel_ops \<Rightarrow> ('j, 'w) event_processor
   \<Rightarrow> ('j, 'ec, 'bc, 'w) racing_bp \<Rightarrow> ('j, 'ec, 'bc, 'w) racing_bp \<Rightarrow> bool"
  for E B P s0 where
  init: "racing_reachable E B P s0 s0"
| step: "racing_reachable E B P s0 s \<Longrightarrow> racing_exec E B P op s = Some s' \<Longrightarrow> racing_reachable E B P s0 s'"

lemma racing_reachable_trans:
  "racing_reachable E B P s1 s2 \<Longrightarrow> racing_reachable E B P s0 s1 \<Longrightarrow> racing_reachable E B P s0 s2"
  by (induction rule: racing_reachable.induct) (auto intro: racing_reachable.step)

section \<open>The steps without calls do not look at the resource manager\<close>

lemma with_resources_fields [simp]:
  "workers (with_resources m b) = workers b" "bp_resources (with_resources m b) = m"
  "with_resources m (with_resources m' b) = with_resources m b"
  "accepted (with_resources m b) = accepted b" "taken (with_resources m b) = taken b"
  "lost (with_resources m b) = lost b" "collector (with_resources m b) = collector b"
  "event_channel (with_resources m b) = event_channel b" "batch_channel (with_resources m b) = batch_channel b"
  "with_resources m (b\<lparr>workers := ws\<rparr>) = (with_resources m b)\<lparr>workers := ws\<rparr>"
  by (simp_all add: with_resources_def)

lemma coarse_frame:
  assumes "without_call op s" "bp_exec E B P op (rb_bp s) = Some b'"
  shows "bp_exec E B P op (with_resources m (rb_bp s)) = Some (with_resources m b')"
    and "bp_resources b' = bp_resources (rb_bp s)"
    and "length (workers b') = length (workers (rb_bp s))"
    and "\<And>i. i < length (rb_calls s) \<Longrightarrow> rb_calls s ! i \<noteq> None \<Longrightarrow> workers b' ! i = workers (rb_bp s) ! i"
    and "map worker_load (workers b') = map worker_load (workers (rb_bp s))"
proof -
  have "bp_exec E B P op (with_resources m (rb_bp s)) = Some (with_resources m b')
    \<and> bp_resources b' = bp_resources (rb_bp s)
    \<and> length (workers b') = length (workers (rb_bp s))
    \<and> (\<forall>i < length (rb_calls s). rb_calls s ! i \<noteq> None \<longrightarrow> workers b' ! i = workers (rb_bp s) ! i)
    \<and> map worker_load (workers b') = map worker_load (workers (rb_bp s))"
  proof (cases op)
    case (WorkerStep i)
    then obtain n e rest ok fail where w: "i < length (rb_calls s)" "rb_calls s ! i = None"
        "workers (rb_bp s) ! i = Working n (e # rest) ok fail"
      using assms(1) by (auto split: worker.splits list.splits)
    have i: "i < length (workers (rb_bp s))"
      using assms(2) WorkerStep by (simp add: worker_step_def split: if_splits)
    obtain wk x where ev: "worker_event P n e rest ok fail (bp_world (rb_bp s)) = (wk, x)" by fastforce
    then have "worker_load wk = n"
      by (auto simp: worker_event_def split: if_splits prod.splits completion.splits sum.splits)
    moreover from this have "map worker_load ((workers (rb_bp s))[i := wk]) = map worker_load (workers (rb_bp s))"
      using w(3) i by (metis list_update_id map_update worker_load.simps(1))
    ultimately show ?thesis
      using assms(2) WorkerStep w i ev
      by (auto simp: worker_step_def with_resources_def nth_list_update Let_def)
  qed (use assms in \<open>auto simp: with_resources_def add_event_def collector_recv_def collector_timeout_def
      collector_send_def set_collector_def bp_shutdown_def
      split: if_splits option.splits collector_mode.splits prod.splits\<close>)
  then show "bp_exec E B P op (with_resources m (rb_bp s)) = Some (with_resources m b')"
    "bp_resources b' = bp_resources (rb_bp s)" "length (workers b') = length (workers (rb_bp s))"
    "\<And>i. i < length (rb_calls s) \<Longrightarrow> rb_calls s ! i \<noteq> None \<Longrightarrow> workers b' ! i = workers (rb_bp s) ! i"
    "map worker_load (workers b') = map worker_load (workers (rb_bp s))" by blast+
qed

section \<open>The invariant\<close>

text \<open>
  A worker inside a call has taken its batch and not touched it, or is done with it. What it contributes
  to the count in flight is there only between the two accesses that add and subtract it.
\<close>

fun call_fits :: "'e worker \<Rightarrow> manager_call option \<Rightarrow> bool" where
  "call_fits w None = True"
| "call_fits w (Some t) =
     (case w of
        Working n rest ok fail \<Rightarrow>
          t = StartBegin (of_nat n)
          \<or> rest = [] \<and> completes t \<and> (case t of CompleteBegin m \<Rightarrow> m = of_nat n | _ \<Rightarrow> True)
      | _ \<Rightarrow> False)"

fun in_flight :: "'e worker \<Rightarrow> manager_call option \<Rightarrow> nat" where
  "in_flight w None = worker_load w"
| "in_flight w (Some (CompleteBegin m)) = worker_load w"
| "in_flight w (Some t) = 0"

definition flight :: "('j, 'ec, 'bc, 'w) racing_bp \<Rightarrow> nat" where
  "flight s = sum_list (map2 in_flight (workers (rb_bp s)) (rb_calls s))"

definition racing_inv ::
  "('j solana_event, 'ec) channel_ops \<Rightarrow> ('j solana_event list, 'bc) channel_ops \<Rightarrow> ('j, 'w) event_processor
   \<Rightarrow> ('j, 'ec, 'bc, 'w) bp \<Rightarrow> ('j, 'ec, 'bc, 'w) racing_bp \<Rightarrow> bool" where
  "racing_inv E B P b0 s \<longleftrightarrow>
     (\<exists>m. bp_reachable E B P b0 (with_resources m (rb_bp s)))
     \<and> length (rb_calls s) = length (workers (rb_bp s))
     \<and> (\<forall>i < length (rb_calls s). call_fits (workers (rb_bp s) ! i) (rb_calls s ! i))
     \<and> (case rb_check s of None \<Rightarrow> True | Some t \<Rightarrow> 0 < pending_raise t)
     \<and> messages_in_flight (bp_resources (rb_bp s)) = of_nat (flight s)"

lemma sum_map2_update:
  fixes f :: "'a \<Rightarrow> 'b \<Rightarrow> nat"
  shows "i < length xs \<Longrightarrow> length xs = length ys \<Longrightarrow>
    sum_list (map2 f (xs[i := x]) (ys[i := y])) + f (xs ! i) (ys ! i) = sum_list (map2 f xs ys) + f x y"
proof (induction xs arbitrary: ys i)
  case (Cons a xs)
  then obtain b ys' where "ys = b # ys'" by (cases ys) auto
  with Cons show ?case by (cases i) auto
qed simp

lemma sum_map2_ys:
  fixes f :: "'a \<Rightarrow> 'b \<Rightarrow> nat"
  assumes "i < length xs" "length xs = length ys"
  shows "sum_list (map2 f xs (ys[i := y])) + f (xs ! i) (ys ! i) = sum_list (map2 f xs ys) + f (xs ! i) y"
  using sum_map2_update [OF assms, of f "xs ! i" y] by simp

text \<open>A call that has ended leaves the count as it is; so does every access but the two that change it.\<close>

lemma access_in_flight:
  assumes "access t m = (m', t')" "call_fits w (Some t)"
  shows "messages_in_flight m' + of_nat (in_flight w (Some t)) =
      messages_in_flight m + of_nat (case t' of
        Ended r \<Rightarrow> if completes t then 0 else worker_load w
      | _ \<Rightarrow> in_flight w (Some t'))"
    and "(\<exists>r. t' = Ended r) \<or> call_fits w (Some t')"
  using assms
  by (cases t; auto simp: model_defs split: worker.splits if_splits)+

lemma racing_inv_start:
  assumes "workers b0 = replicate n Idle" "messages_in_flight (bp_resources b0) = 0"
  shows "racing_inv E B P b0 (racing_start b0)"
proof -
  have "with_resources (bp_resources b0) b0 = b0" by (simp add: with_resources_def)
  then have "bp_reachable E B P b0 (with_resources (bp_resources b0) b0)" by (simp add: bp_reachable.init)
  moreover have "flight (racing_start b0) = 0"
    using assms(1) by (simp add: flight_def racing_start_def zip_replicate)
  ultimately show ?thesis
    using assms(2) by (auto simp: racing_inv_def racing_start_def)
qed

text \<open>Taking a batch does not look at the resource manager either.\<close>

lemma take_frame:
  assumes "worker_take B i b = Some b'"
  shows "\<exists>m'. worker_take B i (with_resources m b) = Some (with_resources m' b')"
proof (cases "ch_recv B (batch_channel b)")
  case None
  then show ?thesis
    using assms by (intro exI [of _ m]) (auto simp: worker_take_def with_resources_def split: if_splits)
next
  case (Some p)
  then obtain batch c where "ch_recv B (batch_channel b) = Some (batch, c)" by (cases p) simp
  then show ?thesis
    using assms by (intro exI [of _ "snd (worker_start batch m)"])
      (auto simp: worker_take_def with_resources_def worker_start_def split: if_splits)
qed

lemma racing_inv_coarse:
  assumes "racing_inv E B P b0 s" "racing_exec E B P (Coarse op) s = Some s'"
  shows "racing_inv E B P b0 s'"
proof -
  obtain b' where op: "without_call op s" "bp_exec E B P op (rb_bp s) = Some b'" and s': "s' = s\<lparr>rb_bp := b'\<rparr>"
    using assms(2) by (auto split: if_splits)
  note frame = coarse_frame [OF op]
  obtain m where "bp_reachable E B P b0 (with_resources m (rb_bp s))" using assms(1) by (auto simp: racing_inv_def)
  then have reach: "bp_reachable E B P b0 (with_resources m b')" using frame(1) by (rule bp_reachable.step)
  have len: "length (rb_calls s) = length (workers (rb_bp s))" using assms(1) by (simp add: racing_inv_def)
  have fits: "call_fits (workers b' ! i) (rb_calls s ! i)" if "i < length (rb_calls s)" for i
    using assms(1) frame(4) [OF that] that by (cases "rb_calls s ! i") (auto simp: racing_inv_def)
  have "map2 in_flight (workers b') (rb_calls s) = map2 in_flight (workers (rb_bp s)) (rb_calls s)"
  proof (rule nth_equalityI)
    fix i assume "i < length (map2 in_flight (workers b') (rb_calls s))"
    then have i: "i < length (workers (rb_bp s))" "i < length (workers b')" "i < length (rb_calls s)"
      using frame(3) len by simp_all
    moreover have "worker_load (workers b' ! i) = worker_load (workers (rb_bp s) ! i)"
      using arg_cong [OF frame(5), of "\<lambda>xs. xs ! i"] i by simp
    ultimately show "map2 in_flight (workers b') (rb_calls s) ! i = map2 in_flight (workers (rb_bp s)) (rb_calls s) ! i"
      using frame(4) [of i] by (cases "rb_calls s ! i") auto
  qed (use frame(3) len in simp)
  then have "flight s' = flight s" by (simp add: flight_def s')
  then show ?thesis
    using assms(1) reach fits frame(2,3) by (auto simp: racing_inv_def s')
qed

lemma racing_inv_take:
  assumes "racing_inv E B P b0 s" "racing_take B i s = Some s'"
  shows "racing_inv E B P b0 s'"
proof -
  let ?b = "rb_bp s"
  obtain b where take: "worker_take B i ?b = Some b"
    and s': "s' = s\<lparr>rb_bp := with_resources (bp_resources ?b) b,
         rb_calls := (case workers b ! i of
             Working n rest ok fail \<Rightarrow> (rb_calls s)[i := Some (StartBegin (of_nat n))]
           | _ \<Rightarrow> rb_calls s)\<rparr>"
    using assms(2) by (auto simp: racing_take_def)
  have i: "i < length (workers ?b)" "workers ?b ! i = Idle"
    using take by (auto simp: worker_take_def split: if_splits)
  have len: "length (rb_calls s) = length (workers ?b)" using assms(1) by (simp add: racing_inv_def)
  have idle: "rb_calls s ! i = None"
    using assms(1) i len by (cases "rb_calls s ! i") (auto simp: racing_inv_def)
  obtain wk where wk: "workers b = (workers ?b)[i := wk]"
      "wk = Idle \<or> wk = WorkerStopped \<or> (\<exists>n rest ok fail. wk = Working n rest ok fail)"
    using take by (auto simp: worker_take_def worker_start_def Let_def split: if_splits option.splits prod.splits)
  obtain m where "bp_reachable E B P b0 (with_resources m ?b)" using assms(1) by (auto simp: racing_inv_def)
  moreover obtain m' where "bp_exec E B P (WorkerTake i) (with_resources m ?b) = Some (with_resources m' b)"
    using take_frame [OF take] by auto
  ultimately have reach: "bp_reachable E B P b0 (with_resources m' b)" by (rule bp_reachable.step)
  show ?thesis
  proof (cases "\<exists>n rest ok fail. wk = Working n rest ok fail")
    case True
    then obtain n rest ok fail where w: "wk = Working n rest ok fail" by blast
    have s2: "s' = s\<lparr>rb_bp := with_resources (bp_resources ?b) b, rb_calls := (rb_calls s)[i := Some (StartBegin (of_nat n))]\<rparr>"
      using s' wk(1) i w by simp
    have "flight s' = flight s"
      using sum_map2_update [OF i(1), of "rb_calls s" in_flight wk "Some (StartBegin (of_nat n))"] len i(2) idle
      by (simp add: flight_def s2 wk(1))
    then show ?thesis
      using assms(1) reach w i len by (auto simp: racing_inv_def s2 wk(1) nth_list_update)
  next
    case False
    then have w: "worker_load wk = 0" "s' = s\<lparr>rb_bp := with_resources (bp_resources ?b) b\<rparr>"
      using wk s' i by (auto split: worker.split)
    have "(rb_calls s)[i := None] = rb_calls s" using idle by (metis list_update_id)
    then have "flight s' = flight s"
      using sum_map2_update [OF i(1), of "rb_calls s" in_flight wk None] len i(2) idle w
      by (simp add: flight_def wk(1))
    then show ?thesis
      using assms(1) reach w i len idle by (auto simp: racing_inv_def wk(1) nth_list_update)
  qed
qed

lemma racing_inv_finish:
  assumes "racing_inv E B P b0 s" "racing_finish i s = Some s'"
  shows "racing_inv E B P b0 s'"
proof -
  obtain n ok fail where i: "i < length (rb_calls s)" "rb_calls s ! i = None" "workers (rb_bp s) ! i = Working n [] ok fail"
    and s': "s' = s\<lparr>rb_calls := (rb_calls s)[i := Some (CompleteBegin (of_nat n))]\<rparr>"
    using assms(2) by (auto simp: racing_finish_def split: if_splits worker.splits list.splits)
  have len: "i < length (workers (rb_bp s))" "length (workers (rb_bp s)) = length (rb_calls s)"
    using assms(1) i(1) by (simp_all add: racing_inv_def)
  have "flight s' = flight s"
    using sum_map2_ys [OF len, of in_flight "Some (CompleteBegin (of_nat n))"] i by (simp add: flight_def s')
  then show ?thesis
    using assms(1) i by (auto simp: racing_inv_def s' nth_list_update)
qed

lemma racing_inv_access:
  assumes "racing_inv E B P b0 s" "racing_access i s = Some s'"
  shows "racing_inv E B P b0 s'"
proof -
  let ?b = "rb_bp s" and ?w = "workers (rb_bp s) ! i"
  obtain t where i: "i < length (rb_calls s)" "rb_calls s ! i = Some t"
    using assms(2) by (auto simp: racing_access_def split: if_splits option.splits)
  have len: "i < length (workers ?b)" "length (workers ?b) = length (rb_calls s)"
    using assms(1) i(1) by (simp_all add: racing_inv_def)
  have fit: "call_fits ?w (Some t)" using assms(1) i by (fastforce simp: racing_inv_def)
  obtain m t' where a: "access t (bp_resources ?b) = (m, t')" by fastforce
  obtain m0 where reach: "bp_reachable E B P b0 (with_resources m0 ?b)" using assms(1) by (auto simp: racing_inv_def)
  have flow: "messages_in_flight (bp_resources ?b) = of_nat (flight s)" using assms(1) by (simp add: racing_inv_def)
  note acc = access_in_flight [OF a fit]
  show ?thesis
  proof (cases "\<exists>r. t' = Ended r")
    case True
    let ?w' = "if completes t then Idle else ?w"
    have s': "s' = s\<lparr>rb_bp := with_resources m (?b\<lparr>workers := (workers ?b)[i := ?w']\<rparr>), rb_calls := (rb_calls s)[i := None]\<rparr>"
      using assms(2) i a True by (auto simp: racing_access_def)
    have batch: "\<exists>m'. bp_reachable E B P b0 (with_resources m' (?b\<lparr>workers := (workers ?b)[i := ?w']\<rparr>))"
    proof (cases "completes t")
      case False
      then show ?thesis using reach by auto
    next
      case True
      then obtain n ok fail where w: "?w = Working n [] ok fail" using fit by (auto split: worker.splits)
      have "bp_exec E B P (WorkerStep i) (with_resources m0 ?b)
          = Some (with_resources (complete_processing (of_nat n) m0) (?b\<lparr>workers := (workers ?b)[i := Idle]\<rparr>))"
        using w len(1) by (simp add: worker_step_def worker_finish_def with_resources_def Let_def)
      from bp_reachable.step [OF reach this] show ?thesis using True by (simp only: if_True) blast
    qed
    have "flight s' + in_flight ?w (Some t) = flight s + worker_load ?w'"
      using sum_map2_update [OF len, of in_flight ?w' None] i(2) by (simp add: flight_def s')
    then have "(of_nat (flight s') :: usize) + of_nat (in_flight ?w (Some t)) = of_nat (flight s) + of_nat (worker_load ?w')"
      by (metis of_nat_add)
    moreover have "messages_in_flight m + of_nat (in_flight ?w (Some t)) = of_nat (flight s) + of_nat (worker_load ?w')"
      using acc(1) True flow by auto
    ultimately have "messages_in_flight m = of_nat (flight s')" by (metis add_right_cancel)
    then show ?thesis
      using assms(1) i len batch by (auto simp: racing_inv_def s' nth_list_update)
  next
    case False
    have s': "s' = s\<lparr>rb_bp := with_resources m ?b, rb_calls := (rb_calls s)[i := Some t']\<rparr>"
      using assms(2) i a False by (auto simp: racing_access_def split: manager_call.splits)
    have "flight s' + in_flight ?w (Some t) = flight s + in_flight ?w (Some t')"
      using sum_map2_ys [OF len, of in_flight "Some t'"] i(2) by (simp add: flight_def s')
    then have "(of_nat (flight s') :: usize) + of_nat (in_flight ?w (Some t)) = of_nat (flight s) + of_nat (in_flight ?w (Some t'))"
      by (metis of_nat_add)
    moreover have "messages_in_flight m + of_nat (in_flight ?w (Some t)) = of_nat (flight s) + of_nat (in_flight ?w (Some t'))"
      using acc(1) False flow by (cases t') auto
    ultimately have "messages_in_flight m = of_nat (flight s')" by (metis add_right_cancel)
    then show ?thesis
      using assms(1) i len acc(2) False reach by (auto simp: racing_inv_def s' nth_list_update)
  qed
qed

text \<open>The check of the consumer only reads the count.\<close>

lemma check_access:
  assumes "access t m = (m', t')" "0 < pending_raise t"
  shows "messages_in_flight m' = messages_in_flight m" "(\<exists>r. t' = Ended r) \<or> 0 < pending_raise t'"
  using assms by (cases t; auto simp: model_defs split: if_splits)+

lemma racing_inv_check:
  assumes "racing_inv E B P b0 s"
  shows "racing_inv E B P b0 (racing_check s)"
proof (cases "rb_check s")
  case None
  then have "flight (racing_check s) = flight s" by (simp add: flight_def racing_check_def)
  then show ?thesis using assms None by (auto simp: racing_inv_def racing_check_def)
next
  case (Some t)
  obtain m t' where a: "access t (bp_resources (rb_bp s)) = (m, t')" by fastforce
  have "0 < pending_raise t" using assms Some by (simp add: racing_inv_def)
  note chk = check_access [OF a this]
  have s': "racing_check s = s\<lparr>rb_bp := with_resources m (rb_bp s), rb_check := (case t' of Ended _ \<Rightarrow> None | _ \<Rightarrow> Some t')\<rparr>"
    using a Some by (simp add: racing_check_def)
  have "flight (racing_check s) = flight s" by (simp add: flight_def s')
  then show ?thesis
    using assms chk by (cases t') (auto simp: racing_inv_def s')
qed

lemma racing_inv_reachable:
  assumes "racing_reachable E B P s0 s" "racing_inv E B P b0 s0"
  shows "racing_inv E B P b0 s"
  using assms(1)
proof (induction rule: racing_reachable.induct)
  case (step s op s')
  then show ?case
    by (cases op) (auto intro: racing_inv_coarse racing_inv_take racing_inv_finish racing_inv_access racing_inv_check
        simp del: racing_exec.simps(1))
qed (rule assms(2))

lemma flight_quiet:
  assumes "length (rb_calls s) = length (workers (rb_bp s))" "set (rb_calls s) \<subseteq> {None}"
  shows "flight s = total_load (workers (rb_bp s))"
proof -
  have "map2 in_flight (workers (rb_bp s)) (rb_calls s) = map worker_load (workers (rb_bp s))"
  proof (rule nth_equalityI)
    fix i assume "i < length (map2 in_flight (workers (rb_bp s)) (rb_calls s))"
    then have i: "i < length (workers (rb_bp s))" "i < length (rb_calls s)" by simp_all
    then have "rb_calls s ! i = None" using assms(2) nth_mem by blast
    then show "map2 in_flight (workers (rb_bp s)) (rb_calls s) ! i = map worker_load (workers (rb_bp s)) ! i"
      using i by simp
  qed (use assms(1) in simp)
  then show ?thesis by (simp add: flight_def total_load_def)
qed

lemma started_workers:
  "workers (batch_processor_new E B cfg rm queue_size now w) = replicate (unat (parallel_workers cfg)) Idle"
  "bp_resources (batch_processor_new E B cfg rm queue_size now w) = rm"
  by (simp_all add: batch_processor_new_def Let_def)

section \<open>Properties\<close>

text \<open>
  C32. The batch processor on several threads, with the resource manager shared access by access, refines
  the one that calls it in single steps: in every state that the collector, the workers, the callers
  and the checks of the consumer can reach, the batch processor is, but for the resource manager, in a
  state that the coarse system reaches; so no event is lost, duplicated or reordered. The count in
  flight is that of the batches whose start has been counted and whose completion has not; when no
  worker is inside a call it is exactly the load of the workers.
\<close>

theorem batch_races_refine:
  assumes "batch_channels E econt ecap B bcont bcap" "queue_size \<noteq> 0" "messages_in_flight rm = 0"
    and "racing_reachable E B P (racing_start (batch_processor_new E B cfg rm queue_size now w)) s"
  shows "(\<exists>m. bp_reachable E B P (batch_processor_new E B cfg rm queue_size now w) (with_resources m (rb_bp s)))
    \<and> accepted (rb_bp s) = concat (taken (rb_bp s) @ bcont (batch_channel (rb_bp s))) @ lost (rb_bp s)
        @ pending_batch (collector_mode (collector (rb_bp s))) @ current_batch (collector (rb_bp s))
        @ econt (event_channel (rb_bp s))
    \<and> messages_in_flight (bp_resources (rb_bp s)) = of_nat (flight s)
    \<and> (set (rb_calls s) \<subseteq> {None} \<longrightarrow>
         messages_in_flight (bp_resources (rb_bp s)) = of_nat (total_load (workers (rb_bp s))))"
proof -
  let ?b0 = "batch_processor_new E B cfg rm queue_size now w"
  have "racing_inv E B P ?b0 (racing_start ?b0)"
    by (rule racing_inv_start [OF started_workers(1)]) (simp add: started_workers(2) assms(3))
  then have inv: "racing_inv E B P ?b0 s" by (rule racing_inv_reachable [OF assms(4)])
  then obtain m where m: "bp_reachable E B P ?b0 (with_resources m (rb_bp s))" by (auto simp: racing_inv_def)
  show ?thesis
    using m events_conserved_facts(1) [OF assms(1-3) m] inv flight_quiet [of s]
    by (auto simp: racing_inv_def)
qed

text \<open>The schedule of two workers that complete at the same time: each tests before either lowers.\<close>

fun racing_run ::
  "('j solana_event, 'ec) channel_ops \<Rightarrow> ('j solana_event list, 'bc) channel_ops \<Rightarrow> ('j, 'w) event_processor
   \<Rightarrow> 'j solana_event racing_op list \<Rightarrow> ('j, 'ec, 'bc, 'w) racing_bp \<Rightarrow> ('j, 'ec, 'bc, 'w) racing_bp option" where
  "racing_run E B P [] s = Some s"
| "racing_run E B P (op # ops) s = Option.bind (racing_exec E B P op s) (racing_run E B P ops)"

lemma racing_run_reachable:
  "racing_run E B P ops s = Some s' \<Longrightarrow> racing_reachable E B P s0 s \<Longrightarrow> racing_reachable E B P s0 s'"
  by (induction ops arbitrary: s) (auto simp: bind_eq_Some_conv intro: racing_reachable.step)

definition finishing_schedule :: "nat \<Rightarrow> nat \<Rightarrow> 'e racing_op list" where
  "finishing_schedule i j = Finish i # Finish j # map (\<lambda>k. Access (if k = 0 then i else j)) racing_schedule"

lemma racing_workers_run:
  assumes "i < length (rb_calls s)" "j < length (rb_calls s)" "i \<noteq> j"
    and "rb_calls s ! i = None" "rb_calls s ! j = None"
    and "workers (rb_bp s) ! i = Working a [] ok fail" "workers (rb_bp s) ! j = Working b [] ok' fail'"
    and "backpressure_active_signals (bp_resources (rb_bp s)) = 1"
    and "messages_in_flight (bp_resources (rb_bp s)) - of_nat a - of_nat b
      < messages_deactivation_point (rm_config (bp_resources (rb_bp s)))"
    and "(messages_in_flight (bp_resources (rb_bp s)) - of_nat a - of_nat b) * (20 * 1024)
      < memory_deactivation_point (rm_config (bp_resources (rb_bp s)))"
  shows "\<exists>s'. racing_run E B P (finishing_schedule i j) s = Some s'
    \<and> workers (rb_bp s') = (workers (rb_bp s))[i := Idle, j := Idle]
    \<and> backpressure_active_signals (bp_resources (rb_bp s')) = - 1
    \<and> messages_in_flight (bp_resources (rb_bp s')) = messages_in_flight (bp_resources (rb_bp s)) - of_nat a - of_nat b"
  using assms
  by (simp add: finishing_schedule_def racing_schedule_def racing_finish_def racing_access_def
      is_backpressure_active_def deactivate_backpressure_signal_def with_resources_def)

text \<open>
  C13. Two workers of the batch processor finish their batches at the same time, while one backpressure
  signal is raised and what they leave is below the deactivation points: there is an interleaving of
  their accesses that ends with both workers idle and the count in flight right, but with the counter of
  signals wrapped to 2^64 - 1. A consumer that shares the resource manager then takes no message any
  more: every call of \<open>next_event\<close> returns empty and leaves the answers of Kafka alone, while no other
  batch completes.
\<close>

theorem racing_workers_stall:
  assumes "i < length (rb_calls s)" "j < length (rb_calls s)" "i \<noteq> j"
    and "rb_calls s ! i = None" "rb_calls s ! j = None"
    and "workers (rb_bp s) ! i = Working a [] ok fail" "workers (rb_bp s) ! j = Working b [] ok' fail'"
    and "backpressure_active_signals (bp_resources (rb_bp s)) = 1"
    and "messages_in_flight (bp_resources (rb_bp s)) - of_nat a - of_nat b
      < messages_deactivation_point (rm_config (bp_resources (rb_bp s)))"
    and "(messages_in_flight (bp_resources (rb_bp s)) - of_nat a - of_nat b) * (20 * 1024)
      < memory_deactivation_point (rm_config (bp_resources (rb_bp s)))"
  shows "\<exists>s'. racing_reachable E B P s s'
    \<and> workers (rb_bp s') = (workers (rb_bp s))[i := Idle, j := Idle]
    \<and> messages_in_flight (bp_resources (rb_bp s')) = messages_in_flight (bp_resources (rb_bp s)) - of_nat a - of_nat b
    \<and> unat (backpressure_active_signals (bp_resources (rb_bp s'))) = 2 ^ 64 - 1
    \<and> (\<forall>c. sc_resources c = bp_resources (rb_bp s') \<longrightarrow>
         (\<exists>c'. consume J K (replicate n id) is c = ([], c', is) \<and> sc_resources c' = bp_resources (rb_bp s')))"
proof -
  obtain s' where s': "racing_run E B P (finishing_schedule i j) s = Some s'"
      "workers (rb_bp s') = (workers (rb_bp s))[i := Idle, j := Idle]"
      "backpressure_active_signals (bp_resources (rb_bp s')) = - 1"
      "messages_in_flight (bp_resources (rb_bp s')) = messages_in_flight (bp_resources (rb_bp s)) - of_nat a - of_nat b"
    using racing_workers_run [OF assms] by blast
  have "racing_reachable E B P s s'" by (rule racing_run_reachable [OF s'(1) racing_reachable.init])
  moreover have "\<exists>c'. consume J K (replicate n id) is c = ([], c', is) \<and> sc_resources c' = bp_resources (rb_bp s')"
    if "sc_resources c = bp_resources (rb_bp s')" for c
    using stalled_consume [of c J K n "is"] s'(3) that by simp
  ultimately show ?thesis using s'(2-4) unat_max_usize by auto
qed

section \<open>Witnesses\<close>

text \<open>
  Two workers and batches of one event, with at most two messages in flight: both events are taken and
  processed, and the consumer's check raises a signal.
\<close>

definition sample_two_workers :: processing_config where
  "sample_two_workers =
     \<lparr>parallel_workers = 2, buffer_size = 10, batch_size = 1, batch_timeout = from_millis 500,
      dedup_window = from_secs 1, enable_pre_filtering = True, enable_metrics = False\<rparr>"

definition sample_racing_ops :: "json solana_event racing_op list" where
  "sample_racing_ops =
     [Coarse (AddEvent (sample_event ''a'')), Coarse (CollectorRecv 1 1), Coarse (CollectorSend 2 2),
      Coarse (AddEvent (sample_event ''b'')), Coarse (CollectorRecv 3 3), Coarse (CollectorSend 4 4),
      Take 0, Access 0, Take 1, Access 1, Coarse (WorkerStep 0), Coarse (WorkerStep 1), Check, Check, Check]"

type_synonym sample_racing_bp =
  "(json, json solana_event list_channel, json solana_event list list_channel, transaction_log list) racing_bp"

lemma two_workers: "replicate 2 x = [x, x]"
  by (simp add: numeral_2_eq_2)

lemma sample_racing_run:
  "\<exists>s :: sample_racing_bp.
     racing_run list_channel list_channel (tx_event_processor json_tree) sample_racing_ops
       (racing_start (batch_processor_new list_channel list_channel sample_two_workers
          (resource_manager_new (sample_limits 2)) 5 0 [])) = Some s
     \<and> workers (rb_bp s) = [Working 1 [] 1 0, Working 1 [] 1 0] \<and> rb_calls s = [None, None]
     \<and> bp_resources (rb_bp s) = (resource_manager_new (sample_limits 2))
          \<lparr>messages_in_flight := 2, backpressure_active_signals := 1\<rparr>"
  by (simp add: sample_racing_ops_def sample_two_workers_def racing_start_def batch_processor_new_def list_channel_def
      two_workers add_event_def collector_recv_def collector_on_event_def set_collector_def collector_send_def
      racing_take_def racing_access_def racing_check_def with_resources_def worker_take_def worker_start_def
      worker_step_def worker_event_def tx_event_processor_def tx_should_process_def tx_process_def sample_event_def
      resource_manager_new_def start_processing_def activate_backpressure_signal_def is_backpressure_active_def
      sample_limits_def Let_def)

lemma sample_racing_reachable:
  obtains s :: sample_racing_bp where
    "racing_reachable list_channel list_channel (tx_event_processor json_tree)
       (racing_start (batch_processor_new list_channel list_channel sample_two_workers
          (resource_manager_new (sample_limits 2)) 5 0 [])) s"
    "workers (rb_bp s) = [Working 1 [] 1 0, Working 1 [] 1 0]" "rb_calls s = [None, None]"
    "bp_resources (rb_bp s) = (resource_manager_new (sample_limits 2))
       \<lparr>messages_in_flight := 2, backpressure_active_signals := 1\<rparr>"
  using sample_racing_run racing_run_reachable racing_reachable.init by meson

theorem batch_races_refine_witness:
  "\<exists>s :: sample_racing_bp.
     racing_reachable list_channel list_channel (tx_event_processor json_tree)
       (racing_start (batch_processor_new list_channel list_channel sample_two_workers
          (resource_manager_new (sample_limits 2)) 5 0 [])) s
     \<and> messages_in_flight (bp_resources (rb_bp s)) = 2 \<and> total_load (workers (rb_bp s)) = 2"
proof -
  obtain s :: sample_racing_bp where
    s: "racing_reachable list_channel list_channel (tx_event_processor json_tree)
       (racing_start (batch_processor_new list_channel list_channel sample_two_workers
          (resource_manager_new (sample_limits 2)) 5 0 [])) s"
    "workers (rb_bp s) = [Working 1 [] 1 0, Working 1 [] 1 0]" "rb_calls s = [None, None]"
    by (rule sample_racing_reachable)
  have q: "(5 :: usize) \<noteq> 0" by simp
  have quiet: "set (rb_calls s) \<subseteq> {None}" using s(3) by simp
  from batch_races_refine [OF list_bp.batch_channels_axioms q sample_limits_fresh s(1)] quiet
  have "messages_in_flight (bp_resources (rb_bp s)) = of_nat (total_load (workers (rb_bp s)))" by blast
  moreover have "total_load (workers (rb_bp s)) = 2" by (simp add: s(2) total_load_def)
  ultimately have "messages_in_flight (bp_resources (rb_bp s)) = 2" by simp
  with s(1) \<open>total_load (workers (rb_bp s)) = 2\<close> show ?thesis by blast
qed

theorem racing_workers_stall_witness:
  "\<exists>s :: sample_racing_bp.
     racing_reachable list_channel list_channel (tx_event_processor json_tree)
       (racing_start (batch_processor_new list_channel list_channel sample_two_workers
          (resource_manager_new (sample_limits 2)) 5 0 [])) s
     \<and> workers (rb_bp s) = [Idle, Idle] \<and> messages_in_flight (bp_resources (rb_bp s)) = 0
     \<and> unat (backpressure_active_signals (bp_resources (rb_bp s))) = 18446744073709551615"
proof -
  let ?s0 = "racing_start (batch_processor_new list_channel list_channel sample_two_workers
          (resource_manager_new (sample_limits 2)) 5 0 []) :: sample_racing_bp"
  obtain s :: sample_racing_bp where
    s: "racing_reachable list_channel list_channel (tx_event_processor json_tree) ?s0 s"
    "workers (rb_bp s) = [Working 1 [] 1 0, Working 1 [] 1 0]" "rb_calls s = [None, None]"
    "bp_resources (rb_bp s) = (resource_manager_new (sample_limits 2))
       \<lparr>messages_in_flight := 2, backpressure_active_signals := 1\<rparr>"
    by (rule sample_racing_reachable)
  have idx: "0 < length (rb_calls s)" "1 < length (rb_calls s)" "(0 :: nat) \<noteq> 1"
    and free: "rb_calls s ! 0 = None" "rb_calls s ! 1 = None"
    and ready: "workers (rb_bp s) ! 0 = Working 1 [] 1 0" "workers (rb_bp s) ! 1 = Working 1 [] 1 0"
    and one: "backpressure_active_signals (bp_resources (rb_bp s)) = 1"
    using s(2-4) by simp_all
  have limits: "rm_config (bp_resources (rb_bp s)) = sample_limits 2" "messages_in_flight (bp_resources (rb_bp s)) = 2"
    using s(4) by (simp_all add: resource_manager_new_def)
  have low: "messages_in_flight (bp_resources (rb_bp s)) - of_nat 1 - of_nat 1
      < messages_deactivation_point (rm_config (bp_resources (rb_bp s)))"
    using messages_point_pos [of "sample_limits 2"] by (simp add: limits) (simp add: sample_limits_def)
  have mem: "(messages_in_flight (bp_resources (rb_bp s)) - of_nat 1 - of_nat 1) * (20 * 1024)
      < memory_deactivation_point (rm_config (bp_resources (rb_bp s)))"
    using sample_limits_points(2) [of 2] by (simp add: limits)
  from racing_workers_stall [OF idx free ready one low mem, of list_channel list_channel "tx_event_processor json_tree"
      json_tree sample_codecs 0 "[]"]
  obtain s' where s': "racing_reachable list_channel list_channel (tx_event_processor json_tree) s s'"
    "workers (rb_bp s') = [Idle, Idle]" "messages_in_flight (bp_resources (rb_bp s')) = 0"
    "unat (backpressure_active_signals (bp_resources (rb_bp s'))) = 18446744073709551615"
    by (auto simp: s(2) limits)
  have "racing_reachable list_channel list_channel (tx_event_processor json_tree) ?s0 s'"
    by (rule racing_reachable_trans [OF s'(1) s(1)])
  with s'(2-4) show ?thesis by blast
qed

end
