(* ===== verification/OneWorker.thy ===== *)
theory OneWorker
  imports BatchRaces
begin

text \<open>
  The system of BatchRaces with one worker, and at its end: what the tests of the resource manager are
  worth there. No signal is lowered that was not raised; but a completion can miss a signal that the
  consumer is about to raise, and nobody lowers it then.
\<close>

section \<open>One worker\<close>

text \<open>
  With one worker and one consumer the tests hold until the call acts on them: only the consumer
  raises, and only while no signal is raised; only the worker lowers.
\<close>

definition one_worker_inv :: "('j, 'ec, 'bc, 'w) racing_bp \<Rightarrow> bool" where
  "one_worker_inv s \<longleftrightarrow>
     length (rb_calls s) = 1
     \<and> backpressure_active_signals (bp_resources (rb_bp s)) \<in> {0, 1}
     \<and> (\<forall>t. rb_check s = Some t \<longrightarrow>
          0 < pending_raise t \<and> backpressure_active_signals (bp_resources (rb_bp s)) = 0)
     \<and> (\<forall>t. rb_calls s ! 0 = Some t \<longrightarrow>
          pending_raise t = 0 \<and> (t = CompleteLower \<longrightarrow> backpressure_active_signals (bp_resources (rb_bp s)) = 1))"

text \<open>What an access of the worker, and one of the consumer, do to the signals.\<close>

lemma worker_access_signals:
  assumes "access t m = (m', t')" "pending_raise t = 0" "backpressure_active_signals m \<in> {0, 1}"
    and "t = CompleteLower \<Longrightarrow> backpressure_active_signals m = 1"
  shows "pending_raise t' = 0" "backpressure_active_signals m' \<in> {0, 1}"
    and "t' = CompleteLower \<Longrightarrow> backpressure_active_signals m' = 1"
    and "backpressure_active_signals m = 0 \<Longrightarrow> backpressure_active_signals m' = 0"
  using assms
  by (cases t; auto simp: is_backpressure_active_def deactivate_backpressure_signal_def start_processing_def split: if_splits)+

lemma check_access_signals:
  assumes "access t m = (m', t')" "0 < pending_raise t" "backpressure_active_signals m = 0"
  shows "backpressure_active_signals m' \<in> {0, 1}"
    and "(\<exists>r. t' = Ended r) \<or> 0 < pending_raise t' \<and> backpressure_active_signals m' = 0"
  using assms by (cases t; auto simp: activate_backpressure_signal_def split: if_splits)+

lemma one_worker_step:
  assumes "one_worker_inv s" "racing_exec E B P op s = Some s'"
  shows "one_worker_inv s'"
proof (cases op)
  case (Coarse c)
  then obtain b' where "without_call c s" "bp_exec E B P c (rb_bp s) = Some b'" "s' = s\<lparr>rb_bp := b'\<rparr>"
    using assms(2) by (auto split: if_splits)
  with assms(1) coarse_frame(2) [of c s E B P b'] show ?thesis
    by (simp add: one_worker_inv_def)
next
  case (Take i)
  then obtain b where b: "worker_take B i (rb_bp s) = Some b"
    and s': "s' = s\<lparr>rb_bp := with_resources (bp_resources (rb_bp s)) b,
         rb_calls := (case workers b ! i of
             Working n rest ok fail \<Rightarrow> (rb_calls s)[i := Some (StartBegin (of_nat n))]
           | _ \<Rightarrow> rb_calls s)\<rparr>"
    using assms(2) by (auto simp: racing_take_def)
  have "length (rb_calls s') = 1" "bp_resources (rb_bp s') = bp_resources (rb_bp s)" "rb_check s' = rb_check s"
    "rb_calls s' ! 0 = rb_calls s ! 0 \<or> (\<exists>n. rb_calls s' ! 0 = Some (StartBegin n))"
    using assms(1) by (cases i; auto simp: one_worker_inv_def s' split: worker.split)+
  then show ?thesis using assms(1) by (auto simp: one_worker_inv_def)
next
  case (Finish i)
  then show ?thesis
    using assms by (auto simp: one_worker_inv_def racing_finish_def split: if_splits worker.splits list.splits)
next
  case (Access i)
  then obtain t where i: "i = 0" "rb_calls s ! 0 = Some t"
    using assms by (auto simp: one_worker_inv_def racing_access_def split: if_splits option.splits)
  obtain m t' where a: "access t (bp_resources (rb_bp s)) = (m, t')" by fastforce
  have "pending_raise t = 0" "backpressure_active_signals (bp_resources (rb_bp s)) \<in> {0, 1}"
    "t = CompleteLower \<Longrightarrow> backpressure_active_signals (bp_resources (rb_bp s)) = 1"
    using assms(1) i(2) by (simp_all add: one_worker_inv_def)
  note sig = worker_access_signals [OF a this]
  have "bp_resources (rb_bp s') = m" "rb_check s' = rb_check s" "length (rb_calls s') = 1"
    "rb_calls s' ! 0 = (case t' of Ended _ \<Rightarrow> None | _ \<Rightarrow> Some t')"
    using assms Access i a by (cases t'; auto simp: one_worker_inv_def racing_access_def)+
  then show ?thesis
    using assms(1) sig by (cases t') (auto simp: one_worker_inv_def split: option.splits)
next
  case Check
  then show ?thesis
  proof (cases "rb_check s")
    case None
    then show ?thesis
      using assms Check by (auto simp: one_worker_inv_def racing_check_def is_backpressure_active_def)
  next
    case (Some t)
    obtain m t' where a: "access t (bp_resources (rb_bp s)) = (m, t')" by fastforce
    have "0 < pending_raise t" "backpressure_active_signals (bp_resources (rb_bp s)) = 0"
      using assms(1) Some by (simp_all add: one_worker_inv_def)
    note sig = check_access_signals [OF a this]
    have "bp_resources (rb_bp s') = m" "rb_calls s' = rb_calls s"
      "rb_check s' = (case t' of Ended _ \<Rightarrow> None | _ \<Rightarrow> Some t')"
      using assms(2) Check Some a by (auto simp: racing_check_def)
    then show ?thesis
      using assms(1) sig Some by (cases t') (auto simp: one_worker_inv_def split: option.splits)
  qed
qed

lemma one_worker_reachable:
  "racing_reachable E B P s0 s \<Longrightarrow> one_worker_inv s0 \<Longrightarrow> one_worker_inv s"
  by (induction rule: racing_reachable.induct) (auto intro: one_worker_step simp del: racing_exec.simps)

section \<open>Out of work\<close>

text \<open>Nothing waits, nothing is formed or processed, and no worker is inside a call.\<close>

fun is_working :: "'e worker \<Rightarrow> bool" where
  "is_working (Working n rest ok fail) = True"
| "is_working _ = False"

definition out_of_work ::
  "('ec \<Rightarrow> 'j solana_event list) \<Rightarrow> ('bc \<Rightarrow> 'j solana_event list list) \<Rightarrow> ('j, 'ec, 'bc, 'w) racing_bp \<Rightarrow> bool" where
  "out_of_work econt bcont s \<longleftrightarrow>
     econt (event_channel (rb_bp s)) = [] \<and> bcont (batch_channel (rb_bp s)) = []
     \<and> current_batch (collector (rb_bp s)) = [] \<and> (\<forall>r b. collector_mode (collector (rb_bp s)) \<noteq> Sending r b)
     \<and> (\<forall>w \<in> set (workers (rb_bp s)). \<not> is_working w)
     \<and> length (rb_calls s) = length (workers (rb_bp s)) \<and> set (rb_calls s) \<subseteq> {None}"

fun adds_no_event :: "'e racing_op \<Rightarrow> bool" where
  "adds_no_event (Coarse (AddEvent e)) = False"
| "adds_no_event op = True"

lemma no_call: "set cs \<subseteq> {None} \<Longrightarrow> i < length cs \<Longrightarrow> cs ! i = None"
  using nth_mem by blast

context batch_channels
begin

text \<open>The steps that are left without an event to add: the tasks may end.\<close>

lemma idle_recv: "econt (event_channel b) = [] \<Longrightarrow> ch_recv E (event_channel b) = None"
  by (simp add: ev.recv_none)

lemma idle_take: "bcont (batch_channel b) = [] \<Longrightarrow> worker_take B i b = Some b' \<Longrightarrow>
    workers b ! i = Idle \<and> b' = b\<lparr>workers := (workers b)[i := WorkerStopped]\<rparr>"
  using bt.recv_none [of "batch_channel b"] by (auto simp: worker_take_def split: if_splits)

lemma out_of_work_coarse:
  assumes "out_of_work econt bcont s" "racing_exec E B P (Coarse c) s = Some s'" "adds_no_event (Coarse c)"
  shows "out_of_work econt bcont s' \<and> bp_resources (rb_bp s') = bp_resources (rb_bp s) \<and> rb_check s' = rb_check s"
proof (cases c)
  case (CollectorRecv now nx)
  then show ?thesis
    using assms idle_recv [of "rb_bp s"] ev.close_effect [of "event_channel (rb_bp s)"]
    by (auto simp: out_of_work_def collector_recv_def set_collector_def collector_on_closed_def split: if_splits)
next
  case (WorkerStep i)
  then obtain n e rest ok fail where "workers (rb_bp s) ! i = Working n (e # rest) ok fail" "i < length (workers (rb_bp s))"
    using assms(2) by (auto simp: worker_step_def split: if_splits worker.splits list.splits)
  then show ?thesis using assms(1) by (metis is_working.simps(1) nth_mem out_of_work_def)
next
  case Shutdown
  then show ?thesis
    using assms ev.close_effect [of "event_channel (rb_bp s)"] by (auto simp: out_of_work_def bp_shutdown_def)
qed (use assms in \<open>auto simp: out_of_work_def collector_timeout_def timeout_enabled_def collector_send_def
    split: if_splits collector_mode.splits\<close>)

lemma out_of_work_step:
  assumes "out_of_work econt bcont s" "racing_exec E B P op s = Some s'" "adds_no_event op"
    and "rb_check s = None" "backpressure_active_signals (bp_resources (rb_bp s)) \<noteq> 0"
  shows "out_of_work econt bcont s' \<and> bp_resources (rb_bp s') = bp_resources (rb_bp s) \<and> rb_check s' = None"
proof (cases op)
  case (Coarse c)
  then show ?thesis using out_of_work_coarse [of s P c s'] assms by auto
next
  case (Take i)
  then obtain b where b: "worker_take B i (rb_bp s) = Some b"
    "s' = s\<lparr>rb_bp := with_resources (bp_resources (rb_bp s)) b,
         rb_calls := (case workers b ! i of
             Working n rest ok fail \<Rightarrow> (rb_calls s)[i := Some (StartBegin (of_nat n))]
           | _ \<Rightarrow> rb_calls s)\<rparr>"
    using assms(2) by (auto simp: racing_take_def)
  have i: "i < length (workers (rb_bp s))" using b(1) by (auto simp: worker_take_def split: if_splits)
  have "b = (rb_bp s)\<lparr>workers := (workers (rb_bp s))[i := WorkerStopped]\<rparr>"
    using idle_take [OF _ b(1)] assms(1) by (simp add: out_of_work_def)
  then have "s' = s\<lparr>rb_bp := (rb_bp s)\<lparr>workers := (workers (rb_bp s))[i := WorkerStopped]\<rparr>\<rparr>"
    using b(2) i by (simp add: with_resources_def)
  then show ?thesis
    using assms(1,4) set_update_subset_insert [of "workers (rb_bp s)" i WorkerStopped]
    by (fastforce simp: out_of_work_def)
next
  case (Finish i)
  then obtain n ok fail where "i < length (rb_calls s)" "workers (rb_bp s) ! i = Working n [] ok fail"
    using assms(2) by (auto simp: racing_finish_def split: if_splits worker.splits list.splits)
  then show ?thesis
    using assms(1) by (metis is_working.simps(1) nth_mem out_of_work_def)
next
  case (Access i)
  then show ?thesis
    using assms(1,2) no_call [of "rb_calls s" i] by (auto simp: racing_access_def out_of_work_def split: if_splits)
next
  case Check
  then show ?thesis
    using assms by (auto simp: racing_check_def is_backpressure_active_def word_gt_0)
qed

lemma out_of_work_run:
  assumes "racing_run E B P ops s = Some s'" "list_all adds_no_event ops" "out_of_work econt bcont s"
    and "rb_check s = None" "backpressure_active_signals (bp_resources (rb_bp s)) \<noteq> 0"
  shows "out_of_work econt bcont s' \<and> bp_resources (rb_bp s') = bp_resources (rb_bp s)"
  using assms
proof (induction ops arbitrary: s)
  case (Cons op ops)
  then obtain s1 where s1: "racing_exec E B P op s = Some s1" "racing_run E B P ops s1 = Some s'"
    by (auto simp: bind_eq_Some_conv simp del: racing_exec.simps)
  have "out_of_work econt bcont s1 \<and> bp_resources (rb_bp s1) = bp_resources (rb_bp s) \<and> rb_check s1 = None"
    using out_of_work_step [OF Cons.prems(3) s1(1)] Cons.prems(2,4,5) by simp
  with Cons.IH [OF s1(2)] Cons.prems(2,5) show ?case by simp
qed simp

end

section \<open>A completion that misses a signal\<close>

text \<open>The worker completes between the last load of the consumer and the raise it decides.\<close>

definition missing_schedule :: "nat \<Rightarrow> 'e racing_op list" where
  "missing_schedule i = Finish i # replicate 5 (Access i) @ [Check]"

lemma missing_run:
  assumes "i < length (rb_calls s)" "rb_calls s ! i = None"
    and "workers (rb_bp s) ! i = Working n [] ok fail"
    and "rb_check s = Some (CheckRaise e)" "backpressure_active_signals (bp_resources (rb_bp s)) = 0"
    and "messages_in_flight (bp_resources (rb_bp s)) - of_nat n
      < messages_deactivation_point (rm_config (bp_resources (rb_bp s)))"
    and "(messages_in_flight (bp_resources (rb_bp s)) - of_nat n) * (20 * 1024)
      < memory_deactivation_point (rm_config (bp_resources (rb_bp s)))"
  shows "racing_run E B P (missing_schedule i) s =
    Some (s\<lparr>rb_bp := (rb_bp s)\<lparr>workers := (workers (rb_bp s))[i := Idle],
             bp_resources := (bp_resources (rb_bp s))
               \<lparr>messages_in_flight := messages_in_flight (bp_resources (rb_bp s)) - of_nat n,
                current_memory_estimate_bytes := (messages_in_flight (bp_resources (rb_bp s)) - of_nat n) * (20 * 1024),
                backpressure_active_signals := 1\<rparr>\<rparr>,
            rb_calls := (rb_calls s)[i := None], rb_check := None\<rparr>)"
  using assms
  by (simp add: missing_schedule_def numeral_eq_Suc racing_finish_def racing_access_def racing_check_def
      is_backpressure_active_def activate_backpressure_signal_def with_resources_def)

section \<open>Properties\<close>

text \<open>
  C10. With one worker no signal is lowered that was not raised: from the start of a batch processor on a
  resource manager without signals, however its accesses interleave with those of the one consumer, the
  counter of signals is 0 or 1; it is 1 whenever the worker is about to lower it, and 0 whenever the
  consumer is inside a check. So the wrap-around that two workers can cause does not happen.
\<close>

theorem one_worker_signals:
  assumes "parallel_workers cfg = 1" "backpressure_active_signals rm = 0"
    and "racing_reachable E B P (racing_start (batch_processor_new E B cfg rm queue_size now w)) s"
  shows "unat (backpressure_active_signals (bp_resources (rb_bp s))) \<le> 1
    \<and> (rb_calls s = [Some CompleteLower] \<longrightarrow> backpressure_active_signals (bp_resources (rb_bp s)) = 1)
    \<and> (rb_check s \<noteq> None \<longrightarrow> backpressure_active_signals (bp_resources (rb_bp s)) = 0)"
proof -
  have "one_worker_inv (racing_start (batch_processor_new E B cfg rm queue_size now w))"
    using assms(1,2) by (simp add: one_worker_inv_def racing_start_def started_workers)
  from one_worker_reachable [OF assms(3) this] show ?thesis
    by (auto simp: one_worker_inv_def)
qed

text \<open>
  C14. But a completion can miss a signal, with one worker or more. When a worker finishes the last batch
  there is, and the consumer has found the limit reached but not yet raised its signal, there is an
  interleaving in which the completion finds no signal and the consumer then raises one. This state is
  final: no step but the acceptance of an event changes the resource manager, so the signal stays,
  with nothing of that batch in flight; and the consumer takes no message while it stays, whatever
  Kafka holds, so that it delivers no event that could be accepted.
\<close>

theorem completion_misses_signal:
  assumes "batch_channels E econt ecap B bcont bcap"
    and "i < length (rb_calls s)" "rb_calls s ! i = None" "workers (rb_bp s) ! i = Working n [] ok fail"
    and "out_of_work econt bcont (s\<lparr>rb_bp := (rb_bp s)\<lparr>workers := (workers (rb_bp s))[i := Idle]\<rparr>\<rparr>)"
    and "rb_check s = Some (CheckRaise e)" "backpressure_active_signals (bp_resources (rb_bp s)) = 0"
    and "messages_in_flight (bp_resources (rb_bp s)) - of_nat n
      < messages_deactivation_point (rm_config (bp_resources (rb_bp s)))"
    and "(messages_in_flight (bp_resources (rb_bp s)) - of_nat n) * (20 * 1024)
      < memory_deactivation_point (rm_config (bp_resources (rb_bp s)))"
  shows "\<exists>s'. racing_reachable E B P s s'
    \<and> workers (rb_bp s') = (workers (rb_bp s))[i := Idle]
    \<and> messages_in_flight (bp_resources (rb_bp s')) = messages_in_flight (bp_resources (rb_bp s)) - of_nat n
    \<and> backpressure_active_signals (bp_resources (rb_bp s')) = 1
    \<and> (\<forall>ops s2. list_all adds_no_event ops \<longrightarrow> racing_run E B P ops s' = Some s2 \<longrightarrow>
         bp_resources (rb_bp s2) = bp_resources (rb_bp s'))
    \<and> (\<forall>c. sc_resources c = bp_resources (rb_bp s') \<longrightarrow>
         (\<exists>c'. consume J K (replicate m id) is c = ([], c', is) \<and> sc_resources c' = bp_resources (rb_bp s')))"
proof -
  obtain s' where run: "racing_run E B P (missing_schedule i) s = Some s'"
    and s': "workers (rb_bp s') = (workers (rb_bp s))[i := Idle]" "rb_check s' = None"
      "messages_in_flight (bp_resources (rb_bp s')) = messages_in_flight (bp_resources (rb_bp s)) - of_nat n"
      "backpressure_active_signals (bp_resources (rb_bp s')) = 1"
      "event_channel (rb_bp s') = event_channel (rb_bp s)" "batch_channel (rb_bp s') = batch_channel (rb_bp s)"
      "collector (rb_bp s') = collector (rb_bp s)" "rb_calls s' = (rb_calls s)[i := None]"
    using missing_run [OF assms(2-4,6-9), where E = E and B = B and P = P] by fastforce
  have "(rb_calls s)[i := None] = rb_calls s" using assms(3) by (metis list_update_id)
  then have quiet: "out_of_work econt bcont s'" using assms(5) s' by (simp add: out_of_work_def)
  have "racing_reachable E B P s s'" by (rule racing_run_reachable [OF run racing_reachable.init])
  moreover have "bp_resources (rb_bp s2) = bp_resources (rb_bp s')"
    if "list_all adds_no_event ops" "racing_run E B P ops s' = Some s2" for ops s2
    using batch_channels.out_of_work_run [OF assms(1) that(2,1) quiet s'(2)] s'(4) by simp
  moreover have "\<exists>c'. consume J K (replicate m id) is c = ([], c', is) \<and> sc_resources c' = bp_resources (rb_bp s')"
    if "sc_resources c = bp_resources (rb_bp s')" for c
    using stalled_consume [of c J K m "is"] s'(4) that by simp
  ultimately show ?thesis using s'(1,3,4) by blast
qed

section \<open>Witnesses\<close>

text \<open>
  One worker, batches of two events and at most two messages in flight: both events are processed when
  the consumer finds the limit reached.
\<close>

definition sample_one_worker :: processing_config where
  "sample_one_worker = sample_two_workers\<lparr>parallel_workers := 1, batch_size := 2\<rparr>"

definition sample_full_ops :: "json solana_event racing_op list" where
  "sample_full_ops =
     [Coarse (AddEvent (sample_event ''a'')), Coarse (AddEvent (sample_event ''b'')),
      Coarse (CollectorRecv 1 1), Coarse (CollectorRecv 2 2), Coarse (CollectorSend 3 3),
      Take 0, Access 0, Coarse (WorkerStep 0), Coarse (WorkerStep 0), Check, Check]"

definition sample_start :: sample_racing_bp where
  "sample_start = racing_start (batch_processor_new list_channel list_channel sample_one_worker
     (resource_manager_new (sample_limits 2)) 5 0 [])"

lemma sample_full_run:
  "\<exists>s. racing_run list_channel list_channel (tx_event_processor json_tree) sample_full_ops sample_start = Some s
     \<and> workers (rb_bp s) = [Working 2 [] 2 0] \<and> rb_calls s = [None]
     \<and> rb_check s = Some (CheckRaise (in_flight_error 2 (sample_limits 2)))
     \<and> lc_items (event_channel (rb_bp s)) = [] \<and> lc_items (batch_channel (rb_bp s)) = []
     \<and> current_batch (collector (rb_bp s)) = [] \<and> collector_mode (collector (rb_bp s)) = Collecting
     \<and> bp_resources (rb_bp s) = (resource_manager_new (sample_limits 2))\<lparr>messages_in_flight := 2\<rparr>"
  by (simp add: sample_full_ops_def sample_start_def sample_one_worker_def sample_two_workers_def racing_start_def
      batch_processor_new_def list_channel_def add_event_def collector_recv_def collector_on_event_def
      set_collector_def collector_send_def racing_take_def racing_access_def racing_check_def with_resources_def
      worker_take_def worker_start_def worker_step_def worker_event_def tx_event_processor_def tx_should_process_def
      tx_process_def sample_event_def resource_manager_new_def start_processing_def is_backpressure_active_def
      sample_limits_def Let_def)

lemma sample_full_reachable:
  obtains s where
    "racing_reachable list_channel list_channel (tx_event_processor json_tree) sample_start s"
    "workers (rb_bp s) = [Working 2 [] 2 0]" "rb_calls s = [None]"
    "rb_check s = Some (CheckRaise (in_flight_error 2 (sample_limits 2)))"
    "lc_items (event_channel (rb_bp s)) = []" "lc_items (batch_channel (rb_bp s)) = []"
    "current_batch (collector (rb_bp s)) = []" "collector_mode (collector (rb_bp s)) = Collecting"
    "bp_resources (rb_bp s) = (resource_manager_new (sample_limits 2))\<lparr>messages_in_flight := 2\<rparr>"
  using sample_full_run racing_run_reachable racing_reachable.init by meson

theorem one_worker_signals_witness:
  "\<exists>s. racing_reachable list_channel list_channel (tx_event_processor json_tree) sample_start s
     \<and> rb_check s \<noteq> None \<and> backpressure_active_signals (bp_resources (rb_bp s)) = 0"
proof -
  obtain s where s: "racing_reachable list_channel list_channel (tx_event_processor json_tree) sample_start s"
    "rb_check s = Some (CheckRaise (in_flight_error 2 (sample_limits 2)))"
    by (rule sample_full_reachable)
  have "parallel_workers sample_one_worker = 1" "backpressure_active_signals (resource_manager_new (sample_limits 2)) = 0"
    by (simp_all add: sample_one_worker_def resource_manager_new_def)
  from one_worker_signals [OF this s(1) [unfolded sample_start_def]] s show ?thesis by auto
qed

theorem completion_misses_signal_witness:
  "\<exists>s. racing_reachable list_channel list_channel (tx_event_processor json_tree) sample_start s
     \<and> workers (rb_bp s) = [Idle] \<and> messages_in_flight (bp_resources (rb_bp s)) = 0
     \<and> backpressure_active_signals (bp_resources (rb_bp s)) = 1
     \<and> (\<forall>ops s2. list_all adds_no_event ops \<longrightarrow>
          racing_run list_channel list_channel (tx_event_processor json_tree) ops s = Some s2 \<longrightarrow>
          backpressure_active_signals (bp_resources (rb_bp s2)) = 1)"
proof -
  obtain s where s: "racing_reachable list_channel list_channel (tx_event_processor json_tree) sample_start s"
    "workers (rb_bp s) = [Working 2 [] 2 0]" "rb_calls s = [None]"
    "rb_check s = Some (CheckRaise (in_flight_error 2 (sample_limits 2)))"
    "lc_items (event_channel (rb_bp s)) = []" "lc_items (batch_channel (rb_bp s)) = []"
    "current_batch (collector (rb_bp s)) = []" "collector_mode (collector (rb_bp s)) = Collecting"
    "bp_resources (rb_bp s) = (resource_manager_new (sample_limits 2))\<lparr>messages_in_flight := 2\<rparr>"
    by (rule sample_full_reachable)
  have at: "0 < length (rb_calls s)" "rb_calls s ! 0 = None" "workers (rb_bp s) ! 0 = Working 2 [] 2 0"
    using s(2,3) by simp_all
  have quiet: "out_of_work lc_items lc_items (s\<lparr>rb_bp := (rb_bp s)\<lparr>workers := (workers (rb_bp s))[0 := Idle]\<rparr>\<rparr>)"
    using s by (simp add: out_of_work_def)
  have limits: "rm_config (bp_resources (rb_bp s)) = sample_limits 2" "messages_in_flight (bp_resources (rb_bp s)) = 2"
    and none: "backpressure_active_signals (bp_resources (rb_bp s)) = 0"
    using s(9) by (simp_all add: resource_manager_new_def)
  have low: "messages_in_flight (bp_resources (rb_bp s)) - of_nat 2
      < messages_deactivation_point (rm_config (bp_resources (rb_bp s)))"
    using messages_point_pos [of "sample_limits 2"] by (simp add: limits) (simp add: sample_limits_def)
  have mem: "(messages_in_flight (bp_resources (rb_bp s)) - of_nat 2) * (20 * 1024)
      < memory_deactivation_point (rm_config (bp_resources (rb_bp s)))"
    using sample_limits_points(2) [of 2] by (simp add: limits)
  from completion_misses_signal [OF list_bp.batch_channels_axioms at quiet s(4) none low mem,
      of "tx_event_processor json_tree" json_tree sample_codecs 0 "[]"]
  obtain s' where s': "racing_reachable list_channel list_channel (tx_event_processor json_tree) s s'"
    "workers (rb_bp s') = [Idle]" "messages_in_flight (bp_resources (rb_bp s')) = 0"
    "backpressure_active_signals (bp_resources (rb_bp s')) = 1"
    "\<And>ops s2. list_all adds_no_event ops \<Longrightarrow>
       racing_run list_channel list_channel (tx_event_processor json_tree) ops s' = Some s2 \<Longrightarrow>
       bp_resources (rb_bp s2) = bp_resources (rb_bp s')"
    by (auto simp: s(2) limits)
  have "racing_reachable list_channel list_channel (tx_event_processor json_tree) sample_start s'"
    by (rule racing_reachable_trans [OF s'(1) s(1)])
  with s'(2-5) show ?thesis by (intro exI [of _ s']) auto
qed

end
