(* ===== verification/Pipeline.thy ===== *)
theory Pipeline
  imports Consumer Batch
begin

text \<open>
  What the events that the consumer builds meet in the components behind it: the accessors of
  src/events.rs, the filter, the processors and the batch worker.
\<close>

section \<open>The fields of the events the consumer builds\<close>

lemma trade_event_fields:
  assumes "json_api J"
  shows "event_type (trade_event J K h tx t) = DexTrade"
    and "price J (trade_event J K h tx t) = None"
    and "program_id J (trade_event J K h tx t) = Some (hex_or_unknown K (dt_program_address t))"
    and "get_data_string_field J ''market_address'' (trade_event J K h tx t)
      = Some (hex_or_unknown K (map_option mk_market_address (dt_market t)))"
  by (simp_all add: trade_event_def event_field_defs Let_def json_api.json_simps [OF assms] split: prod.split)

lemma trade_event_amount:
  assumes "json_api J"
  shows "amount_base J (trade_event J K h tx t) =
    (case (dt_buy t, dt_sell t) of
       (Some b, Some s) \<Rightarrow> Some (f_of_nat (unat (sd_amount b)))
     | _ \<Rightarrow> Some (f_of_nat 0))"
proof -
  have "parse_f64 ''0'' = Some (f_of_nat 0)"
    using parse_f64_dec_string [of 0] by (simp add: dec_string.simps digit_char_def char_of_def bit_0)
  then show ?thesis
    by (simp add: trade_event_def event_field_defs Let_def json_api.json_simps [OF assms] u64_string_def
        parse_f64_dec_string split: prod.split option.split)
qed

lemma transfer_event_fields:
  assumes "json_api J"
  shows "event_type (transfer_event J K h tx t) = TokenTransfer"
    and "get_data_u64_field J ''amount'' (transfer_event J K h tx t) = None"
    and "get_data_string_field J ''amount'' (transfer_event J K h tx t) = Some (u64_string (tr_amount t))"
  by (simp_all add: transfer_event_def event_field_defs Let_def json_api.json_simps [OF assms] split: prod.split)

lemma transaction_event_fields:
  assumes "json_api J"
  shows "event_type (transaction_event J K h tx) = Transaction"
    and "get_data_u64_field J ''fee'' (transaction_event J K h tx) = None"
    and "get_data_u64_field J ''instructions_count'' (transaction_event J K h tx)
      = Some (of_nat (tx_instructions tx))"
  by (simp_all add: transaction_event_def event_field_defs Let_def json_api.json_simps [OF assms] split: prod.split)

section \<open>Properties\<close>

text \<open>The members of the data object of an event, with their kinds, by the type of the event.\<close>

definition string_members :: "event_type \<Rightarrow> string list" where
  "string_members t =
     (case t of
        Transaction \<Rightarrow> [''signer'', ''fee'']
      | TokenTransfer \<Rightarrow> [''from_account'', ''to_account'', ''mint'', ''amount'']
      | DexTrade \<Rightarrow>
          [''program_id'', ''market_address'', ''amount_base'', ''amount_quote'', ''base_mint'', ''quote_mint'',
           ''maker'', ''taker'', ''fee'', ''royalty'']
      | BalanceUpdate \<Rightarrow> [])"

definition number_members :: "event_type \<Rightarrow> string list" where
  "number_members t =
     (case t of
        Transaction \<Rightarrow> [''instructions_count'', ''accounts_count'']
      | TokenTransfer \<Rightarrow> [''decimals'']
      | _ \<Rightarrow> [])"

definition other_members :: "event_type \<Rightarrow> string list" where
  "other_members t = (if t = Transaction then [''logs''] else [])"

definition well_typed_event :: "'j json_ops \<Rightarrow> 'j solana_event \<Rightarrow> bool" where
  "well_typed_event J e \<longleftrightarrow>
     list_all (\<lambda>k. get_data_string_field J k e \<noteq> None) (string_members (event_type e))
     \<and> list_all (\<lambda>k. get_data_u64_field J k e \<noteq> None) (number_members (event_type e))
     \<and> {k. j_get J (data e) k \<noteq> None} =
         set (string_members (event_type e) @ number_members (event_type e) @ other_members (event_type e))"

lemmas well_typed_defs =
  well_typed_event_def string_members_def number_members_def other_members_def event_field_defs Let_def

lemma transaction_event_typed: "json_api J \<Longrightarrow> well_typed_event J (transaction_event J K h tx)"
  by (cases "tx_header tx")
     (auto simp: well_typed_defs transaction_event_def json_api.json_simps split: if_splits)

lemma transfer_event_typed: "json_api J \<Longrightarrow> well_typed_event J (transfer_event J K h tx t)"
  by (cases "tr_currency t")
     (auto simp: well_typed_defs transfer_event_def json_api.json_simps split: if_splits)

lemma trade_event_typed:
  assumes "json_api J"
  shows "well_typed_event J (trade_event J K h tx t)"
proof -
  have "\<exists>p m ab aq bm qm mk tk. data (trade_event J K h tx t) =
      j_object J
            [(''program_id'', j_string J p), (''market_address'', j_string J m),
             (''amount_base'', j_string J ab), (''amount_quote'', j_string J aq),
             (''base_mint'', j_string J bm), (''quote_mint'', j_string J qm),
             (''maker'', j_string J mk), (''taker'', j_string J tk),
             (''fee'', j_string J (u64_string (dt_fee t))),
             (''royalty'', j_string J (u64_string (dt_royalty t)))]"
    unfolding trade_event_def Let_def case_prod_unfold solana_event.select_convs by (intro exI) (rule refl)
  moreover have "event_type (trade_event J K h tx t) = DexTrade" by (rule trade_event_fields(1) [OF assms])
  ultimately show ?thesis
    by (auto simp: well_typed_defs json_api.json_simps [OF assms] split: if_splits)
qed

text \<open>
  C29. Every event the consumer builds is well typed, whatever the decoders answer: its type is the one
  of the topic it came from, its data has exactly the members of that type, and each of them has the
  kind of that member, a text or an unsigned number.
\<close>

theorem decoded_event_typed:
  assumes "json_api J" "decode_event J K topic payload = Some (Inr e)"
  shows "well_typed_event J e
    \<and> (topic, event_type e) \<in>
        {(''solana.transactions.proto'', Transaction), (''solana.tokens.proto'', TokenTransfer),
         (''solana.dextrades.proto'', DexTrade)}"
proof -
  consider h tx where "topic = ''solana.transactions.proto''" "e = transaction_event J K h tx"
    | h tx t where "topic = ''solana.tokens.proto''" "e = transfer_event J K h tx t"
    | h tx t where "topic = ''solana.dextrades.proto''" "e = trade_event J K h tx t"
    using assms(2)
    by (simp add: decode_event_def parse_first_facts split: if_splits) blast+
  then show ?thesis
    using transaction_event_typed [OF assms(1)] transfer_event_typed [OF assms(1)] trade_event_typed [OF assms(1)]
      transaction_event_fields(1) [OF assms(1)] transfer_event_fields(1) [OF assms(1)]
      trade_event_fields(1) [OF assms(1)]
    by cases auto
qed

theorem decoded_event_typed_witness:
  "\<exists>e. decode_event json_tree sample_codecs ''solana.transactions.proto'' [1] = Some (Inr e)
     \<and> event_type e = Transaction \<and> well_typed_event json_tree e"
proof -
  obtain e where e: "decode_event json_tree sample_codecs ''solana.transactions.proto'' [1] = Some (Inr e)"
    using sample_decoded [of "[1]"] by (auto simp: sample_message_def)
  with decoded_event_typed [OF json_tree.json_api_axioms e] show ?thesis by auto
qed

lemma trade_amount_roundtrip_facts:
  assumes "json_api J" "dt_buy t = Some b" "dt_sell t = Some s"
  shows "amount_base J (trade_event J K h tx t) = Some (f_of_nat (unat (sd_amount b)))"
    and "price J (trade_event J K h tx t) = None"
  using trade_event_amount [OF assms(1)] trade_event_fields(2) [OF assms(1)] assms(2,3) by simp_all

text \<open>
  The amount of a trade survives the event: \<open>amount_base\<close> reads back the bought amount of the
  Kafka message, as the nearest floating-point number, and the string is exact; but no event of the
  consumer has a price.
\<close>

theorem trade_amount_roundtrip:
  assumes "json_api J" "dt_buy t = Some b" "dt_sell t = Some s"
  shows "(amount_base J (trade_event J K h tx t) = Some (f_of_nat (unat (sd_amount b))))
    \<and> (price J (trade_event J K h tx t) = None)"
  by (intro conjI trade_amount_roundtrip_facts [OF assms])

lemma consumer_trades_rejected_facts:
  assumes "json_api J" "f_lt (Fin 0) (min_amount_usd p)"
  shows "\<not> dex_should_process J p (trade_event J K h tx t)"
    and "dex_process J now p (trade_event J K h tx t) w = (w, Completed (Inr ()))"
proof -
  show rejected: "\<not> dex_should_process J p (trade_event J K h tx t)"
    using assms(2) trade_event_fields(2) [OF assms(1), of K h tx t] trade_event_amount [OF assms(1), of K h tx t]
    by (auto simp: dex_should_process_def split: option.splits)
  then show "dex_process J now p (trade_event J K h tx t) w = (w, Completed (Inr ()))"
    by (simp add: dex_process_def)
qed

text \<open>
  No trade that the consumer produces passes a DEX processor with a positive minimum value, the
  default one included: the value needs a price, and the consumer never writes one.
\<close>

theorem consumer_trades_rejected:
  assumes "json_api J" "f_lt (Fin 0) (min_amount_usd p)"
  shows "(\<not> dex_should_process J p (trade_event J K h tx t))
    \<and> (dex_process J now p (trade_event J K h tx t) w = (w, Completed (Inr ())))"
  by (intro conjI consumer_trades_rejected_facts [OF assms])

lemma transfer_amount_filtered_facts:
  assumes "json_api J" "min_amount f = Some m"
  shows "\<not> matches J f (transfer_event J K h tx t)"
    and "\<not> passes_filter J (Some f) (transfer_event J K h tx t)"
  using assms transfer_event_fields [OF assms(1), of K h tx t]
  by (simp_all add: matches_def rejects_amount_def event_value_def)

text \<open>
  No token transfer that the consumer produces passes a filter with a minimum amount, whatever
  the amount: the consumer writes the amount as a string, the filter reads it as a number.
\<close>

theorem transfer_amount_filtered:
  assumes "json_api J" "min_amount f = Some m"
  shows "(\<not> matches J f (transfer_event J K h tx t))
    \<and> (\<not> passes_filter J (Some f) (transfer_event J K h tx t))"
  by (intro conjI transfer_amount_filtered_facts [OF assms])

text \<open>
  The transaction processor logs a fee of 0 for every transaction event of the consumer, which
  writes the fee as a string; the other counts are right.
\<close>

theorem transaction_fee_logged_zero:
  assumes "json_api J"
  shows "\<exists>entry. tx_process J (transaction_event J K h tx) w = (w @ [entry], Completed (Inr ()))
    \<and> log_fee entry = 0 \<and> log_instructions entry = of_nat (tx_instructions tx)"
  using transaction_event_fields [OF assms, of K h tx] by (simp add: tx_process_def)

text \<open>A dead worker stays dead.\<close>

lemma worker_update: "worker_step B P j s = Some s' \<Longrightarrow> \<exists>x. workers s' = (workers s)[j := x] \<and> \<not> is_dead (workers s ! j)"
  by (auto simp: worker_step_def Let_def split: if_splits worker.splits list.splits prod.splits)

lemma dead_stays:
  assumes "bp_exec E B P op s = Some s'" "workers s ! i = Dead n"
  shows "workers s' ! i = Dead n"
proof (cases op)
  case (AddEvent e)
  then show ?thesis using assms by (auto simp: add_event_def split: if_splits option.splits)
next
  case (CollectorRecv t u)
  then show ?thesis using assms by (auto simp: collector_recv_def set_collector_def split: if_splits option.splits)
next
  case (CollectorTimeout t)
  then show ?thesis using assms by (auto simp: collector_timeout_def split: if_splits)
next
  case (CollectorSend t u)
  then show ?thesis
    using assms by (auto simp: collector_send_def set_collector_def split: if_splits option.splits collector_mode.splits)
next
  case (WorkerTake j)
  then show ?thesis
    using assms by (cases "i = j") (auto simp: worker_take_def Let_def split: if_splits option.splits prod.splits)
next
  case (WorkerStep j)
  then obtain x where "workers s' = (workers s)[j := x]" "\<not> is_dead (workers s ! j)"
    using assms(1) worker_update by fastforce
  then show ?thesis using assms(2) by (cases "i = j") auto
next
  case Shutdown
  then show ?thesis using assms by (auto simp: bp_shutdown_def)
next
  case CheckResources
  then show ?thesis using assms by auto
qed

lemma dead_for_ever: "bp_reachable E B P s0 s \<Longrightarrow> workers s0 ! i = Dead n \<Longrightarrow> workers s ! i = Dead n"
  by (induction rule: bp_reachable.induct) (auto dest: dead_stays)

lemma reachable_on: "bp_reachable E B P s1 s2 \<Longrightarrow> bp_reachable E B P s0 s1 \<Longrightarrow> bp_reachable E B P s0 s2"
  by (induction rule: bp_reachable.induct) (auto intro: bp_reachable.step)

lemma marketless_panics:
  assumes "json_api J" "dex_should_process J p (trade_event J K h tx t)" "dt_market t = None"
    and "hex_or_unknown K (dt_program_address t) \<noteq> pumpfun_program"
  shows "fst (worker_event (dex_event_processor J now p) n (trade_event J K h tx t) rest ok fail w) = Dead n"
proof -
  let ?e = "trade_event J K h tx t"
  have short: "prefix8 ''unknown'' = None" by (simp add: prefix8_def)
  have "get_data_string_field J ''market_address'' ?e = Some ''unknown''"
    using trade_event_fields(4) [OF assms(1), of K h tx t] assms(3) by (simp add: hex_or_unknown_def)
  moreover have "program_id J ?e \<noteq> Some pumpfun_program"
    using trade_event_fields(3) [OF assms(1), of K h tx t] assms(4) by simp
  ultimately have "snd (dex_process J now p ?e w) = Panic"
    using assms(2) short dex_process_panics [of J p ?e now w] by simp
  then show ?thesis
    using assms(2) by (cases "dex_process J now p ?e w") (simp add: worker_event_def dex_event_processor_def)
qed

lemma marketless_facts:
  assumes "batch_channels E econt ecap B bcont bcap" "queue_size \<noteq> 0" "messages_in_flight rm = 0" "json_api J"
    and "bp_reachable E B (dex_event_processor J now p) (batch_processor_new E B cfg rm queue_size t0 w) s"
    and "i < length (workers s)" "workers s ! i = Working n (trade_event J K h tx t # rest) ok fail"
    and "dex_should_process J p (trade_event J K h tx t)" "dt_market t = None"
    and "hex_or_unknown K (dt_program_address t) \<noteq> pumpfun_program"
  obtains s' where "worker_step B (dex_event_processor J now p) i s = Some s'"
    "bp_resources s' = bp_resources s"
    "\<And>s''. bp_reachable E B (dex_event_processor J now p) s' s'' \<Longrightarrow>
       workers s'' ! i = Dead n
       \<and> messages_in_flight (bp_resources s'') = of_nat (sum_list (map worker_load (workers s'')))
       \<and> n \<le> sum_list (map worker_load (workers s''))"
proof -
  let ?P = "dex_event_processor J now p"
  obtain wk w' where we: "worker_event ?P n (trade_event J K h tx t) rest ok fail (bp_world s) = (wk, w')" by fastforce
  have dead: "wk = Dead n"
    using marketless_panics [OF assms(4,8,9,10), of now n rest ok fail "bp_world s"] we by simp
  obtain s' where s': "worker_step B ?P i s = Some s'" "bp_resources s' = bp_resources s"
    "workers s' = (workers s)[i := Dead n]"
    using assms(6,7) we dead by (simp add: worker_step_def Let_def)
  have r': "bp_reachable E B ?P (batch_processor_new E B cfg rm queue_size t0 w) s'"
    using bp_reachable.step [OF assms(5), of "WorkerStep i" s'] s'(1) by simp
  have "workers s'' ! i = Dead n
       \<and> messages_in_flight (bp_resources s'') = of_nat (sum_list (map worker_load (workers s'')))
       \<and> n \<le> sum_list (map worker_load (workers s''))"
    if r: "bp_reachable E B ?P s' s''" for s''
  proof -
    have d: "workers s'' ! i = Dead n" using dead_for_ever [OF r, of i n] s'(3) assms(6) by simp
    have "i < length (workers s'')" using reachable_kept [OF r] s'(3) assms(6) by simp
    then have "worker_load (workers s'' ! i) \<in> set (map worker_load (workers s''))" by simp
    from member_le_sum_list [OF this] d
    show ?thesis using in_flight_exact_facts(1) [OF assms(1-3) reachable_on [OF r r']] by simp
  qed
  with s'(1,2) that show ?thesis by blast
qed

text \<open>
  C40. A trade without a market kills the worker that processes it, when the processor wants it (the
  default one wants no trade of the consumer, for want of a price): its market address is the text
  \<open>unknown\<close>, one character too short for the prefix that the DEX processor prints. The step that
  processes the trade leaves the worker dead, in every state reachable from there, and the batch is
  never given back: the count in flight is the load of all workers, the dead one's batch included, so
  that the capacity of the resource manager is smaller by that batch for good.
\<close>

theorem marketless_trade_kills_worker:
  assumes "batch_channels E econt ecap B bcont bcap" "queue_size \<noteq> 0" "messages_in_flight rm = 0" "json_api J"
    and "bp_reachable E B (dex_event_processor J now p) (batch_processor_new E B cfg rm queue_size t0 w) s"
    and "i < length (workers s)" "workers s ! i = Working n (trade_event J K h tx t # rest) ok fail"
    and "dex_should_process J p (trade_event J K h tx t)" "dt_market t = None"
    and "hex_or_unknown K (dt_program_address t) \<noteq> pumpfun_program"
  shows "\<exists>s'. worker_step B (dex_event_processor J now p) i s = Some s'
    \<and> bp_resources s' = bp_resources s
    \<and> (\<forall>s''. bp_reachable E B (dex_event_processor J now p) s' s'' \<longrightarrow>
         workers s'' ! i = Dead n
         \<and> messages_in_flight (bp_resources s'') = of_nat (sum_list (map worker_load (workers s'')))
         \<and> n \<le> sum_list (map worker_load (workers s'')))"
  by (rule marketless_facts [OF assms]) blast

section \<open>Witnesses\<close>

definition sample_dex_event :: dex_trade_event where
  "sample_dex_event =
     \<lparr>dt_program_address = None, dt_market = None,
      dt_buy = Some \<lparr>sd_amount = 1500, sd_account = None\<rparr>, dt_sell = Some \<lparr>sd_amount = 3, sd_account = None\<rparr>,
      dt_royalty = 0, dt_fee = 5\<rparr>"

theorem trade_amount_roundtrip_witness:
  "amount_base json_tree (trade_event json_tree sample_codecs \<lparr>hdr_slot = 7, hdr_timestamp = 0\<rparr>
     \<lparr>dx_signature = [1], dx_trades = [sample_dex_event]\<rparr> sample_dex_event) = Some (Fin 1500)"
proof -
  let ?b = "\<lparr>sd_amount = 1500, sd_account = None\<rparr>" and ?s = "\<lparr>sd_amount = 3, sd_account = None\<rparr>"
  have "dt_buy sample_dex_event = Some ?b" "dt_sell sample_dex_event = Some ?s"
    by (simp_all add: sample_dex_event_def)
  from trade_amount_roundtrip [OF json_tree.json_api_axioms this] show ?thesis
    by (simp add: f_of_nat_def rnd_numeral)
qed

theorem consumer_trades_rejected_witness:
  "f_lt (Fin 0) (min_amount_usd dex_processor_default)
   \<and> \<not> dex_should_process json_tree dex_processor_default
        (trade_event json_tree sample_codecs \<lparr>hdr_slot = 7, hdr_timestamp = 0\<rparr>
          \<lparr>dx_signature = [1], dx_trades = [sample_dex_event]\<rparr> sample_dex_event)"
proof -
  have "f_lt (Fin 0) (min_amount_usd dex_processor_default)"
    by (simp add: dex_processor_default_def f_lit_def rnd_numeral)
  from consumer_trades_rejected [OF json_tree.json_api_axioms this] this show ?thesis by blast
qed

theorem transfer_amount_filtered_witness:
  "\<not> matches json_tree (build (with_min_amount (Fin 1) filter_builder_new))
     (transfer_event json_tree sample_codecs \<lparr>hdr_slot = 7, hdr_timestamp = 0\<rparr>
       \<lparr>tt_signature = [1], tt_transfers = []\<rparr>
       \<lparr>tr_amount = 1000000, tr_sender = None, tr_receiver = None, tr_currency = None\<rparr>)"
  using transfer_amount_filtered [OF json_tree.json_api_axioms, of "build (with_min_amount (Fin 1) filter_builder_new)" "Fin 1"]
  by (simp add: builder_defs)

theorem transaction_fee_logged_zero_witness:
  "\<exists>entry. tx_process json_tree
        (transaction_event json_tree sample_codecs \<lparr>hdr_slot = 7, hdr_timestamp = 0\<rparr>
          \<lparr>tx_signature = [1], tx_status = Some True,
           tx_header = Some \<lparr>th_fee = 5000, th_fee_payer = [2], th_accounts = 3\<rparr>,
           tx_instructions = 2, tx_logs = []\<rparr>) [] = ([entry], Completed (Inr ()))
     \<and> log_fee entry = 0 \<and> log_instructions entry = 2"
  using transaction_fee_logged_zero [OF json_tree.json_api_axioms, of sample_codecs
      "\<lparr>hdr_slot = 7, hdr_timestamp = 0\<rparr>" "\<lparr>tx_signature = [1], tx_status = Some True,
           tx_header = Some \<lparr>th_fee = 5000, th_fee_payer = [2], th_accounts = 3\<rparr>,
           tx_instructions = 2, tx_logs = []\<rparr>" "[]"] by auto

text \<open>The only worker has taken the trade and dies of it; the batch stays counted.\<close>

definition marketless :: "json solana_event" where
  "marketless = trade_event json_tree sample_codecs \<lparr>hdr_slot = 7, hdr_timestamp = 0\<rparr>
     \<lparr>dx_signature = [1], dx_trades = [sample_dex_event]\<rparr> sample_dex_event"

lemma taken_alone:
  assumes "parallel_workers cfg = 1" "batch_size cfg = 1"
  shows "\<exists>s. bp_run list_channel list_channel P [AddEvent e, CollectorRecv 0 0, CollectorSend 0 0, WorkerTake 0]
      (batch_processor_new list_channel list_channel cfg rm 5 0 w) = Some s \<and> workers s = [Working 1 [e] 0 0]"
  using assms
  by (simp add: batch_processor_new_def list_channel_def add_event_def collector_recv_def collector_on_event_def
      set_collector_def collector_send_def worker_take_def worker_start_def start_processing_def Let_def)

theorem marketless_trade_kills_worker_witness:
  "\<exists>s s'. bp_reachable list_channel list_channel (dex_event_processor json_tree 0 \<lparr>min_amount_usd = Fin 0, target_programs = []\<rparr>)
       (batch_processor_new list_channel list_channel (processing_config_default 1 False\<lparr>batch_size := 1\<rparr>)
          (resource_manager_new resource_limits_default) 5 0
          \<lparr>stats = \<lparr>total_events = 0, pumpfun_trades = 0, other_dex_trades = 0, large_trades = 0\<rparr>, printed_lines = []\<rparr>) s
     \<and> workers s ! 0 = Working 1 [marketless] 0 0
     \<and> worker_step list_channel (dex_event_processor json_tree 0 \<lparr>min_amount_usd = Fin 0, target_programs = []\<rparr>) 0 s = Some s'
     \<and> workers s' ! 0 = Dead 1 \<and> 1 \<le> sum_list (map worker_load (workers s'))"
proof -
  let ?p = "\<lparr>min_amount_usd = Fin 0, target_programs = []\<rparr>"
  let ?P = "dex_event_processor json_tree 0 ?p"
  let ?cfg = "processing_config_default 1 False\<lparr>batch_size := 1\<rparr>"
  let ?w = "\<lparr>stats = \<lparr>total_events = 0, pumpfun_trades = 0, other_dex_trades = 0, large_trades = 0\<rparr>, printed_lines = []\<rparr>"
  let ?new = "batch_processor_new list_channel list_channel ?cfg (resource_manager_new resource_limits_default) 5 0 ?w"
  have one: "parallel_workers ?cfg = 1" "batch_size ?cfg = 1" by (simp_all add: processing_config_default_def)
  obtain s where s: "bp_run list_channel list_channel ?P [AddEvent marketless, CollectorRecv 0 0, CollectorSend 0 0, WorkerTake 0] ?new = Some s"
    "workers s = [Working 1 [marketless] 0 0]"
    using taken_alone [OF one, of ?P marketless "resource_manager_new resource_limits_default" ?w] by blast
  have r: "bp_reachable list_channel list_channel ?P ?new s" by (rule reachable_run [OF s(1)])
  have q: "(5 :: usize) \<noteq> 0" "messages_in_flight (resource_manager_new resource_limits_default) = 0"
    by (simp_all add: resource_manager_new_def)
  have at: "0 < length (workers s)" "workers s ! 0 = Working 1 [marketless] 0 0" using s(2) by simp_all
  have want: "dex_should_process json_tree ?p marketless"
    using trade_event_fields(1) [OF json_tree.json_api_axioms] by (simp add: dex_should_process_def marketless_def)
  have none: "dt_market sample_dex_event = None" by (simp add: sample_dex_event_def)
  have other: "hex_or_unknown sample_codecs (dt_program_address sample_dex_event) \<noteq> pumpfun_program"
    by (simp add: sample_dex_event_def hex_or_unknown_def pumpfun_program_def)
  obtain s' where s': "worker_step list_channel ?P 0 s = Some s'"
    "\<And>s''. bp_reachable list_channel list_channel ?P s' s'' \<Longrightarrow>
       workers s'' ! 0 = Dead 1 \<and> 1 \<le> sum_list (map worker_load (workers s''))"
    using marketless_trade_kills_worker [OF list_bp.batch_channels_axioms q json_tree.json_api_axioms r at(1)
        at(2) [unfolded marketless_def] want [unfolded marketless_def] none other] by blast
  from s'(2) [OF bp_reachable.init] s'(1) r at(2) show ?thesis by blast
qed

end
