(* ===== verification/Client.thy ===== *)
theory Client
  imports Consumer Batch
begin

text \<open>
  src/client.rs: the client owns the consumer, the resource manager and, once batch processing is
  enabled, a batch processor. \<open>process_events\<close> is modelled between its awaits, so that its steps
  interleave with the tasks of the batch processor. The resource manager is shared: the consumer holds
  it in \<open>sc_resources\<close> and the batch processor in \<open>bp_resources\<close>, and the two updates \<open>put_consumer\<close>
  and \<open>put_batch\<close> keep them equal. What rdkafka answers to \<open>create\<close> and \<open>subscribe\<close> are arguments.
\<close>

section \<open>Construction\<close>

fun join_with :: "string \<Rightarrow> string list \<Rightarrow> string" where
  "join_with sep [] = []"
| "join_with sep [s] = s"
| "join_with sep (s # ss) = s @ sep @ join_with sep ss"

definition as_millis :: "duration \<Rightarrow> nat" where
  "as_millis d = d div 1000000"

definition kafka_settings :: "kafka_config \<Rightarrow> string \<Rightarrow> string option" where
  "kafka_settings k =
     (let settings =
            [''bootstrap.servers'' \<mapsto> join_with '','' (brokers k),
             ''group.id'' \<mapsto> group_id k,
             ''sasl.mechanism'' \<mapsto> ''SCRAM-SHA-512'',
             ''sasl.username'' \<mapsto> username k,
             ''sasl.password'' \<mapsto> password k,
             ''auto.offset.reset'' \<mapsto> auto_offset_reset k,
             ''enable.auto.commit'' \<mapsto> ''false'',
             ''session.timeout.ms'' \<mapsto> dec_string (as_millis (session_timeout k)),
             ''max.partition.fetch.bytes'' \<mapsto> dec_string (1024 * 1024),
             ''fetch.min.bytes'' \<mapsto> ''1'',
             ''fetch.wait.max.ms'' \<mapsto> ''500'',
             ''partition.assignment.strategy'' \<mapsto> partition_assignment_strategy k]
      in if enable_ssl k then
           settings
             (''security.protocol'' \<mapsto> ''SASL_SSL'',
              ''ssl.ca.location'' \<mapsto> ca_cert (ssl k),
              ''ssl.key.location'' \<mapsto> client_key (ssl k),
              ''ssl.certificate.location'' \<mapsto> client_cert (ssl k),
              ''ssl.endpoint.identification.algorithm'' \<mapsto> ''none'')
         else settings(''security.protocol'' \<mapsto> ''SASL_PLAINTEXT''))"

definition initialize_kafka_consumer ::
  "((string \<Rightarrow> string option) \<Rightarrow> string + unit) \<Rightarrow> config \<Rightarrow> resource_manager
   \<Rightarrow> sdk_error + 'j stream_consumer" where
  "initialize_kafka_consumer create cfg rm =
     (case create (kafka_settings (cfg_kafka cfg)) of
        Inl e \<Rightarrow> Inl (Kafka e)
      | Inr _ \<Rightarrow> Inr (stream_consumer_new cfg rm))"

record ('j, 'ec, 'bc, 'w) client =
  cl_config :: config
  cl_consumer :: "'j stream_consumer"
  cl_batch :: "(('j, 'w) event_processor \<times> ('j, 'ec, 'bc, 'w) bp) option"

definition client_new ::
  "(string \<Rightarrow> bool) \<Rightarrow> ((string \<Rightarrow> string option) \<Rightarrow> string + unit) \<Rightarrow> config
   \<Rightarrow> sdk_error + ('j, 'ec, 'bc, 'w) client" where
  "client_new path_exists create cfg =
     and_then (config_validate path_exists cfg) (\<lambda>_.
     and_then (initialize_kafka_consumer create cfg (resource_manager_new (cfg_resources cfg))) (\<lambda>c.
       Inr \<lparr>cl_config = cfg, cl_consumer = c, cl_batch = None\<rparr>))"

definition client_default ::
  "(string \<Rightarrow> bool) \<Rightarrow> ((string \<Rightarrow> string option) \<Rightarrow> string + unit) \<Rightarrow> string \<Rightarrow> usize \<Rightarrow> bool
   \<Rightarrow> sdk_error + ('j, 'ec, 'bc, 'w) client" where
  "client_default path_exists create uuid num_cpus metrics_feature =
     client_new path_exists create (config_default uuid num_cpus metrics_feature)"

definition client_set_filter ::
  "'j event_filter \<Rightarrow> ('j, 'ec, 'bc, 'w) client \<Rightarrow> ('j, 'ec, 'bc, 'w) client" where
  "client_set_filter f cl = cl\<lparr>cl_consumer := set_filter f (cl_consumer cl)\<rparr>"

definition enable_batch_processing ::
  "('j solana_event, 'ec) channel_ops \<Rightarrow> ('j solana_event list, 'bc) channel_ops \<Rightarrow> ('j, 'w) event_processor
   \<Rightarrow> instant \<Rightarrow> 'w \<Rightarrow> ('j, 'ec, 'bc, 'w) client \<Rightarrow> ('j, 'ec, 'bc, 'w) client" where
  "enable_batch_processing E B P now w cl =
     cl\<lparr>cl_batch := Some (P,
          batch_processor_new E B (cfg_processing (cl_config cl)) (sc_resources (cl_consumer cl))
            (max_queue_size (cfg_resources (cl_config cl))) now w)\<rparr>"

definition client_start ::
  "(string list \<Rightarrow> string + unit) \<Rightarrow> ('j, 'ec, 'bc, 'w) client \<Rightarrow> sdk_error + unit" where
  "client_start subscribe cl = consumer_subscribe subscribe (topics (cfg_kafka (cl_config cl)))"

definition put_consumer ::
  "'j stream_consumer \<Rightarrow> ('j, 'ec, 'bc, 'w) client \<Rightarrow> ('j, 'ec, 'bc, 'w) client" where
  "put_consumer c cl =
     cl\<lparr>cl_consumer := c,
        cl_batch := map_option (\<lambda>(P, b). (P, b\<lparr>bp_resources := sc_resources c\<rparr>)) (cl_batch cl)\<rparr>"

definition put_batch ::
  "('j, 'w) event_processor \<Rightarrow> ('j, 'ec, 'bc, 'w) bp \<Rightarrow> ('j, 'ec, 'bc, 'w) client
   \<Rightarrow> ('j, 'ec, 'bc, 'w) client" where
  "put_batch P b cl =
     cl\<lparr>cl_consumer := (cl_consumer cl)\<lparr>sc_resources := bp_resources b\<rparr>, cl_batch := Some (P, b)\<rparr>"

text \<open>\<open>next_event\<close> for an application that runs its own loop.\<close>

definition client_next_event ::
  "'j json_ops \<Rightarrow> codecs \<Rightarrow> kafka_input list \<Rightarrow> ('j, 'ec, 'bc, 'w) client
   \<Rightarrow> (('j, 'ec, 'bc, 'w) client \<times> kafka_input list \<times> (sdk_error + 'j solana_event option)) option" where
  "client_next_event J K is cl =
     map_option (\<lambda>(c, rest, r). (put_consumer c cl, rest, r)) (next_event J K is (cl_consumer cl))"

definition client_shutdown ::
  "('j solana_event, 'ec) channel_ops \<Rightarrow> ('j, 'ec, 'bc, 'w) client \<Rightarrow> ('j, 'ec, 'bc, 'w) client" where
  "client_shutdown E cl =
     (case cl_batch cl of Some (P, b) \<Rightarrow> put_batch P (bp_shutdown E b) cl | None \<Rightarrow> cl)"

section \<open>The event loop\<close>

text \<open>
  Where \<open>process_events\<close> stands: at the top of its loop, at the top of the loop of \<open>next_event\<close>, waiting
  in \<open>recv\<close>, waiting in \<open>add_event\<close>, or returned with an error. The handler is a closure with a state.
  \<open>offered\<close> is history: the events handed on, and whether that succeeded.
\<close>

datatype 'e loop_phase = AtTop | Fetching | Receiving | Adding 'e | Returned sdk_error

record ('j, 'ec, 'bc, 'w, 'h) event_loop =
  el_client :: "('j, 'ec, 'bc, 'w) client"
  el_phase :: "'j solana_event loop_phase"
  el_handler :: 'h
  el_slept :: "duration list"
  offered :: "('j solana_event \<times> bool) list"

type_synonym ('j, 'h) handler = "'j solana_event \<Rightarrow> 'h \<Rightarrow> 'h \<times> (sdk_error + unit)"

definition process_events :: "('j, 'ec, 'bc, 'w) client \<Rightarrow> 'h \<Rightarrow> ('j, 'ec, 'bc, 'w, 'h) event_loop" where
  "process_events cl h =
     \<lparr>el_client = cl, el_phase = AtTop, el_handler = h, el_slept = [], offered = []\<rparr>"

definition loop_delay :: "('j, 'ec, 'bc, 'w, 'h) event_loop \<Rightarrow> duration" where
  "loop_delay s = initial_delay (cfg_retry (cl_config (el_client s)))"

definition loop_top :: "('j, 'ec, 'bc, 'w, 'h) event_loop \<Rightarrow> ('j, 'ec, 'bc, 'w, 'h) event_loop" where
  "loop_top s =
     (if is_backpressure_active (sc_resources (cl_consumer (el_client s))) then
        s\<lparr>el_slept := el_slept s @ [max (loop_delay s) (from_millis 200)]\<rparr>
      else s\<lparr>el_phase := Fetching\<rparr>)"

definition loop_result ::
  "('j, 'h) handler \<Rightarrow> sdk_error + 'j solana_event option \<Rightarrow> ('j, 'ec, 'bc, 'w, 'h) event_loop
   \<Rightarrow> ('j, 'ec, 'bc, 'w, 'h) event_loop" where
  "loop_result H r s =
     (case r of
        Inr (Some event) \<Rightarrow>
          (case cl_batch (el_client s) of
             Some _ \<Rightarrow> s\<lparr>el_phase := Adding event\<rparr>
           | None \<Rightarrow>
               (let (h, res) = H event (el_handler s)
                in s\<lparr>el_phase := AtTop, el_handler := h, offered := offered s @ [(event, is_ok res)]\<rparr>))
      | Inr None \<Rightarrow>
          s\<lparr>el_phase := AtTop, el_slept := el_slept s @ [from_millis (min (as_millis (loop_delay s)) 50)]\<rparr>
      | Inl e \<Rightarrow> s\<lparr>el_phase := Returned e\<rparr>)"

definition loop_fetch ::
  "('j, 'h) handler \<Rightarrow> ('j, 'ec, 'bc, 'w, 'h) event_loop \<Rightarrow> ('j, 'ec, 'bc, 'w, 'h) event_loop" where
  "loop_fetch H s =
     (case pre_receive (cl_consumer (el_client s)) of
        Inl c \<Rightarrow> loop_result H (Inr None) (s\<lparr>el_client := put_consumer c (el_client s)\<rparr>)
      | Inr c \<Rightarrow> s\<lparr>el_client := put_consumer c (el_client s), el_phase := Receiving\<rparr>)"

definition loop_message ::
  "'j json_ops \<Rightarrow> codecs \<Rightarrow> ('j, 'h) handler \<Rightarrow> kafka_message \<Rightarrow> string option
   \<Rightarrow> ('j, 'ec, 'bc, 'w, 'h) event_loop \<Rightarrow> ('j, 'ec, 'bc, 'w, 'h) event_loop" where
  "loop_message J K H m commit_error s =
     (case handle_message J K m commit_error (cl_consumer (el_client s)) of
        (c, Continue) \<Rightarrow> s\<lparr>el_client := put_consumer c (el_client s), el_phase := Fetching\<rparr>
      | (c, Return r) \<Rightarrow> loop_result H r (s\<lparr>el_client := put_consumer c (el_client s)\<rparr>))"

definition loop_recv_error ::
  "('j, 'h) handler \<Rightarrow> string \<Rightarrow> ('j, 'ec, 'bc, 'w, 'h) event_loop \<Rightarrow> ('j, 'ec, 'bc, 'w, 'h) event_loop" where
  "loop_recv_error H e s = loop_result H (Inl (Kafka e)) s"

definition loop_add ::
  "('j solana_event, 'ec) channel_ops \<Rightarrow> 'j solana_event \<Rightarrow> ('j, 'ec, 'bc, 'w, 'h) event_loop
   \<Rightarrow> ('j, 'ec, 'bc, 'w, 'h) event_loop option" where
  "loop_add E event s =
     (case cl_batch (el_client s) of
        None \<Rightarrow> None
      | Some (P, b) \<Rightarrow>
          (case add_event E event b of
             None \<Rightarrow> None
           | Some (b', r) \<Rightarrow>
               Some (s\<lparr>el_client := put_batch P b' (el_client s), el_phase := AtTop,
                       offered := offered s @ [(event, is_ok r)]\<rparr>)))"

text \<open>The operations: the steps of the loop, and those of the tasks that the batch processor has spawned.\<close>

datatype 'e client_op =
    LoopTop
  | LoopFetch
  | LoopMessage kafka_message "string option"
  | LoopRecvError string
  | LoopAdd
  | Task "'e bp_op"

fun is_task :: "'e bp_op \<Rightarrow> bool" where
  "is_task (AddEvent _) = False"
| "is_task CheckResources = False"
| "is_task _ = True"

fun client_exec ::
  "('j solana_event, 'ec) channel_ops \<Rightarrow> ('j solana_event list, 'bc) channel_ops \<Rightarrow> 'j json_ops \<Rightarrow> codecs
   \<Rightarrow> ('j, 'h) handler \<Rightarrow> 'j solana_event client_op \<Rightarrow> ('j, 'ec, 'bc, 'w, 'h) event_loop
   \<Rightarrow> ('j, 'ec, 'bc, 'w, 'h) event_loop option" where
  "client_exec E B J K H LoopTop s = (if el_phase s = AtTop then Some (loop_top s) else None)"
| "client_exec E B J K H LoopFetch s = (if el_phase s = Fetching then Some (loop_fetch H s) else None)"
| "client_exec E B J K H (LoopMessage m err) s =
     (if el_phase s = Receiving then Some (loop_message J K H m err s) else None)"
| "client_exec E B J K H (LoopRecvError e) s =
     (if el_phase s = Receiving then Some (loop_recv_error H e s) else None)"
| "client_exec E B J K H LoopAdd s =
     (case el_phase s of Adding event \<Rightarrow> loop_add E event s | _ \<Rightarrow> None)"
| "client_exec E B J K H (Task op) s =
     (case cl_batch (el_client s) of
        Some (P, b) \<Rightarrow>
          if is_task op then
            map_option (\<lambda>b'. s\<lparr>el_client := put_batch P b' (el_client s)\<rparr>) (bp_exec E B P op b)
          else None
      | None \<Rightarrow> None)"

inductive client_reachable ::
  "('j solana_event, 'ec) channel_ops \<Rightarrow> ('j solana_event list, 'bc) channel_ops \<Rightarrow> 'j json_ops \<Rightarrow> codecs
   \<Rightarrow> ('j, 'h) handler \<Rightarrow> ('j, 'ec, 'bc, 'w, 'h) event_loop \<Rightarrow> ('j, 'ec, 'bc, 'w, 'h) event_loop \<Rightarrow> bool"
  for E B J K H s0 where
  init: "client_reachable E B J K H s0 s0"
| step: "client_reachable E B J K H s0 s \<Longrightarrow> client_exec E B J K H op s = Some s' \<Longrightarrow>
     client_reachable E B J K H s0 s'"


section \<open>The batch processor inside the client\<close>

text \<open>Every step of the client is a step of the batch processor, or leaves it alone.\<close>

definition shared :: "('j, 'ec, 'bc, 'w) client \<Rightarrow> bool" where
  "shared cl \<longleftrightarrow> (\<forall>P b. cl_batch cl = Some (P, b) \<longrightarrow> bp_resources b = sc_resources (cl_consumer cl))"

definition bp_follows ::
  "('j solana_event, 'ec) channel_ops \<Rightarrow> ('j solana_event list, 'bc) channel_ops
   \<Rightarrow> ('j, 'ec, 'bc, 'w) client \<Rightarrow> ('j, 'ec, 'bc, 'w) client \<Rightarrow> bool" where
  "bp_follows E B cl cl' \<longleftrightarrow>
     (case cl_batch cl of
        None \<Rightarrow> cl_batch cl' = None
      | Some (P, b) \<Rightarrow> \<exists>b'. cl_batch cl' = Some (P, b') \<and> bp_reachable E B P b b')"

lemma bp_follows_refl: "bp_follows E B cl cl"
  by (auto simp: bp_follows_def intro: bp_reachable.init split: option.split)

lemma handle_message_resources:
  "handle_message J K m err c = (c', oc) \<Longrightarrow> sc_resources c' = sc_resources c"
  by (auto simp: handle_message_def commit_then_def commit_kafka_offset_def record_event_processed_def
      internal_process_kafka_message_def Let_def split: option.splits sum.splits if_splits)

lemma pre_receive_resources:
  "pre_receive c = Inl c' \<or> pre_receive c = Inr c' \<Longrightarrow>
   sc_resources c' \<in> {sc_resources c, fst (check_resources (sc_resources c))}"
  by (auto simp: pre_receive_def Let_def split: if_splits prod.splits sum.splits)

lemma put_consumer_follows:
  assumes "shared cl" "sc_resources c \<in> {sc_resources (cl_consumer cl), fst (check_resources (sc_resources (cl_consumer cl)))}"
  shows "shared (put_consumer c cl)" "bp_follows E B cl (put_consumer c cl)"
proof -
  show "shared (put_consumer c cl)" by (auto simp: shared_def put_consumer_def)
  show "bp_follows E B cl (put_consumer c cl)"
  proof (cases "cl_batch cl")
    case (Some p)
    then obtain P b where b: "cl_batch cl = Some (P, b)" by (cases p) simp
    then have rm: "sc_resources (cl_consumer cl) = bp_resources b" using assms(1) by (simp add: shared_def)
    have "bp_reachable E B P b (b\<lparr>bp_resources := fst (check_resources (bp_resources b))\<rparr>)"
      by (rule bp_reachable.step [OF bp_reachable.init, of _ _ _ CheckResources]) simp
    then show ?thesis
      using assms(2) b rm by (auto simp: bp_follows_def put_consumer_def bp_reachable.init)
  qed (simp add: bp_follows_def put_consumer_def)
qed

lemma put_batch_follows:
  assumes "cl_batch cl = Some (P, b)" "bp_exec E B P op b = Some b'"
  shows "shared (put_batch P b' cl)" "bp_follows E B cl (put_batch P b' cl)"
  using assms by (auto simp: shared_def put_batch_def bp_follows_def intro: bp_reachable.intros)

lemma loop_result_client [simp]: "el_client (loop_result H r s) = el_client s"
  by (simp add: loop_result_def split: sum.split option.split prod.split)

lemma loop_top_client [simp]: "el_client (loop_top s) = el_client s"
  by (simp add: loop_top_def)

lemma client_step_follows:
  assumes "client_exec E B J K H op s = Some s'" "shared (el_client s)"
  shows "shared (el_client s') \<and> bp_follows E B (el_client s) (el_client s')"
proof (cases op)
  case LoopTop
  then show ?thesis using assms by (auto simp: bp_follows_refl split: if_splits)
next
  case LoopFetch
  then show ?thesis
    using assms put_consumer_follows [OF assms(2) pre_receive_resources]
    by (auto simp: loop_fetch_def split: if_splits sum.splits)
next
  case (LoopMessage m err)
  then have s': "s' = loop_message J K H m err s" using assms(1) by (simp split: if_splits)
  obtain c oc where hm: "handle_message J K m err (cl_consumer (el_client s)) = (c, oc)" by fastforce
  have "el_client s' = put_consumer c (el_client s)"
    by (simp add: s' loop_message_def hm split: message_outcome.split)
  then show ?thesis
    using put_consumer_follows [OF assms(2)] handle_message_resources [OF hm] by simp
next
  case (LoopRecvError e)
  then show ?thesis using assms by (auto simp: bp_follows_refl loop_recv_error_def split: if_splits)
next
  case LoopAdd
  then obtain e P b b' r where "el_phase s = Adding e" "cl_batch (el_client s) = Some (P, b)"
      "add_event E e b = Some (b', r)" "el_client s' = put_batch P b' (el_client s)"
    using assms(1) by (auto simp: loop_add_def split: loop_phase.splits option.splits prod.splits)
  then show ?thesis using put_batch_follows [of "el_client s" P b E B "AddEvent e" b'] by simp
next
  case (Task bop)
  then obtain P b b' where "cl_batch (el_client s) = Some (P, b)" "bp_exec E B P bop b = Some b'"
      "el_client s' = put_batch P b' (el_client s)"
    using assms(1) by (auto split: option.splits prod.splits if_splits)
  then show ?thesis using put_batch_follows [of "el_client s" P b E B bop b'] by simp
qed

lemma bp_reachable_trans: "bp_reachable E B P s1 s2 \<Longrightarrow> bp_reachable E B P s0 s1 \<Longrightarrow> bp_reachable E B P s0 s2"
  by (induction rule: bp_reachable.induct) (auto intro: bp_reachable.step)

lemma bp_follows_trans: "bp_follows E B cl cl1 \<Longrightarrow> bp_follows E B cl1 cl2 \<Longrightarrow> bp_follows E B cl cl2"
  by (auto simp: bp_follows_def intro: bp_reachable_trans split: option.splits)

lemma client_follows:
  assumes "client_reachable E B J K H s0 s" "shared (el_client s0)"
  shows "shared (el_client s) \<and> bp_follows E B (el_client s0) (el_client s)"
  using assms
proof (induction rule: client_reachable.induct)
  case (step s op s')
  then show ?case using client_step_follows bp_follows_trans by blast
qed (simp add: bp_follows_refl)


section \<open>What the loop hands on\<close>

fun pending :: "'e loop_phase \<Rightarrow> 'e list" where
  "pending (Adding e) = [e]"
| "pending _ = []"

definition handed :: "('j, 'ec, 'bc, 'w, 'h) event_loop \<Rightarrow> 'j solana_event list" where
  "handed s = map fst (offered s) @ pending (el_phase s)"

text \<open>
  The cache has every signature handed on, as long as no more messages were committed than it can hold.
\<close>

definition loop_inv ::
  "'j json_ops \<Rightarrow> config \<Rightarrow> 'j event_filter option \<Rightarrow> ('j, 'ec, 'bc, 'w, 'h) event_loop \<Rightarrow> bool" where
  "loop_inv J cfg f s \<longleftrightarrow>
     (let c = cl_consumer (el_client s)
      in sc_config c = cfg \<and> active_event_filter c = f \<and> (\<forall>e \<in> set (handed s). passes_filter J f e)
         \<and> (length (commits c) \<le> dedup_limit c \<longrightarrow>
              finite (seen_signatures_cache c) \<and> card (seen_signatures_cache c) \<le> length (commits c)
              \<and> distinct (map signature (handed s)) \<and> signature ` set (handed s) \<subseteq> seen_signatures_cache c))"

text \<open>The part of the consumer the invariant is about; only a message changes it.\<close>

definition same_cache :: "'j stream_consumer \<Rightarrow> 'j stream_consumer \<Rightarrow> bool" where
  "same_cache c c' \<longleftrightarrow> seen_signatures_cache c' = seen_signatures_cache c \<and> sc_config c' = sc_config c
     \<and> active_event_filter c' = active_event_filter c \<and> commits c' = commits c"

lemma loop_inv_frame:
  assumes "loop_inv J cfg f s" "same_cache (cl_consumer (el_client s)) (cl_consumer (el_client s'))"
    and "handed s' = handed s"
  shows "loop_inv J cfg f s'"
  using assms dedup_limit_cong [of "cl_consumer (el_client s')" "cl_consumer (el_client s)"]
  by (simp add: loop_inv_def same_cache_def Let_def)

lemma put_consumer_consumer [simp]: "cl_consumer (put_consumer c cl) = c"
  by (simp add: put_consumer_def)

lemma put_batch_cache [simp]: "same_cache (cl_consumer cl) (cl_consumer (put_batch P b cl))"
  by (simp add: same_cache_def put_batch_def)

lemma same_cache_refl [simp]: "same_cache c c"
  by (simp add: same_cache_def)

lemma handed_loop_result:
  assumes "pending (el_phase s) = []"
  shows "handed (loop_result H r s) = handed s @ (case r of Inr (Some e) \<Rightarrow> [e] | _ \<Rightarrow> [])"
  using assms by (auto simp: loop_result_def handed_def split: sum.split option.split prod.split)

lemma handed_update [simp]:
  "handed (s\<lparr>el_client := x\<rparr>) = handed s"
  "handed (s\<lparr>el_client := x, el_phase := ph\<rparr>) = map fst (offered s) @ pending ph"
  by (simp_all add: handed_def)

lemma loop_inv_message:
  assumes "loop_inv J cfg f s" "el_phase s = Receiving"
  shows "loop_inv J cfg f (loop_message J K H m err s)"
proof -
  let ?c = "cl_consumer (el_client s)"
  obtain c oc where hm: "handle_message J K m err ?c = (c, oc)" by fastforce
  from this show ?thesis
  proof (rule handle_message_cases)
    fix c1 r1
    assume ip: "internal_process_kafka_message J K m ?c = (c1, r1)"
      and fr: "sc_config c = sc_config ?c" "active_event_filter c = active_event_filter ?c"
        "seen_signatures_cache c = seen_signatures_cache c1" "commits c = commits ?c @ [km_offset m]"
      and oc: "oc = Continue \<or> (\<exists>e. oc = Return (Inl (Kafka e)) \<and> err = Some e)
        \<or> (\<exists>e. r1 = Inr (Some e) \<and> oc = Return (Inr (Some e)) \<and> passes_filter J (active_event_filter ?c) e)"
    define new where "new = (case oc of Return (Inr (Some e)) \<Rightarrow> [e] | _ \<Rightarrow> [])"
    have "handed s = map fst (offered s)" using assms(2) by (simp add: handed_def)
    then have h: "handed (loop_message J K H m err s) = handed s @ new"
      using assms(2) by (simp add: loop_message_def hm new_def handed_loop_result split: message_outcome.split)
    have c: "cl_consumer (el_client (loop_message J K H m err s)) = c"
      by (simp add: loop_message_def hm split: message_outcome.split)
    have lim: "dedup_limit c = dedup_limit ?c" using fr(1) by (rule dedup_limit_cong)
    have new: "new = [] \<or> (\<exists>e. new = [e] \<and> r1 = Inr (Some e) \<and> passes_filter J (active_event_filter ?c) e)"
      using oc by (auto simp: new_def)
    show ?thesis
    proof (cases "length (commits c) \<le> dedup_limit c")
      case False
      then show ?thesis using assms(1) new fr by (auto simp: loop_inv_def Let_def h c)
    next
      case True
      then have room: "length (commits ?c) < dedup_limit ?c" using fr(4) lim by simp
      then have old: "finite (seen_signatures_cache ?c)" "card (seen_signatures_cache ?c) \<le> length (commits ?c)"
          "distinct (map signature (handed s))" "signature ` set (handed s) \<subseteq> seen_signatures_cache ?c"
        using assms(1) by (simp_all add: loop_inv_def Let_def)
      have "case r1 of Inr (Some e) \<Rightarrow> signature e \<notin> seen_signatures_cache ?c
            \<and> seen_signatures_cache c1 = insert (signature e) (seen_signatures_cache ?c)
          | _ \<Rightarrow> seen_signatures_cache c1 = seen_signatures_cache ?c"
        using internal_cache [OF ip old(1)] old(2) room by linarith
      then show ?thesis
        using assms(1) new old fr
        by (auto simp: loop_inv_def Let_def h c card_insert_if split: sum.splits option.splits)
    qed
  qed
qed

lemma pre_receive_cache: "pre_receive c = Inl c' \<or> pre_receive c = Inr c' \<Longrightarrow> same_cache c c'"
  using pre_receive_frame [of c c'] by (auto simp: same_cache_def)

lemma loop_inv_step:
  assumes "loop_inv J cfg f s" "client_exec E B J K H op s = Some s'"
  shows "loop_inv J cfg f s'"
proof (cases op)
  case LoopTop
  then show ?thesis
    using assms(2) by (intro loop_inv_frame [OF assms(1)]) (auto simp: loop_top_def handed_def split: if_splits)
next
  case LoopFetch
  then show ?thesis
    using assms(2) pre_receive_cache [of "cl_consumer (el_client s)"]
    by (intro loop_inv_frame [OF assms(1)])
       (auto simp: loop_fetch_def handed_def loop_result_def split: if_splits sum.splits)
next
  case (LoopMessage m err)
  then show ?thesis using assms(2) loop_inv_message [OF assms(1)] by (auto split: if_splits)
next
  case (LoopRecvError e)
  then show ?thesis
    using assms(2) by (intro loop_inv_frame [OF assms(1)])
      (auto simp: loop_recv_error_def loop_result_def handed_def split: if_splits)
next
  case LoopAdd
  then obtain e P b b' r where "el_phase s = Adding e" "cl_batch (el_client s) = Some (P, b)"
      "add_event E e b = Some (b', r)"
      "s' = s\<lparr>el_client := put_batch P b' (el_client s), el_phase := AtTop, offered := offered s @ [(e, is_ok r)]\<rparr>"
    using assms(2) by (auto simp: loop_add_def split: loop_phase.splits option.splits prod.splits)
  then show ?thesis by (intro loop_inv_frame [OF assms(1)]) (simp_all add: handed_def)
next
  case (Task bop)
  then obtain P b' where "s' = s\<lparr>el_client := put_batch P b' (el_client s)\<rparr>"
    using assms(2) by (auto split: option.splits prod.splits if_splits)
  then show ?thesis by (intro loop_inv_frame [OF assms(1)]) (simp_all add: handed_def)
qed

lemma loop_inv_reachable: "client_reachable E B J K H s0 s \<Longrightarrow> loop_inv J cfg f s0 \<Longrightarrow> loop_inv J cfg f s"
  by (induction rule: client_reachable.induct) (auto intro: loop_inv_step)

text \<open>The batch processor has accepted exactly what the loop handed to it with success.\<close>

definition accepts_offered :: "('j, 'ec, 'bc, 'w, 'h) event_loop \<Rightarrow> bool" where
  "accepts_offered s \<longleftrightarrow>
     (\<forall>P b. cl_batch (el_client s) = Some (P, b) \<longrightarrow> accepted b = map fst (filter snd (offered s)))"

lemma task_accepted: "is_task op \<Longrightarrow> bp_exec E B P op b = Some b' \<Longrightarrow> accepted b' = accepted b"
  by (cases op)
     (auto simp: collector_recv_def set_collector_def collector_timeout_def collector_send_def worker_take_def
        worker_step_def Let_def bp_shutdown_def
        split: if_splits option.splits collector_mode.splits worker.splits list.splits prod.splits)

lemma add_event_accepted:
  "add_event E e b = Some (b', r) \<Longrightarrow> accepted b' = accepted b @ (if is_ok r then [e] else [])"
  by (auto simp: add_event_def split: if_splits option.splits)

lemma put_consumer_accepted:
  "cl_batch (put_consumer c cl) = Some (P, b) \<Longrightarrow> \<exists>b0. cl_batch cl = Some (P, b0) \<and> accepted b = accepted b0"
  by (auto simp: put_consumer_def)

lemma accepts_offered_frame:
  assumes "accepts_offered s" "offered s' = offered s"
    and "el_client s' = el_client s \<or> (\<exists>c. el_client s' = put_consumer c (el_client s))"
  shows "accepts_offered s'"
  using assms put_consumer_accepted unfolding accepts_offered_def by metis

lemma accepts_offered_step:
  assumes "accepts_offered s" "client_exec E B J K H op s = Some s'" "cl_batch (el_client s) \<noteq> None"
  shows "accepts_offered s'"
proof (cases op)
  case LoopTop
  then show ?thesis
    using assms(2) by (intro accepts_offered_frame [OF assms(1)]) (auto simp: loop_top_def split: if_splits)
next
  case LoopFetch
  then show ?thesis
    using assms(2) by (intro accepts_offered_frame [OF assms(1)])
      (auto simp: loop_fetch_def loop_result_def split: if_splits sum.splits)
next
  case (LoopMessage m err)
  then have s': "s' = loop_message J K H m err s" using assms(2) by (simp split: if_splits)
  obtain c oc where hm: "handle_message J K m err (cl_consumer (el_client s)) = (c, oc)" by fastforce
  have "cl_batch (put_consumer c (el_client s)) \<noteq> None" using assms(3) by (simp add: put_consumer_def)
  then show ?thesis
    unfolding s' by (intro accepts_offered_frame [OF assms(1)])
      (auto simp: loop_message_def hm loop_result_def split: message_outcome.split sum.split option.split)
next
  case (LoopRecvError e)
  then show ?thesis
    using assms(2) by (intro accepts_offered_frame [OF assms(1)])
      (auto simp: loop_recv_error_def loop_result_def split: if_splits)
next
  case LoopAdd
  then obtain e P b b' r where b: "cl_batch (el_client s) = Some (P, b)" "add_event E e b = Some (b', r)"
      "s' = s\<lparr>el_client := put_batch P b' (el_client s), el_phase := AtTop, offered := offered s @ [(e, is_ok r)]\<rparr>"
    using assms(2) by (auto simp: loop_add_def split: loop_phase.splits option.splits prod.splits)
  then show ?thesis
    using assms(1) add_event_accepted [OF b(2)] by (auto simp: accepts_offered_def put_batch_def)
next
  case (Task bop)
  then obtain P b b' where b: "cl_batch (el_client s) = Some (P, b)" "is_task bop" "bp_exec E B P bop b = Some b'"
      "s' = s\<lparr>el_client := put_batch P b' (el_client s)\<rparr>"
    using assms(2) by (auto split: option.splits prod.splits if_splits)
  then show ?thesis
    using assms(1) task_accepted [OF b(2,3)] by (auto simp: accepts_offered_def put_batch_def)
qed


section \<open>Properties\<close>

lemma client_new_ok:
  assumes "client_new ex create cfg = Inr (cl :: ('j, 'ec, 'bc, 'w) client)"
  shows "cl = \<lparr>cl_config = cfg, cl_consumer = stream_consumer_new cfg (resource_manager_new (cfg_resources cfg)),
           cl_batch = None\<rparr>"
    and "max_queue_size (cfg_resources cfg) \<noteq> 0"
proof -
  show "cl = \<lparr>cl_config = cfg, cl_consumer = stream_consumer_new cfg (resource_manager_new (cfg_resources cfg)),
           cl_batch = None\<rparr>"
    using assms by (auto simp: client_new_def initialize_kafka_consumer_def split: sum.splits)
  have "config_validate ex cfg = Inr ()" using assms by (auto simp: client_new_def)
  then show "max_queue_size (cfg_resources cfg) \<noteq> 0"
    by (auto simp: config_validate_def part_accepts resources_ok_def)
qed

lemma started_inv:
  assumes "client_new ex create cfg = Inr (cl0 :: ('j, 'ec, 'bc, 'w) client)"
  shows "loop_inv J cfg (Some f)
           (process_events (enable_batch_processing E B P now w (client_set_filter f cl0)) h)"
    and "accepts_offered (process_events (enable_batch_processing E B P now w (client_set_filter f cl0)) h)"
    and "shared (enable_batch_processing E B P now w (client_set_filter f cl0))"
  unfolding client_new_ok(1) [OF assms]
  by (simp_all add: loop_inv_def accepts_offered_def shared_def process_events_def enable_batch_processing_def
      client_set_filter_def set_filter_def stream_consumer_new_def handed_def batch_processor_new_def Let_def)

lemma accepts_offered_reachable:
  assumes "client_reachable E B J K H s0 s" "accepts_offered s0" "shared (el_client s0)"
    and "cl_batch (el_client s0) \<noteq> None"
  shows "accepts_offered s"
  using assms(1)
proof (induction rule: client_reachable.induct)
  case (step s op s')
  have "cl_batch (el_client s) \<noteq> None"
    using client_follows [OF step.hyps(1) assms(3)] assms(4) by (auto simp: bp_follows_def split: option.splits)
  then show ?case using accepts_offered_step step by blast
qed (rule assms)

lemma distinct_map_sublist:
  "distinct (map f (map fst ps @ r)) \<Longrightarrow> distinct (map f (map fst (filter Q ps)))"
  by (induction ps) auto

text \<open>The batch processor of a client runs as the batch processor does.\<close>

lemma client_batch_reached:
  assumes "client_new ex create cfg = Inr (cl0 :: ('j, 'ec, 'bc, 'w) client)"
    and "client_reachable E B J K H
      (process_events (enable_batch_processing E B P now w (client_set_filter f cl0)) h) s"
  shows "\<exists>b. cl_batch (el_client s) = Some (P, b)
    \<and> bp_reachable E B P (batch_processor_new E B (cfg_processing cfg) (resource_manager_new (cfg_resources cfg))
         (max_queue_size (cfg_resources cfg)) now w) b
    \<and> accepted b = map fst (filter snd (offered s))"
proof -
  let ?rm = "resource_manager_new (cfg_resources cfg)"
  let ?b0 = "batch_processor_new E B (cfg_processing cfg) ?rm (max_queue_size (cfg_resources cfg)) now w"
  let ?cl = "enable_batch_processing E B P now w (client_set_filter f cl0)"
  have s0: "el_client (process_events ?cl h) = ?cl" by (simp add: process_events_def)
  have b0: "cl_batch ?cl = Some (P, ?b0)"
    unfolding client_new_ok(1) [OF assms(1)]
    by (simp add: enable_batch_processing_def client_set_filter_def set_filter_def stream_consumer_new_def)
  note start = started_inv [OF assms(1), where E = E and B = B and P = P and f = f]
  have "bp_follows E B ?cl (el_client s)"
    using client_follows [OF assms(2)] start(3) unfolding s0 by blast
  then obtain b where b: "cl_batch (el_client s) = Some (P, b)" "bp_reachable E B P ?b0 b"
    unfolding bp_follows_def b0 by auto
  have "accepted b = map fst (filter snd (offered s))"
    using accepts_offered_reachable [OF assms(2) start(2)] start(3) b0 b(1)
    unfolding s0 by (auto simp: accepts_offered_def)
  with b show ?thesis by blast
qed

text \<open>Where the events are, however many messages were committed.\<close>

lemma client_batch_accounts:
  assumes "batch_channels E econt ecap B bcont bcap" "client_new ex create cfg = Inr (cl0 :: ('j, 'ec, 'bc, 'w) client)"
    and "client_reachable E B J K H
      (process_events (enable_batch_processing E B P now w (client_set_filter f cl0)) h) s"
  shows "\<exists>b. cl_batch (el_client s) = Some (P, b) \<and> accepted b = map fst (filter snd (offered s))
    \<and> accepted b = concat (taken b @ bcont (batch_channel b)) @ lost b
        @ pending_batch (collector_mode (collector b)) @ current_batch (collector b) @ econt (event_channel b)"
proof -
  have "messages_in_flight (resource_manager_new (cfg_resources cfg)) = 0" by (simp add: resource_manager_new_def)
  note located = events_conserved_facts(1) [OF assms(1) client_new_ok(2) [OF assms(2)] this]
  obtain b where b: "cl_batch (el_client s) = Some (P, b)" "accepted b = map fst (filter snd (offered s))"
    "bp_reachable E B P (batch_processor_new E B (cfg_processing cfg) (resource_manager_new (cfg_resources cfg))
         (max_queue_size (cfg_resources cfg)) now w) b"
    using client_batch_reached [OF assms(2,3)] by blast
  from b(1,2) located [OF b(3)] show ?thesis by (intro exI [of _ b] conjI)
qed

lemma client_batch_once_facts:
  assumes "client_new ex create cfg = Inr (cl0 :: ('j, 'ec, 'bc, 'w) client)"
    and "client_reachable E B J K H
      (process_events (enable_batch_processing E B P now w (client_set_filter f cl0)) h) s"
  shows "set (map fst (offered s)) \<subseteq> {e. matches J f e}"
    and "length (commits (cl_consumer (el_client s))) \<le> max (unat (buffer_size (cfg_processing cfg))) 100000 \<Longrightarrow>
      distinct (map signature (map fst (offered s)))"
proof -
  have li: "loop_inv J cfg (Some f) s"
    by (rule loop_inv_reachable [OF assms(2) started_inv(1) [OF assms(1), where E = E and B = B and P = P and f = f]])
  then have "\<forall>e \<in> set (handed s). matches J f e" by (simp add: loop_inv_def Let_def)
  then show "set (map fst (offered s)) \<subseteq> {e. matches J f e}" by (auto simp: handed_def)
  show "distinct (map signature (map fst (offered s)))"
    if "length (commits (cl_consumer (el_client s))) \<le> max (unat (buffer_size (cfg_processing cfg))) 100000"
  proof -
    have "length (commits (cl_consumer (el_client s))) \<le> dedup_limit (cl_consumer (el_client s))"
      using that li by (simp add: loop_inv_def Let_def dedup_limit_def)
    with li have "distinct (map signature (handed s))" by (simp add: loop_inv_def Let_def)
    then show ?thesis by (simp add: handed_def)
  qed
qed

text \<open>
  C1. From Kafka to the workers: a client made by \<open>new\<close>, with a filter set and batch processing
  enabled, that runs \<open>process_events\<close> interleaved in any way with the collector and the workers. The events
  the batch processor has accepted all match the filter, they are those the loop has handed over with
  success, and each of them is in exactly one place, in order: in a batch taken by a worker, a waiting
  batch, a batch dropped because its channel was closed, the batch being sent or formed, or the event
  channel. As long as the client has committed at most \<open>max(buffer_size, 100000)\<close> messages they have
  pairwise distinct signatures; beyond that the consumer clears its cache, and a signature can come again.
\<close>

theorem client_batch_once:
  assumes "batch_channels E econt ecap B bcont bcap" "client_new ex create cfg = Inr (cl0 :: ('j, 'ec, 'bc, 'w) client)"
    and "client_reachable E B J K H
      (process_events (enable_batch_processing E B P now w (client_set_filter f cl0)) h) s"
  shows "\<exists>b. cl_batch (el_client s) = Some (P, b)
    \<and> (length (commits (cl_consumer (el_client s))) \<le> max (unat (buffer_size (cfg_processing cfg))) 100000
        \<longrightarrow> distinct (map signature (accepted b)))
    \<and> set (accepted b) \<subseteq> {e. matches J f e}
    \<and> accepted b = map fst (filter snd (offered s))
    \<and> accepted b = concat (taken b @ bcont (batch_channel b)) @ lost b
        @ pending_batch (collector_mode (collector b)) @ current_batch (collector b) @ econt (event_channel b)"
proof -
  obtain b where b: "cl_batch (el_client s) = Some (P, b)" "accepted b = map fst (filter snd (offered s))"
      "accepted b = concat (taken b @ bcont (batch_channel b)) @ lost b
        @ pending_batch (collector_mode (collector b)) @ current_batch (collector b) @ econt (event_channel b)"
    using client_batch_accounts [OF assms] by blast
  note facts = client_batch_once_facts [OF assms(2,3)]
  have "set (accepted b) \<subseteq> {e. matches J f e}" using facts(1) by (auto simp: b(2))
  moreover have "distinct (map signature (accepted b))"
    if "length (commits (cl_consumer (el_client s))) \<le> max (unat (buffer_size (cfg_processing cfg))) 100000"
    using facts(2) [OF that] by (simp add: b(2) distinct_map_filter)
  ultimately show ?thesis using b by (intro exI [of _ b]) blast
qed

lemma handle_message_error:
  assumes "handle_message J K m err c = (c', oc)"
  shows "oc = Return (Inl e) \<longleftrightarrow> (\<exists>t. err = Some t \<and> e = Kafka t)"
  using assms
  by (auto simp: handle_message_def commit_then_def commit_kafka_offset_def
      split: option.splits sum.splits prod.splits if_splits)

lemma loop_result_returned:
  "el_phase s \<noteq> Returned e \<Longrightarrow> el_phase (loop_result H r s) = Returned e \<longleftrightarrow> r = Inl e"
  by (auto simp: loop_result_def split: sum.split option.split prod.split)

text \<open>
  C19. The loop of \<open>process_events\<close> ends exactly by an error of Kafka: a step of the client makes a
  running loop return an error if and only if it receives a receive error, or a message whose commit
  fails, and then the error is that one. No undecodable message, no duplicate, no failure of the
  handler or of \<open>add_event\<close> ends it, and no step of the batch processor's tasks.
\<close>

theorem process_events_ends_by_kafka:
  assumes "client_exec E B J K H op s = Some s'" "\<not> (\<exists>e'. el_phase s = Returned e')"
  shows "el_phase s' = Returned e \<longleftrightarrow>
    (\<exists>t. e = Kafka t \<and> (op = LoopRecvError t \<or> (\<exists>m. op = LoopMessage m (Some t))))"
proof (cases op)
  case (LoopMessage m err)
  then have s': "s' = loop_message J K H m err s" using assms(1) by (simp split: if_splits)
  obtain c oc where hm: "handle_message J K m err (cl_consumer (el_client s)) = (c, oc)" by fastforce
  have "el_phase s' = Returned e \<longleftrightarrow> oc = Return (Inl e)"
    using assms(2) by (simp add: s' loop_message_def hm loop_result_returned split: message_outcome.split)
  then show ?thesis using handle_message_error [OF hm] LoopMessage by auto
next
  case LoopTop
  then show ?thesis using assms by (auto simp: loop_top_def split: if_splits)
next
  case LoopFetch
  then show ?thesis using assms by (auto simp: loop_fetch_def loop_result_def split: if_splits sum.splits)
next
  case (LoopRecvError t)
  then show ?thesis
    using assms by (auto simp: loop_recv_error_def loop_result_returned split: if_splits)
next
  case LoopAdd
  then show ?thesis using assms by (auto simp: loop_add_def split: loop_phase.splits option.splits prod.splits)
next
  case (Task bop)
  then show ?thesis using assms by (auto split: option.splits prod.splits if_splits)
qed


section \<open>Witnesses\<close>

fun client_run ::
  "('j solana_event, 'ec) channel_ops \<Rightarrow> ('j solana_event list, 'bc) channel_ops \<Rightarrow> 'j json_ops \<Rightarrow> codecs
   \<Rightarrow> ('j, 'h) handler \<Rightarrow> 'j solana_event client_op list \<Rightarrow> ('j, 'ec, 'bc, 'w, 'h) event_loop
   \<Rightarrow> ('j, 'ec, 'bc, 'w, 'h) event_loop option" where
  "client_run E B J K H [] s = Some s"
| "client_run E B J K H (op # ops) s = Option.bind (client_exec E B J K H op s) (client_run E B J K H ops)"

lemma client_run_reachable:
  "client_run E B J K H ops s = Some s' \<Longrightarrow> client_reachable E B J K H s0 s \<Longrightarrow> client_reachable E B J K H s0 s'"
  by (induction ops arbitrary: s) (auto simp: bind_eq_Some_conv intro: client_reachable.step)

type_synonym sample_client =
  "(json, json solana_event list_channel, json solana_event list list_channel, transaction_log list) client"

definition sample_client0 :: sample_client where
  "sample_client0 =
     \<lparr>cl_config = sample_config,
      cl_consumer = stream_consumer_new sample_config (resource_manager_new (sample_limits 10)), cl_batch = None\<rparr>"

lemma sample_config_valid: "config_validate ex sample_config = Inr ()"
  using defaults_ok(1) [of 4 False] defaults_ok(3)
  by (simp add: config_validate_ok_iff sample_config_def kafka_ok_def kafka_config_default_def resources_ok_def
      sample_limits_def f_lit_def from_secs_def)

lemma sample_resources [simp]: "cfg_resources sample_config = sample_limits 10"
  by (simp add: sample_config_def)

lemma sample_client_new: "client_new (\<lambda>_. False) (\<lambda>_. Inr ()) sample_config = Inr sample_client0"
  by (simp add: client_new_def sample_config_valid initialize_kafka_consumer_def sample_client0_def)

definition sample_loop ::
  "(json, json solana_event list_channel, json solana_event list list_channel, transaction_log list, unit) event_loop" where
  "sample_loop =
     process_events
       (enable_batch_processing list_channel list_channel (tx_event_processor json_tree) 0 []
         (client_set_filter event_filter_default sample_client0)) ()"

lemma sample_handle_passed:
  assumes "seen_signatures_cache c = {}" "\<And>e. passes_filter json_tree (active_event_filter c) e"
  shows "\<exists>c' e. handle_message json_tree sample_codecs sample_message err c =
      (c', Return (case err of None \<Rightarrow> Inr (Some e) | Some t \<Rightarrow> Inl (Kafka t)))
    \<and> signature e = ''00000000'' \<and> event_type e = Transaction"
proof -
  have p: "km_payload sample_message = Some [1, 2, 3]" by (simp add: sample_message_def)
  obtain e where e: "decode_event json_tree sample_codecs (km_topic sample_message)
      (decompress_safe (lz4_decode sample_codecs) (gzip_decode sample_codecs) [1, 2, 3]) = Some (Inr e)"
    "signature e = ''00000000''" "event_type e = Transaction"
    using sample_decoded by blast
  then show ?thesis
    using p e assms
    by (intro exI [of _ "fst (handle_message json_tree sample_codecs sample_message err c)"] exI [of _ e])
       (simp add: handle_message_def internal_process_kafka_message_def Let_def commit_then_def commit_kafka_offset_def
          record_event_processed_def split: option.split)
qed

lemma sample_handle:
  assumes "seen_signatures_cache c = {}" "active_event_filter c = Some event_filter_default"
  shows "\<exists>c' e. handle_message json_tree sample_codecs sample_message err c =
      (c', Return (case err of None \<Rightarrow> Inr (Some e) | Some t \<Rightarrow> Inl (Kafka t)))
    \<and> signature e = ''00000000''"
proof -
  have "passes_filter json_tree (active_event_filter c) e" for e
    by (simp add: assms(2) matches_def event_filter_default_def rejects_type_def
        rejects_slot_def rejects_program_def rejects_amount_def rejects_signature_def rejects_custom_def)
  with sample_handle_passed [OF assms(1)] show ?thesis by blast
qed

text \<open>The loop up to the receipt of the first message.\<close>

lemma sample_receiving:
  obtains s where
    "client_run list_channel list_channel json_tree sample_codecs H [LoopTop, LoopFetch] sample_loop = Some s"
    "el_phase s = Receiving" "el_client s = el_client sample_loop" "offered s = []"
proof -
  let ?c = "cl_consumer (el_client sample_loop)"
  have rm: "sc_resources ?c = resource_manager_new (sample_limits 10)"
    by (simp add: sample_loop_def process_events_def enable_batch_processing_def client_set_filter_def
        set_filter_def sample_client0_def stream_consumer_new_def)
  then have "\<not> is_backpressure_active (sc_resources ?c)" by (simp add: model_defs)
  moreover have same: "put_consumer ?c (el_client sample_loop) = el_client sample_loop"
    by (simp add: sample_loop_def process_events_def enable_batch_processing_def put_consumer_def
        batch_processor_new_def Let_def client_set_filter_def set_filter_def sample_client0_def)
  moreover have "el_phase sample_loop = AtTop" "offered sample_loop = []"
    by (simp_all add: sample_loop_def process_events_def)
  ultimately show ?thesis
    by (intro that [of "sample_loop\<lparr>el_phase := Receiving\<rparr>"])
       (simp_all add: loop_top_def loop_fetch_def sample_pre_receive [OF rm])
qed

lemma sample_consumer_fields:
  "seen_signatures_cache (cl_consumer (el_client sample_loop)) = {}"
  "active_event_filter (cl_consumer (el_client sample_loop)) = Some event_filter_default"
  "commits (cl_consumer (el_client sample_loop)) = []"
  by (simp_all add: sample_loop_def process_events_def enable_batch_processing_def client_set_filter_def
      set_filter_def sample_client0_def stream_consumer_new_def)

lemma sample_batch:
  "\<exists>b. cl_batch (el_client sample_loop) = Some (tx_event_processor json_tree, b) \<and> accepted b = []
     \<and> \<not> ch_closed list_channel (event_channel b)
     \<and> (\<forall>e :: json solana_event. ch_send list_channel e (event_channel b) \<noteq> None)"
  by (simp add: sample_loop_def process_events_def enable_batch_processing_def batch_processor_new_def Let_def
      list_channel_def sample_client0_def client_set_filter_def) (simp add: sample_limits_def)


lemma sample_message_step:
  assumes "el_phase s = Receiving" "el_client s = el_client sample_loop" "offered s = []"
  shows "\<exists>s' e c. client_exec list_channel list_channel json_tree sample_codecs H (LoopMessage sample_message err) s = Some s'
    \<and> el_phase s' = (case err of None \<Rightarrow> Adding e | Some t \<Rightarrow> Returned (Kafka t)) \<and> signature e = ''00000000''
    \<and> el_client s' = put_consumer c (el_client sample_loop) \<and> length (commits c) = 1 \<and> offered s' = []"
proof -
  obtain c e where hm: "handle_message json_tree sample_codecs sample_message err (cl_consumer (el_client sample_loop)) =
      (c, Return (case err of None \<Rightarrow> Inr (Some e) | Some t \<Rightarrow> Inl (Kafka t)))" "signature e = ''00000000''"
    using sample_handle [OF sample_consumer_fields(1,2)] by blast
  have len: "length (commits c) = 1"
    using hm(1) by (rule handle_message_cases) (simp add: sample_consumer_fields)
  obtain b where "cl_batch (el_client sample_loop) = Some (tx_event_processor json_tree, b)"
    using sample_batch by blast
  then have batch: "\<exists>x. cl_batch (put_consumer c (el_client sample_loop)) = Some x"
    by (simp add: put_consumer_def)
  let ?s' = "loop_message json_tree sample_codecs H sample_message err s"
  have "el_phase ?s' = (case err of None \<Rightarrow> Adding e | Some t \<Rightarrow> Returned (Kafka t))"
    "el_client ?s' = put_consumer c (el_client sample_loop)" "offered ?s' = []"
    using assms hm batch
    by (auto simp: loop_message_def loop_result_def split: option.split)
  with hm(2) len assms(1) show ?thesis
    by (intro exI [of _ ?s'] exI [of _ e] exI [of _ c]) simp
qed

lemma sample_accepted:
  obtains s e where
    "client_reachable list_channel list_channel json_tree sample_codecs H sample_loop s"
    "map fst (filter snd (offered s)) = [e]" "signature e = ''00000000''"
    "length (commits (cl_consumer (el_client s))) \<le> 100000"
proof -
  obtain s1 where s1: "client_run list_channel list_channel json_tree sample_codecs H [LoopTop, LoopFetch] sample_loop = Some s1"
    "el_phase s1 = Receiving" "el_client s1 = el_client sample_loop" "offered s1 = []"
    by (rule sample_receiving)
  note r1 = client_run_reachable [OF s1(1) client_reachable.init]
  obtain s2 e c where s2: "client_exec list_channel list_channel json_tree sample_codecs H (LoopMessage sample_message None) s1 = Some s2"
    "el_phase s2 = Adding e" "signature e = ''00000000''"
    "el_client s2 = put_consumer c (el_client sample_loop)" "length (commits c) = 1" "offered s2 = []"
    using sample_message_step [OF s1(2-4), of H None] by auto
  note r2 = client_reachable.step [OF r1 s2(1)]
  obtain b where b: "cl_batch (el_client sample_loop) = Some (tx_event_processor json_tree, b)"
    "\<not> ch_closed list_channel (event_channel b)" "ch_send list_channel e (event_channel b) \<noteq> None"
    using sample_batch by blast
  then obtain ec where ec: "ch_send list_channel e (event_channel b) = Some ec" by blast
  have "cl_batch (el_client s2) = Some (tx_event_processor json_tree, b\<lparr>bp_resources := sc_resources c\<rparr>)"
    by (simp add: s2(4) put_consumer_def b(1))
  then obtain s3 where s3: "client_exec list_channel list_channel json_tree sample_codecs H LoopAdd s2 = Some s3"
    "offered s3 = [(e, True)]" "commits (cl_consumer (el_client s3)) = commits c"
    using s2 b(2) ec by (simp add: loop_add_def add_event_def put_batch_def)
  show ?thesis
    by (rule that [OF client_reachable.step [OF r2 s3(1)], of e]) (simp_all add: s2 s3)
qed

theorem client_batch_once_witness:
  "\<exists>s b. cl_batch (el_client (s :: (json, json solana_event list_channel, json solana_event list list_channel,
        transaction_log list, unit) event_loop)) = Some (tx_event_processor json_tree, b)
     \<and> map signature (accepted b) = [''00000000''] \<and> distinct (map signature (accepted b))
     \<and> accepted b = concat (taken b @ lc_items (batch_channel b)) @ lost b
        @ pending_batch (collector_mode (collector b)) @ current_batch (collector b) @ lc_items (event_channel b)"
proof -
  obtain s e where s: "client_reachable list_channel list_channel json_tree sample_codecs (\<lambda>_ h. (h, Inr ())) sample_loop s"
    "map fst (filter snd (offered s)) = [e]" "signature e = ''00000000''"
    "length (commits (cl_consumer (el_client s))) \<le> 100000"
    by (rule sample_accepted)
  have "length (commits (cl_consumer (el_client s))) \<le> max (unat (buffer_size (cfg_processing sample_config))) 100000"
    using s(4) by simp
  with client_batch_once [OF list_bp.batch_channels_axioms sample_client_new s(1) [unfolded sample_loop_def]] s(2,3)
  show ?thesis by (intro exI [of _ s]) auto
qed

theorem process_events_ends_by_kafka_witness:
  "\<exists>s s'. client_exec list_channel list_channel json_tree sample_codecs (\<lambda>_ h. (h, Inr ()))
        (LoopMessage sample_message (Some ''timed out''))
        (s :: (json, json solana_event list_channel, json solana_event list list_channel, transaction_log list, unit) event_loop)
      = Some s' \<and> el_phase s' = Returned (Kafka ''timed out'')"
proof -
  let ?H = "\<lambda>_ h. (h, Inr ())"
  obtain s1 where s1: "client_run list_channel list_channel json_tree sample_codecs ?H [LoopTop, LoopFetch] sample_loop = Some s1"
    "el_phase s1 = Receiving" "el_client s1 = el_client sample_loop" "offered s1 = []"
    by (rule sample_receiving)
  obtain s2 where s2: "client_exec list_channel list_channel json_tree sample_codecs ?H
      (LoopMessage sample_message (Some ''timed out'')) s1 = Some s2"
    using sample_message_step [OF s1(2-4), of ?H "Some ''timed out''"] by auto
  have "\<not> (\<exists>e'. el_phase s1 = Returned e')" using s1(2) by simp
  from process_events_ends_by_kafka [OF s2 this, of "Kafka ''timed out''"] s2
  show ?thesis by (intro exI [of _ s1] exI [of _ s2]) simp
qed

end
