(* ===== verification/Addresses.thy ===== *)
theory Addresses
  imports Pipeline Client
begin

text \<open>
  The program ids that users give and those that the consumer writes: src/filters.rs and
  src/processors/ compare the two as texts, users and the defaults give Base58, and
  src/consumer.rs writes the bytes of the address with \<open>hex::encode\<close>.
\<close>

section \<open>The interface of hex\<close>

definition hex_digits :: string where
  "hex_digits = ''0123456789abcdef''"

locale hex_codec =
  fixes K :: codecs
  assumes hex_text: "set (hex_encode K b) \<subseteq> set hex_digits"
begin

text \<open>What the consumer can write for a program: hex digits, or the text for a missing one.\<close>

lemma program_text: "hex_or_unknown K x = ''unknown'' \<or> set (hex_or_unknown K x) \<subseteq> set hex_digits"
  using hex_text by (simp add: hex_or_unknown_def split: option.split)

end

text \<open>Two digits for each byte, the instance for the witnesses.\<close>

definition hex_of_byte :: "u8 \<Rightarrow> string" where
  "hex_of_byte b = [hex_digits ! (unat b div 16), hex_digits ! (unat b mod 16)]"

definition hex_bytes :: "bytes \<Rightarrow> string" where
  "hex_bytes bs = concat (map hex_of_byte bs)"

lemma hex_of_byte_digits: "set (hex_of_byte b) \<subseteq> set hex_digits"
proof -
  have "unat b div 16 < length hex_digits" "unat b mod 16 < length hex_digits"
    using unsigned_less [of b, where ?'a = nat] by (simp_all add: hex_digits_def)
  then show ?thesis by (simp add: hex_of_byte_def del: length_greater_0_conv)
qed

interpretation plain_hex: hex_codec "K\<lparr>hex_encode := hex_bytes\<rparr>" for K
  by unfold_locales (use hex_of_byte_digits in \<open>auto simp: hex_bytes_def\<close>)

section \<open>Addresses the consumer never writes\<close>

definition foreign :: "string \<Rightarrow> bool" where
  "foreign p \<longleftrightarrow> p \<noteq> ''unknown'' \<and> \<not> set p \<subseteq> set hex_digits"

lemma default_targets_foreign: "list_all foreign (target_programs dex_processor_default)"
  by (simp add: dex_processor_default_def foreign_def hex_digits_def)

lemma decode_event_cases:
  assumes "decode_event J K topic payload = Some (Inr e)"
  obtains (Tx) h tx where "e = transaction_event J K h tx"
    | (Token) h tx t where "e = transfer_event J K h tx t"
    | (Trade) h tx t where "e = trade_event J K h tx t"
  using assms by (simp add: decode_event_def parse_first_facts split: if_splits) blast+

context hex_codec
begin

lemma event_program:
  assumes "json_api J" "decode_event J K topic payload = Some (Inr e)"
  shows "case program_id J e of Some p \<Rightarrow> \<not> foreign p | None \<Rightarrow> True"
  using assms(2)
proof (cases rule: decode_event_cases)
  case (Trade h tx t)
  then show ?thesis
    using program_text [of "dt_program_address t"]
    by (auto simp: trade_event_fields(3) [OF assms(1)] foreign_def)
next
  case (Tx h tx)
  then show ?thesis
    by (simp add: transaction_event_def event_field_defs Let_def json_api.json_simps [OF assms(1)] split: prod.split)
next
  case (Token h tx t)
  then show ?thesis
    by (simp add: transfer_event_def event_field_defs Let_def json_api.json_simps [OF assms(1)] split: prod.split)
qed

lemma foreign_unlisted:
  assumes "json_api J" "decode_event J K topic payload = Some (Inr e)" "list_all foreign ps" "program_id J e = Some p"
  shows "p \<notin> set ps"
  using event_program [OF assms(1,2)] assms(3,4) by (auto simp: list_all_iff)

lemma foreign_filter:
  assumes "json_api J" "decode_event J K topic payload = Some (Inr e)"
    and "program_ids f = Some ps" "ps \<noteq> []" "list_all foreign ps"
  shows "\<not> matches J f e"
  using foreign_unlisted [OF assms(1,2,5)] assms(3,4)
  by (auto simp: matches_def rejects_program_def list_ex_iff split: option.splits)

lemma foreign_targets:
  assumes "json_api J" "decode_event J K topic payload = Some (Inr e)"
    and "target_programs p \<noteq> []" "list_all foreign (target_programs p)"
  shows "\<not> dex_should_process J p e"
  using foreign_unlisted [OF assms(1,2,4)] assms(3)
  by (auto simp: dex_should_process_def list_ex_iff split: option.splits)

end

section \<open>What the loops deliver was decoded\<close>

definition decoded :: "'j json_ops \<Rightarrow> codecs \<Rightarrow> 'j solana_event \<Rightarrow> bool" where
  "decoded J K e \<longleftrightarrow> (\<exists>topic payload. decode_event J K topic payload = Some (Inr e))"

lemma internal_decoded:
  "internal_process_kafka_message J K m c = (c', Inr (Some e)) \<Longrightarrow> decoded J K e"
  by (auto simp: internal_process_kafka_message_def Let_def decoded_def split: option.splits sum.splits if_splits)

lemma handle_message_decoded:
  assumes "handle_message J K m err c = (c', Return (Inr (Some e)))"
  shows "decoded J K e \<and> passes_filter J (active_event_filter c) e"
  using assms by (rule handle_message_cases) (auto dest: internal_decoded)

lemma handle_message_filter:
  "handle_message J K m err c = (c', oc) \<Longrightarrow> active_event_filter c' = active_event_filter c"
  by (erule handle_message_cases)

lemma next_event_decoded:
  "next_event J K is c = Some (c', rest, Inr (Some e)) \<Longrightarrow> decoded J K e \<and> passes_filter J (active_event_filter c) e"
proof (induction "is" arbitrary: c)
  case (Cons i "is")
  obtain c1 where pre: "pre_receive c = Inr c1" using Cons.prems by (auto split: sum.splits)
  then have f: "active_event_filter c1 = active_event_filter c" using pre_receive_frame(2) by blast
  obtain m err g where i: "i = Received m err g" using Cons.prems pre by (cases i) auto
  obtain c2 oc where hm: "handle_message J K m err (c1\<lparr>sc_resources := g (sc_resources c1)\<rparr>) = (c2, oc)" by fastforce
  show ?case
  proof (cases oc)
    case Continue
    then have "next_event J K is c2 = Some (c', rest, Inr (Some e))" using Cons.prems pre i hm by simp
    from Cons.IH [OF this] handle_message_filter [OF hm] f show ?thesis by simp
  next
    case (Return r)
    then have "r = Inr (Some e)" using Cons.prems pre i hm by simp
    then show ?thesis using handle_message_decoded [of J K m err _ c2 e] hm Return f by fastforce
  qed
qed (simp split: sum.splits)

definition handed_decoded :: "'j json_ops \<Rightarrow> codecs \<Rightarrow> ('j, 'ec, 'bc, 'w, 'h) event_loop \<Rightarrow> bool" where
  "handed_decoded J K s \<longleftrightarrow> (\<forall>e \<in> set (handed s). decoded J K e)"

lemma handed_decoded_step:
  assumes "handed_decoded J K s" "client_exec E B J K H op s = Some s'"
  shows "handed_decoded J K s'"
proof (cases op)
  case (LoopMessage m err)
  then have s': "s' = loop_message J K H m err s" "el_phase s = Receiving" using assms(2) by (simp_all split: if_splits)
  obtain c oc where hm: "handle_message J K m err (cl_consumer (el_client s)) = (c, oc)" by fastforce
  show ?thesis
  proof (cases oc)
    case (Return r)
    have "handed s' = handed s @ (case r of Inr (Some e) \<Rightarrow> [e] | _ \<Rightarrow> [])"
      using s' by (simp add: loop_message_def hm Return handed_loop_result)
    then show ?thesis
      using assms(1) hm Return
      by (auto simp: handed_decoded_def dest: handle_message_decoded split: sum.splits option.splits)
  next
    case Continue
    then show ?thesis using assms(1) s' hm by (simp add: loop_message_def handed_decoded_def handed_def)
  qed
next
  case LoopTop
  then show ?thesis
    using assms by (auto simp: loop_top_def handed_decoded_def handed_def split: if_splits)
next
  case LoopFetch
  then show ?thesis
    using assms by (auto simp: loop_fetch_def loop_result_def handed_decoded_def handed_def split: if_splits sum.splits)
next
  case (LoopRecvError e)
  then show ?thesis
    using assms by (auto simp: loop_recv_error_def loop_result_def handed_decoded_def handed_def split: if_splits)
next
  case LoopAdd
  then show ?thesis
    using assms by (auto simp: loop_add_def handed_decoded_def handed_def
        split: loop_phase.splits option.splits prod.splits)
next
  case (Task bop)
  then have "handed s' = handed s"
    using assms(2) by (auto simp: handed_def split: option.splits prod.splits if_splits)
  then show ?thesis using assms(1) by (simp add: handed_decoded_def)
qed

lemma handed_decoded_reachable:
  "client_reachable E B J K H s0 s \<Longrightarrow> handed_decoded J K s0 \<Longrightarrow> handed_decoded J K s"
  by (induction rule: client_reachable.induct) (auto intro: handed_decoded_step)

section \<open>Properties\<close>

lemma with_program_ids_fields [simp]: "program_ids (with_program_ids ps f) = Some ps"
  by (simp add: with_program_ids_def)

text \<open>
  C9. A list of program ids in Base58, each with a character that is no hex digit, excludes the whole
  stream: no event that the consumer decodes matches a filter with such a list, and no DEX processor
  with such targets wants it, the default one included, whatever the program of the trade is and
  whatever else the filter asks.
\<close>

theorem base58_programs_never_match:
  assumes "hex_codec K" "json_api J" "decode_event J K topic payload = Some (Inr e)"
    and "ps \<noteq> []" "list_all foreign ps"
  shows "\<not> matches J (with_program_ids ps f) e
    \<and> \<not> dex_should_process J \<lparr>min_amount_usd = m, target_programs = ps\<rparr> e
    \<and> \<not> dex_should_process J dex_processor_default e"
  using hex_codec.foreign_filter [OF assms(1-3) with_program_ids_fields assms(4,5)]
    hex_codec.foreign_targets [OF assms(1-3), of "\<lparr>min_amount_usd = m, target_programs = ps\<rparr>"]
    hex_codec.foreign_targets [OF assms(1-3) _ default_targets_foreign] assms(4,5)
  by (simp add: dex_processor_default_def)

text \<open>
  In either mode, a client with such a filter hands nothing on, in any state that it can reach.
\<close>

lemma foreign_filter_starves:
  assumes "hex_codec K" "json_api J" "ps \<noteq> []" "list_all foreign ps" "program_ids f = Some ps"
    and "loop_inv J cfg (Some f) s0" "handed_decoded J K s0" "client_reachable E B J K H s0 s"
  shows "handed s = []"
proof -
  have "loop_inv J cfg (Some f) s" using assms(8,6) by (rule loop_inv_reachable)
  then have "\<forall>e \<in> set (handed s). matches J f e" by (simp add: loop_inv_def Let_def)
  moreover have "\<forall>e \<in> set (handed s). decoded J K e"
    using handed_decoded_reachable [OF assms(8,7)] by (simp add: handed_decoded_def)
  moreover have "\<not> matches J f e" if "decoded J K e" for e
    using that hex_codec.foreign_filter [OF assms(1,2) _ assms(5,3,4)] by (auto simp: decoded_def)
  ultimately show ?thesis by (cases "handed s") auto
qed

section \<open>Witness\<close>

definition dex_codecs :: codecs where
  "dex_codecs =
     (sample_codecs\<lparr>decode_dex := \<lambda>_. Inr \<lparr>dm_header = Some \<lparr>hdr_slot = 7, hdr_timestamp = 0\<rparr>,
        dm_transactions = [\<lparr>dx_signature = [1],
          dx_trades = [sample_dex_event\<lparr>dt_program_address := Some [0x3f, 0xa0]\<rparr>]\<rparr>]\<rparr>\<rparr>)\<lparr>hex_encode := hex_bytes\<rparr>"

lemma dex_codecs_hex: "hex_codec dex_codecs"
  unfolding dex_codecs_def by (rule plain_hex.hex_codec_axioms)

lemma dex_codecs_decoded:
  "decode_event json_tree dex_codecs ''solana.dextrades.proto'' payload =
     Some (Inr (trade_event json_tree dex_codecs \<lparr>hdr_slot = 7, hdr_timestamp = 0\<rparr>
       \<lparr>dx_signature = [1], dx_trades = [sample_dex_event\<lparr>dt_program_address := Some [0x3f, 0xa0]\<rparr>]\<rparr>
       (sample_dex_event\<lparr>dt_program_address := Some [0x3f, 0xa0]\<rparr>)))"
  by (simp add: decode_event_def dex_codecs_def parse_dex_message_content_def)

theorem base58_programs_never_match_witness:
  "\<exists>e. decode_event json_tree dex_codecs ''solana.dextrades.proto'' [] = Some (Inr e)
     \<and> program_id json_tree e = Some ''3fa0''
     \<and> \<not> matches json_tree (with_program_ids [''675kPX9MHTjS2zt1qfr1NYHuzeLXfQM9H24wFSUt1Mp8''] filter_builder_new) e"
proof -
  have listed: "list_all foreign [''675kPX9MHTjS2zt1qfr1NYHuzeLXfQM9H24wFSUt1Mp8'']"
    by (simp add: foreign_def hex_digits_def)
  have ne: "[''675kPX9MHTjS2zt1qfr1NYHuzeLXfQM9H24wFSUt1Mp8''] \<noteq> []" by simp
  have "hex_bytes [0x3f, 0xa0] = ''3fa0''" by (simp add: hex_bytes_def hex_of_byte_def hex_digits_def)
  then have "hex_or_unknown dex_codecs (Some [0x3f, 0xa0]) = ''3fa0''"
    by (simp add: hex_or_unknown_def dex_codecs_def)
  with base58_programs_never_match [OF dex_codecs_hex json_tree.json_api_axioms dex_codecs_decoded ne listed,
      of filter_builder_new]
  show ?thesis
    using trade_event_fields(3) [OF json_tree.json_api_axioms] by (simp add: dex_codecs_decoded)
qed

end
