(* ===== verification/Calls.thy ===== *)
theory Calls
  imports Addresses
begin

text \<open>
  Sequences of completed calls of \<open>next_event\<close>, and the contract of the loops that make them: whatever
  such a loop does with the results, they are those of calls one after the other.
\<close>

section \<open>Calls of \<open>next_event\<close>\<close>

definition delivered :: "(sdk_error + 'j solana_event option) list \<Rightarrow> 'j solana_event list" where
  "delivered rs = concat (map (\<lambda>r. case r of Inr (Some e) \<Rightarrow> [e] | _ \<Rightarrow> []) rs)"

definition errors :: "(sdk_error + 'j solana_event option) list \<Rightarrow> sdk_error list" where
  "errors rs = concat (map (\<lambda>r. case r of Inl e \<Rightarrow> [e] | _ \<Rightarrow> []) rs)"

lemma delivered_simps [simp]:
  "delivered [] = []" "delivered (r # rs) = (case r of Inr (Some e) \<Rightarrow> [e] | _ \<Rightarrow> []) @ delivered rs"
  "delivered (rs @ rs') = delivered rs @ delivered rs'"
  by (simp_all add: delivered_def)

lemma errors_simps [simp]:
  "errors [] = []" "errors (r # rs) = (case r of Inl e \<Rightarrow> [e] | _ \<Rightarrow> []) @ errors rs"
  "errors (rs @ rs') = errors rs @ errors rs'"
  by (simp_all add: errors_def)

text \<open>Completed calls, one after the other, that use up the answers of Kafka: their results in order.\<close>

fun calls ::
  "'j json_ops \<Rightarrow> codecs \<Rightarrow> kafka_input list list \<Rightarrow> 'j stream_consumer
   \<Rightarrow> ('j stream_consumer \<times> (sdk_error + 'j solana_event option) list) option" where
  "calls J K [] c = Some (c, [])"
| "calls J K (is # iss) c =
     (case next_event J K is c of
        Some (c1, [], r) \<Rightarrow> map_option (apsnd ((#) r)) (calls J K iss c1)
      | _ \<Rightarrow> None)"

lemma calls_append:
  "calls J K (iss @ iss') c =
     Option.bind (calls J K iss c) (\<lambda>(c1, rs). map_option (apsnd ((@) rs)) (calls J K iss' c1))"
proof (induction iss arbitrary: c)
  case Nil
  show ?case by (cases "calls J K iss' c") auto
next
  case (Cons i iss)
  have fuse: "map_option (apsnd ((#) r)) (map_option (apsnd ((@) rs)) x) = map_option (apsnd ((@) (r # rs))) x"
    for r rs and x :: "('j stream_consumer \<times> (sdk_error + 'j solana_event option) list) option"
    by (cases x) auto
  show ?case
  proof (cases "next_event J K i c")
    case (Some p)
    then obtain c1 rest r where ne: "next_event J K i c = Some (c1, rest, r)" by (cases p) simp
    show ?thesis
      by (cases "calls J K iss c1") (auto simp: ne Cons.IH fuse split: list.split)
  qed simp
qed

lemma calls_snoc:
  assumes "calls J K iss c = Some (c1, rs)" "next_event J K is c1 = Some (c2, [], r)"
  shows "calls J K (iss @ [is]) c = Some (c2, rs @ [r])"
  using assms by (simp add: calls_append)

text \<open>The answers after those that a call takes do not matter to it.\<close>

lemma next_event_more:
  "next_event J K is c = Some (c', rest, r) \<Longrightarrow> next_event J K (is @ later) c =
     Some (c', rest @ later, r)"
proof (induction "is" arbitrary: c)
  case Nil
  then show ?case by (cases later) (auto split: sum.splits)
next
  case (Cons i "is")
  then show ?case by (auto split: sum.splits kafka_input.splits prod.splits message_outcome.splits)
qed

lemma next_event_prefix:
  "next_event J K is c = Some (c', rest, r) \<Longrightarrow> \<exists>used. is = used @ rest \<and> next_event J K used c = Some (c', [], r)"
proof (induction "is" arbitrary: c)
  case Nil
  then show ?case by (auto split: sum.splits)
next
  case (Cons i "is")
  show ?case
  proof (cases "pre_receive c")
    case (Inl c1)
    then show ?thesis using Cons.prems by (intro exI [of _ "[]"]) simp
  next
    case (Inr c1)
    show ?thesis
    proof (cases i)
      case (RecvError e)
      then show ?thesis using Cons.prems Inr by (intro exI [of _ "[i]"]) simp
    next
      case (Received m err g)
      obtain c2 oc where hm: "handle_message J K m err (c1\<lparr>sc_resources := g (sc_resources c1)\<rparr>) = (c2, oc)" by fastforce
      show ?thesis
      proof (cases oc)
        case (Return x)
        then show ?thesis using Cons.prems Inr Received hm by (intro exI [of _ "[i]"]) simp
      next
        case Continue
        then have "next_event J K is c2 = Some (c', rest, r)" using Cons.prems Inr Received hm by simp
        from Cons.IH [OF this] obtain used where "is = used @ rest" "next_event J K used c2 = Some (c', [], r)" by blast
        then show ?thesis using Inr Received hm Continue by (intro exI [of _ "i # used"]) simp
      qed
    qed
  qed
qed

lemma calls_consume:
  "calls J K iss c = Some (c', rs) \<Longrightarrow> consume J K (replicate (length iss) id) (concat iss) c = (delivered rs, c', [])"
proof (induction iss arbitrary: c rs)
  case (Cons i iss)
  from Cons.prems obtain c1 r where ne: "next_event J K i c = Some (c1, [], r)"
    by (auto split: option.splits prod.splits list.splits)
  then obtain rs1 where rec: "calls J K iss c1 = Some (c', rs1)" and rs: "rs = r # rs1"
    using Cons.prems by auto
  have "next_event J K (i @ concat iss) c = Some (c1, concat iss, r)" using next_event_more [OF ne] by simp
  with Cons.IH [OF rec] rs show ?case by (auto split: sum.split option.split)
qed simp

text \<open>What calls deliver was decoded and passes the filter.\<close>

lemma calls_delivered:
  "calls J K iss c = Some (c', rs) \<Longrightarrow> e \<in> set (delivered rs) \<Longrightarrow>
   decoded J K e \<and> passes_filter J (active_event_filter c) e"
proof (induction iss arbitrary: c rs)
  case (Cons i iss)
  from Cons.prems(1) obtain c1 r where ne: "next_event J K i c = Some (c1, [], r)"
    by (auto split: option.splits prod.splits list.splits)
  then obtain rs1 where rec: "calls J K iss c1 = Some (c', rs1)" and rs: "rs = r # rs1"
    using Cons.prems(1) by auto
  have f: "active_event_filter c1 = active_event_filter c" using next_event_commits [OF ne] by simp
  show ?case
  proof (cases "e \<in> set (delivered rs1)")
    case True
    then show ?thesis using Cons.IH [OF rec] f by simp
  next
    case False
    then have "r = Inr (Some e)" using Cons.prems(2) rs by (auto split: sum.splits option.splits)
    then show ?thesis using next_event_decoded ne by blast
  qed
qed simp

section \<open>Loops of calls\<close>

text \<open>
  \<open>run n is p\<close> is a program after at most \<open>n\<close> turns, with the results of its calls. Each turn that has a
  result made one call with the program's consumer, and goes on, if it does, with the consumer after it.
\<close>

locale turn_loop =
  fixes J :: "'j json_ops" and K :: codecs
    and consumer_of :: "'p \<Rightarrow> 'j stream_consumer"
    and run :: "nat \<Rightarrow> kafka_input list \<Rightarrow> 'p \<Rightarrow> 'p \<times> (sdk_error + 'j solana_event option) list"
  assumes first_turn: "run n is p = (p', rs) \<Longrightarrow> rs = [] \<or>
      (\<exists>c rest r rs1. next_event J K is (consumer_of p) = Some (c, rest, r) \<and> rs = r # rs1
         \<and> (rs1 = [] \<or> (\<exists>m p1. m < n \<and> consumer_of p1 = c \<and> run m rest p1 = (p', rs1))))"
begin

lemma results_are_calls:
  "run n is p = (p', rs) \<Longrightarrow> \<exists>iss later c. is = concat iss @ later \<and> calls J K iss (consumer_of p) = Some (c, rs)"
proof (induction n arbitrary: "is" p rs rule: less_induct)
  case (less n)
  show ?case
  proof (cases "rs = []")
    case True
    then show ?thesis by (intro exI [of _ "[]"] exI [of _ "is"]) simp
  next
    case False
    with first_turn [OF less.prems] obtain c rest r rs1 where
      ne: "next_event J K is (consumer_of p) = Some (c, rest, r)" and rs: "rs = r # rs1"
      and more: "rs1 = [] \<or> (\<exists>m p1. m < n \<and> consumer_of p1 = c \<and> run m rest p1 = (p', rs1))"
      by blast
    obtain used where used: "is = used @ rest" "next_event J K used (consumer_of p) = Some (c, [], r)"
      using next_event_prefix [OF ne] by blast
    obtain iss later c' where "rest = concat iss @ later" "calls J K iss c = Some (c', rs1)"
    proof (cases "rs1 = []")
      case True
      then show ?thesis by (intro that [of "[]" rest c]) simp_all
    next
      case False
      then obtain m p1 where "m < n" "consumer_of p1 = c" "run m rest p1 = (p', rs1)" using more by blast
      with less.IH [of m rest p1 rs1] show ?thesis using that by blast
    qed
    then show ?thesis using used rs by (intro exI [of _ "used # iss"] exI [of _ later] exI [of _ c']) simp
  qed
qed

lemma results_decoded:
  assumes "run n is p = (p', rs)" "e \<in> set (delivered rs)"
  shows "decoded J K e \<and> passes_filter J (active_event_filter (consumer_of p)) e"
  using results_are_calls [OF assms(1)] calls_delivered assms(2) by blast

lemma results_once:
  assumes "run n is p = (p', rs)" "seen_signatures_cache (consumer_of p) = {}"
    and "length is \<le> max (unat (buffer_size (cfg_processing (sc_config (consumer_of p))))) 100000"
  shows "distinct (map signature (delivered rs))"
proof -
  obtain iss later c where iss: "is = concat iss @ later" "calls J K iss (consumer_of p) = Some (c, rs)"
    using results_are_calls [OF assms(1)] by blast
  show ?thesis
    using consumer_delivers_once_facts(1) [OF calls_consume [OF iss(2)]] iss(1) assms(2,3) by simp
qed

end

end
