(* ===== verification/Direct.thy ===== *)
theory Direct
  imports Calls
begin

text \<open>
  The client without batch processing: \<open>process_events\<close>, which Client cuts at its awaits, refines the
  plain loop that calls \<open>next_event\<close> until it fails and applies the handler to each event.
\<close>

section \<open>The handler\<close>

fun handle_all :: "('j, 'h) handler \<Rightarrow> 'j solana_event list \<Rightarrow> 'h \<Rightarrow> 'h \<times> ('j solana_event \<times> bool) list" where
  "handle_all H [] h = (h, [])"
| "handle_all H (e # es) h =
     (let (h1, res) = H e h; (h2, os) = handle_all H es h1 in (h2, (e, is_ok res) # os))"

lemma handle_all_snoc:
  "handle_all H es h = (h1, os) \<Longrightarrow> H e h1 = (h2, res) \<Longrightarrow>
   handle_all H (es @ [e]) h = (h2, os @ [(e, is_ok res)])"
  by (induction es arbitrary: h os) (auto simp: Let_def split: prod.splits)

lemma handle_all_events: "map fst (snd (handle_all H es h)) = es"
  by (induction es arbitrary: h) (simp_all add: Let_def split_beta)

section \<open>The simulation\<close>

text \<open>What a schedule has the loop receive.\<close>

fun received_inputs :: "'e client_op list \<Rightarrow> kafka_input list" where
  "received_inputs [] = []"
| "received_inputs (LoopMessage m err # ops) = Received m err id # received_inputs ops"
| "received_inputs (LoopRecvError e # ops) = RecvError e # received_inputs ops"
| "received_inputs (_ # ops) = received_inputs ops"

lemma received_append [simp]: "received_inputs (ops @ ops') = received_inputs ops @ received_inputs ops'"
  by (induction ops rule: received_inputs.induct) simp_all

text \<open>
  Where the loop stands in the calls: between two of them, or within one that has taken the answers
  \<open>used\<close> and goes on as a call from the present consumer would. All answers received, \<open>got\<close>, are those
  of the calls and \<open>used\<close>.
\<close>

definition direct_inv ::
  "'j json_ops \<Rightarrow> codecs \<Rightarrow> ('j, 'h) handler \<Rightarrow> 'j stream_consumer \<Rightarrow> 'h \<Rightarrow> kafka_input list
   \<Rightarrow> ('j, 'ec, 'bc, 'w, 'h) event_loop \<Rightarrow> bool" where
  "direct_inv J K H c0 h got s \<longleftrightarrow> cl_batch (el_client s) = None \<and>
     (\<exists>iss rs c1. calls J K iss c0 = Some (c1, rs)
        \<and> handle_all H (delivered rs) h = (el_handler s, offered s)
        \<and> (let c = cl_consumer (el_client s)
           in case el_phase s of
                AtTop \<Rightarrow> errors rs = [] \<and> c = c1 \<and> got = concat iss
              | Fetching \<Rightarrow> errors rs = [] \<and> (\<exists>used. got = concat iss @ used
                  \<and> (\<forall>later. next_event J K (used @ later) c1 = next_event J K later c))
              | Receiving \<Rightarrow> errors rs = [] \<and> (\<exists>used b. got = concat iss @ used
                  \<and> pre_receive b = Inr c \<and> (\<forall>later. next_event J K (used @ later) c1 = next_event J K later b))
              | Adding e \<Rightarrow> False
              | Returned e \<Rightarrow> errors rs = [e] \<and> c = c1 \<and> got = concat iss))"

lemma direct_inv_result:
  assumes "calls J K iss c0 = Some (c1, rs)" "handle_all H (delivered rs) h = (el_handler s, offered s)"
    and "errors rs = []" "next_event J K is c1 = Some (cl_consumer (el_client s), [], r)"
    and "cl_batch (el_client s) = None"
  shows "direct_inv J K H c0 h (concat iss @ is) (loop_result H r s)"
proof -
  have calls: "calls J K (iss @ [is]) c0 = Some (cl_consumer (el_client s), rs @ [r])"
    using assms(1,4) by (rule calls_snoc)
  show ?thesis
    unfolding direct_inv_def
    using assms(2,3,5)
    by (intro conjI exI [of _ "iss @ [is]"] exI [of _ "rs @ [r]"] exI [of _ "cl_consumer (el_client s)"] calls)
       (auto simp: loop_result_def handle_all_snoc Let_def split: sum.split option.split prod.split)
qed

lemma direct_inv_fetching:
  assumes "calls J K iss c0 = Some (c1, rs)" "got = concat iss @ used"
    and "\<And>later. next_event J K (used @ later) c1 = next_event J K later (cl_consumer (el_client s))"
    and "handle_all H (delivered rs) h = (el_handler s, offered s)" "errors rs = []"
    and "cl_batch (el_client s) = None" "el_phase s = Fetching"
  shows "direct_inv J K H c0 h got s"
proof -
  have "\<exists>used. got = concat iss @ used
      \<and> (\<forall>later. next_event J K (used @ later) c1 = next_event J K later (cl_consumer (el_client s)))"
    using assms(2,3) by blast
  then show ?thesis
    unfolding direct_inv_def Let_def using assms(1,4-7)
    by (intro conjI exI [of _ iss] exI [of _ rs] exI [of _ c1]) (simp_all only: loop_phase.case simp_thms)
qed

lemma direct_inv_fetch:
  assumes "direct_inv J K H c0 h got s" "el_phase s = Fetching"
  shows "direct_inv J K H c0 h got (loop_fetch H s)"
proof -
  let ?c = "cl_consumer (el_client s)"
  obtain iss rs c1 used where inv: "calls J K iss c0 = Some (c1, rs)" "errors rs = []"
      "handle_all H (delivered rs) h = (el_handler s, offered s)" "cl_batch (el_client s) = None"
      "\<forall>later. next_event J K (used @ later) c1 = next_event J K later ?c" "got = concat iss @ used"
    using assms unfolding direct_inv_def Let_def by (simp, blast)
  show ?thesis
  proof (cases "pre_receive ?c")
    case (Inl c)
    then have "next_event J K used c1 = Some (c, [], Inr None)" using inv(5) [THEN spec, of "[]"] by simp
    then show ?thesis
      unfolding inv(6)
      using inv Inl by (simp add: loop_fetch_def) (intro direct_inv_result [OF inv(1)], auto simp: put_consumer_def)
  next
    case (Inr c)
    then have "\<exists>used b. got = concat iss @ used \<and> pre_receive b = Inr c
        \<and> (\<forall>later. next_event J K (used @ later) c1 = next_event J K later b)"
      using inv(5,6) by blast
    then show ?thesis
      using inv(1-4) Inr by (simp add: loop_fetch_def direct_inv_def Let_def put_consumer_def) blast
  qed
qed

lemma direct_inv_receive:
  assumes "direct_inv J K H c0 h got s" "el_phase s = Receiving"
  shows "direct_inv J K H c0 h (got @ [Received m err id]) (loop_message J K H m err s)"
    and "direct_inv J K H c0 h (got @ [RecvError e]) (loop_recv_error H e s)"
proof -
  let ?c = "cl_consumer (el_client s)"
  obtain iss rs c1 used b where inv: "calls J K iss c0 = Some (c1, rs)" "errors rs = []"
      "handle_all H (delivered rs) h = (el_handler s, offered s)" "cl_batch (el_client s) = None"
      "pre_receive b = Inr ?c" "\<forall>later. next_event J K (used @ later) c1 = next_event J K later b"
      "got = concat iss @ used"
    using assms unfolding direct_inv_def Let_def by (simp, blast)
  show "direct_inv J K H c0 h (got @ [RecvError e]) (loop_recv_error H e s)"
    unfolding loop_recv_error_def inv(7) append_assoc
    by (rule direct_inv_result [OF inv(1,3,2)]) (simp_all add: inv(4,5,6))
  obtain c oc where hm: "handle_message J K m err ?c = (c, oc)" by fastforce
  show "direct_inv J K H c0 h (got @ [Received m err id]) (loop_message J K H m err s)"
  proof (cases oc)
    case (Return r)
    have "next_event J K (used @ [Received m err id]) c1 = Some (c, [], r)"
      by (simp add: inv(5,6) hm Return)
    then show ?thesis
      unfolding inv(7) append_assoc
      using inv(4) by (simp add: loop_message_def hm Return)
        (rule direct_inv_result [OF inv(1)], simp_all add: inv(2,3) put_consumer_def)
  next
    case Continue
    have go_on: "next_event J K ((used @ [Received m err id]) @ later) c1 = next_event J K later c" for later
      by (simp add: inv(5,6) hm Continue)
    have s': "loop_message J K H m err s = s\<lparr>el_client := put_consumer c (el_client s), el_phase := Fetching\<rparr>"
      by (simp add: loop_message_def hm Continue)
    show ?thesis
      unfolding s'
    proof (rule direct_inv_fetching [OF inv(1)])
      show "got @ [Received m err id] = concat iss @ (used @ [Received m err id])" by (simp add: inv(7))
      show "next_event J K ((used @ [Received m err id]) @ later) c1 = next_event J K later
          (cl_consumer (el_client (s\<lparr>el_client := put_consumer c (el_client s), el_phase := Fetching\<rparr>)))" for later
        unfolding go_on by simp
    qed (use inv(2-4) in \<open>simp_all add: put_consumer_def\<close>)
  qed
qed

lemma direct_inv_top:
  assumes "direct_inv J K H c0 h got s" "el_phase s = AtTop"
  shows "direct_inv J K H c0 h got (loop_top s)"
proof -
  obtain iss rs where inv: "calls J K iss c0 = Some (cl_consumer (el_client s), rs)"
      "handle_all H (delivered rs) h = (el_handler s, offered s)" "errors rs = []" "cl_batch (el_client s) = None"
      "got = concat iss"
    using assms by (auto simp: direct_inv_def)
  show ?thesis
  proof (cases "is_backpressure_active (sc_resources (cl_consumer (el_client s)))")
    case True
    then show ?thesis using inv assms(2) by (simp add: loop_top_def direct_inv_def Let_def) blast
  next
    case False
    then show ?thesis
      using inv(2-5) by (intro direct_inv_fetching [OF inv(1), of _ "[]"]) (simp_all add: loop_top_def)
  qed
qed

lemma direct_inv_step:
  assumes "direct_inv J K H c0 h got s" "client_exec E B J K H op s = Some s'"
  shows "direct_inv J K H c0 h (got @ received_inputs [op]) s'"
proof (cases op)
  case LoopTop
  then show ?thesis
    using assms direct_inv_top by (auto split: if_splits)
next
  case LoopFetch
  then show ?thesis using assms direct_inv_fetch by (auto split: if_splits)
next
  case (LoopMessage m err)
  then show ?thesis using assms direct_inv_receive(1) by (auto split: if_splits)
next
  case (LoopRecvError e)
  then show ?thesis using assms direct_inv_receive(2) by (auto split: if_splits)
next
  case LoopAdd
  then show ?thesis using assms by (auto simp: direct_inv_def split: loop_phase.splits)
next
  case (Task bop)
  then show ?thesis using assms by (auto simp: direct_inv_def split: option.splits)
qed

lemma direct_inv_run:
  "client_run E B J K H ops s = Some s' \<Longrightarrow> direct_inv J K H c0 h got s \<Longrightarrow>
   direct_inv J K H c0 h (got @ received_inputs ops) s'"
proof (induction ops arbitrary: s got)
  case (Cons op ops)
  then obtain s1 where s1: "client_exec E B J K H op s = Some s1" "client_run E B J K H ops s1 = Some s'"
    by (auto simp: bind_eq_Some_conv simp del: client_exec.simps)
  from Cons.IH [OF s1(2) direct_inv_step [OF Cons.prems(2) s1(1)]]
  show ?case using received_append [of "[op]" ops] by (simp del: received_append received_inputs.simps)
qed simp

lemma direct_inv_start:
  "cl_batch cl = None \<Longrightarrow> direct_inv J K H (cl_consumer cl) h [] (process_events cl h)"
  by (auto simp: direct_inv_def process_events_def intro!: exI [of _ "[]"])

text \<open>A call that is not complete has no event and no error so far.\<close>

fun in_call :: "'e loop_phase \<Rightarrow> bool" where
  "in_call Fetching = True"
| "in_call Receiving = True"
| "in_call _ = False"

lemma direct_inv_calls:
  assumes "direct_inv J K H c0 h got s"
  shows "\<exists>iss used c rs. got = concat iss @ used \<and> calls J K iss c0 = Some (c, rs)
    \<and> handle_all H (delivered rs) h = (el_handler s, offered s)
    \<and> errors rs = (case el_phase s of Returned e \<Rightarrow> [e] | _ \<Rightarrow> [])
    \<and> (if in_call (el_phase s)
        then case next_event J K used c of None \<Rightarrow> True | Some (c', left, r) \<Rightarrow> r = Inr None
        else used = [] \<and> c = cl_consumer (el_client s))"
proof -
  have none: "case next_event J K [] c of None \<Rightarrow> True | Some (c', left, r) \<Rightarrow> r = Inr None" for c
    by (simp split: sum.split)
  obtain iss rs c1 where inv: "calls J K iss c0 = Some (c1, rs)" "handle_all H (delivered rs) h = (el_handler s, offered s)"
    and phase: "let c = cl_consumer (el_client s)
           in case el_phase s of
                AtTop \<Rightarrow> errors rs = [] \<and> c = c1 \<and> got = concat iss
              | Fetching \<Rightarrow> errors rs = [] \<and> (\<exists>used. got = concat iss @ used
                  \<and> (\<forall>later. next_event J K (used @ later) c1 = next_event J K later c))
              | Receiving \<Rightarrow> errors rs = [] \<and> (\<exists>used b. got = concat iss @ used
                  \<and> pre_receive b = Inr c \<and> (\<forall>later. next_event J K (used @ later) c1 = next_event J K later b))
              | Adding e \<Rightarrow> False
              | Returned e \<Rightarrow> errors rs = [e] \<and> c = c1 \<and> got = concat iss"
    using assms unfolding direct_inv_def by blast
  show ?thesis
  proof (cases "in_call (el_phase s)")
    case True
    then obtain used b where u: "errors rs = []" "got = concat iss @ used"
      "\<forall>later. next_event J K (used @ later) c1 = next_event J K later b"
      using phase by (cases "el_phase s") (auto simp: Let_def)
    have "next_event J K used c1 = next_event J K [] b" using u(3) [THEN spec, of "[]"] by simp
    then have "case next_event J K used c1 of None \<Rightarrow> True | Some (c', left, r) \<Rightarrow> r = Inr None"
      using none [of b] by simp
    then show ?thesis
      using inv u(1,2) True
      by (intro exI [of _ iss] exI [of _ used] exI [of _ c1] exI [of _ rs]) (cases "el_phase s"; simp)
  next
    case False
    then show ?thesis
      using inv phase
      by (intro exI [of _ iss] exI [of _ "[]"] exI [of _ c1] exI [of _ rs]) (cases "el_phase s"; simp add: Let_def)
  qed
qed

section \<open>Properties\<close>

text \<open>
  C8. In direct mode \<open>process_events\<close> is the plain loop: for every schedule of a client made by \<open>new\<close>, the
  answers of Kafka that the loop has received are those of completed calls of \<open>next_event\<close>, one after
  the other, and of one that is under way and has no result so far; the handler was applied to exactly
  the events the completed calls delivered, in order, with its failures ignored, and all of them match
  the filter; the loop has returned if and only if a call failed, which is then the last one, and its
  error is the one returned. As long as at most \<open>max(buffer_size, 100000)\<close> messages were committed, no
  signature reaches the handler twice; beyond that the cache is cleared, and one can.
\<close>

theorem process_events_direct:
  assumes "client_new ex create cfg = Inr (cl0 :: ('j, 'ec, 'bc, 'w) client)"
    and "client_run E B J K H ops (process_events (client_set_filter f cl0) h) = Some s"
  shows "\<exists>iss used c rs. received_inputs ops = concat iss @ used
    \<and> calls J K iss (cl_consumer (client_set_filter f cl0)) = Some (c, rs)
    \<and> (if in_call (el_phase s)
        then case next_event J K used c of None \<Rightarrow> True | Some (c', left, r) \<Rightarrow> r = Inr None
        else used = [] \<and> c = cl_consumer (el_client s))
    \<and> handle_all H (delivered rs) h = (el_handler s, offered s)
    \<and> errors rs = (case el_phase s of Returned e \<Rightarrow> [e] | _ \<Rightarrow> [])
    \<and> set (delivered rs) \<subseteq> {e. matches J f e}
    \<and> (length (commits (cl_consumer (el_client s))) \<le> max (unat (buffer_size (cfg_processing cfg))) 100000
        \<longrightarrow> distinct (map signature (delivered rs)))"
proof -
  have cl: "cl_batch (client_set_filter f cl0) = None" "sc_config (cl_consumer (client_set_filter f cl0)) = cfg"
    unfolding client_new_ok(1) [OF assms(1)] by (simp_all add: client_set_filter_def set_filter_def stream_consumer_new_def)
  have "loop_inv J cfg (Some f) (process_events (client_set_filter f cl0) h)"
    unfolding client_new_ok(1) [OF assms(1)]
    by (simp add: loop_inv_def process_events_def client_set_filter_def set_filter_def stream_consumer_new_def
        handed_def Let_def)
  then have li: "loop_inv J cfg (Some f) s"
    by (rule loop_inv_reachable [OF client_run_reachable [OF assms(2) client_reachable.init]])
  have once: "distinct (map signature (map fst (offered s)))"
    if "length (commits (cl_consumer (el_client s))) \<le> max (unat (buffer_size (cfg_processing cfg))) 100000"
  proof -
    have "distinct (map signature (handed s))" using li that by (simp add: loop_inv_def Let_def dedup_limit_def)
    then show ?thesis by (simp add: handed_def)
  qed
  have wanted: "set (map fst (offered s)) \<subseteq> {e. matches J f e}"
    using li by (auto simp: loop_inv_def Let_def handed_def)
  have inv: "direct_inv J K H (cl_consumer (client_set_filter f cl0)) h (received_inputs ops) s"
    using direct_inv_run [OF assms(2) direct_inv_start [OF cl(1)]] by simp
  obtain iss used c rs where r: "received_inputs ops = concat iss @ used"
      "calls J K iss (cl_consumer (client_set_filter f cl0)) = Some (c, rs)"
      "if in_call (el_phase s)
        then case next_event J K used c of None \<Rightarrow> True | Some (c', left, r) \<Rightarrow> r = Inr None
        else used = [] \<and> c = cl_consumer (el_client s)"
      "handle_all H (delivered rs) h = (el_handler s, offered s)"
      "errors rs = (case el_phase s of Returned e \<Rightarrow> [e] | _ \<Rightarrow> [])"
    using direct_inv_calls [OF inv] by blast
  have "delivered rs = map fst (offered s)"
    using handle_all_events [of H "delivered rs" h] r(4) by simp
  with r once wanted show ?thesis
    by (intro exI [of _ iss] exI [of _ used] exI [of _ c] exI [of _ rs] conjI) simp_all
qed

section \<open>Witness\<close>

lemma sample_direct:
  obtains s e where
    "client_run list_channel list_channel json_tree sample_codecs H [LoopTop, LoopFetch, LoopMessage sample_message None]
       (process_events (client_set_filter event_filter_default sample_client0) h) = Some s"
    "el_phase s = AtTop" "el_handler s = fst (H e h)" "offered s = [(e, is_ok (snd (H e h)))]"
    "signature e = ''00000000''"
proof -
  let ?cl = "client_set_filter event_filter_default sample_client0"
  let ?c = "cl_consumer ?cl" and ?start = "process_events ?cl h"
  have c: "seen_signatures_cache ?c = {}" "active_event_filter ?c = Some event_filter_default" "commits ?c = []"
      "sc_resources ?c = resource_manager_new (sample_limits 10)" "cl_batch ?cl = None"
    by (simp_all add: client_set_filter_def set_filter_def sample_client0_def stream_consumer_new_def)
  have same: "put_consumer ?c ?cl = ?cl"
    by (simp add: put_consumer_def client_set_filter_def set_filter_def sample_client0_def)
  have "\<not> is_backpressure_active (sc_resources ?c)" by (simp add: c model_defs)
  then have run: "client_exec list_channel list_channel json_tree sample_codecs H LoopTop ?start = Some (?start\<lparr>el_phase := Fetching\<rparr>)"
    "client_exec list_channel list_channel json_tree sample_codecs H LoopFetch (?start\<lparr>el_phase := Fetching\<rparr>)
      = Some (?start\<lparr>el_phase := Receiving\<rparr>)"
    by (simp_all add: process_events_def loop_top_def loop_fetch_def sample_pre_receive [OF c(4)] same)
  obtain c' e where hm: "handle_message json_tree sample_codecs sample_message None ?c = (c', Return (Inr (Some e)))"
      "signature e = ''00000000''"
    using sample_handle [OF c(1,2), of None] by auto
  let ?s = "loop_message json_tree sample_codecs H sample_message None (?start\<lparr>el_phase := Receiving\<rparr>)"
  have "client_run list_channel list_channel json_tree sample_codecs H [LoopTop, LoopFetch, LoopMessage sample_message None] ?start = Some ?s"
    using run by (simp del: client_exec.simps(1,2))
  then show ?thesis
    using hm c(5)
    by (intro that [of ?s e])
       (simp_all add: loop_message_def loop_result_def process_events_def put_consumer_def split: prod.split)
qed

theorem process_events_direct_witness:
  "\<exists>s e. client_run list_channel list_channel json_tree sample_codecs (\<lambda>_ n. (n + 1, Inl (Other ''no'')))
        [LoopTop, LoopFetch, LoopMessage sample_message None]
        (process_events (client_set_filter event_filter_default (sample_client0 :: sample_client)) (0 :: nat)) = Some s
     \<and> el_handler s = 1 \<and> offered s = [(e, False)]
     \<and> (\<exists>iss c rs. concat iss = [Received sample_message None id]
           \<and> calls json_tree sample_codecs iss (cl_consumer (client_set_filter event_filter_default sample_client0))
             = Some (c, rs) \<and> map signature (delivered rs) = [''00000000''] \<and> errors rs = [])"
proof -
  let ?H = "\<lambda>(_ :: json solana_event) (n :: nat). (n + 1, Inl (Other ''no'') :: sdk_error + unit)"
  obtain s e where s: "client_run list_channel list_channel json_tree sample_codecs ?H [LoopTop, LoopFetch, LoopMessage sample_message None]
       (process_events (client_set_filter event_filter_default (sample_client0 :: sample_client)) 0) = Some s"
    "el_phase s = AtTop" "el_handler s = 1" "offered s = [(e, False)]" "signature e = ''00000000''"
    by (rule sample_direct [of ?H 0]) simp
  from process_events_direct [OF sample_client_new s(1)]
  obtain iss c rs where r: "[Received sample_message None id] = concat iss"
    "calls json_tree sample_codecs iss (cl_consumer (client_set_filter event_filter_default sample_client0))
        = Some (c, rs)" "handle_all ?H (delivered rs) 0 = (el_handler s, offered s)" "errors rs = []"
    by (auto simp: s(2))
  have "delivered rs = [e]"
    using handle_all_events [of ?H "delivered rs" 0] r(3) s(4) by simp
  with s r show ?thesis
    by (intro exI [of _ s] exI [of _ e] conjI exI [of _ iss] exI [of _ c] exI [of _ rs]) simp_all
qed

end
