(* ===== verification/Health.thy ===== *)
theory Health
  imports Events
begin

text \<open>
  src/observability/health.rs: the health checkers, the report and the monitor that runs the checkers,
  combines their statuses and keeps the last report. The clock readings of a check, the text of the
  time and the version of the package are arguments. The checkers measure nothing: the source returns
  fixed numbers where a real check would go, and so do the definitions.
\<close>

section \<open>Reports\<close>

datatype health_status = Healthy | Degraded | Unhealthy

text \<open>The statuses in the order of severity.\<close>

fun severity :: "health_status \<Rightarrow> nat" where
  "severity Healthy = 0"
| "severity Degraded = 1"
| "severity Unhealthy = 2"

instantiation health_status :: linorder
begin

definition less_eq_health_status :: "health_status \<Rightarrow> health_status \<Rightarrow> bool" where
  "less_eq_health_status a b \<longleftrightarrow> severity a \<le> severity b"

definition less_health_status :: "health_status \<Rightarrow> health_status \<Rightarrow> bool" where
  "less_health_status a b \<longleftrightarrow> severity a < severity b"

instance
proof
  fix a b :: health_status
  show "a = b" if "a \<le> b" "b \<le> a"
    using that by (cases a; cases b) (simp_all add: less_eq_health_status_def)
qed (auto simp: less_eq_health_status_def less_health_status_def)

end

record 'j component_health =
  ch_name :: string
  ch_status :: health_status
  ch_last_check :: u64
  ch_response_time_ms :: "f64 option"
  ch_details :: "string \<Rightarrow> 'j option"
  ch_error :: "string option"

record health_metrics =
  hm_memory_used_mb :: f64
  hm_memory_peak_mb :: f64
  hm_cpu_usage_percent :: f64
  hm_messages_per_minute :: u64
  hm_error_rate_last_hour :: f64
  hm_consumer_lag :: u64

record 'j health_report =
  hr_status :: health_status
  hr_version :: string
  hr_uptime_seconds :: u64
  hr_timestamp :: string
  hr_components :: "string \<Rightarrow> 'j component_health option"
  hr_metrics :: health_metrics

section \<open>Checkers\<close>

text \<open>
  The trait \<open>HealthChecker\<close>: a check reads the time in seconds and the time the check itself took.
  \<open>is_critical\<close> is true unless an implementation overrides it.
\<close>

record 'j health_checker =
  hc_name :: string
  hc_is_critical :: bool
  hc_check_health :: "u64 \<Rightarrow> duration \<Rightarrow> 'j component_health"

record kafka_health_checker =
  consumer_lag_threshold :: u64
  connection_timeout :: duration

definition kafka_checker_new :: "u64 \<Rightarrow> kafka_health_checker" where
  "kafka_checker_new threshold =
     \<lparr>consumer_lag_threshold = threshold, connection_timeout = from_secs 5\<rparr>"

definition check_kafka_connection :: "kafka_health_checker \<Rightarrow> health_status \<times> u64 \<times> string option" where
  "check_kafka_connection k =
     (let consumer_lag = 150
      in if consumer_lag_threshold k < consumer_lag then
           (Degraded, consumer_lag,
            Some (''Consumer lag '' @ u64_string consumer_lag @ '' exceeds threshold ''
              @ u64_string (consumer_lag_threshold k)))
         else (Healthy, consumer_lag, None))"

definition kafka_check_health ::
  "'j json_ops \<Rightarrow> kafka_health_checker \<Rightarrow> u64 \<Rightarrow> duration \<Rightarrow> 'j component_health" where
  "kafka_check_health J k secs elapsed =
     (let (status, consumer_lag, error) = check_kafka_connection k
      in \<lparr>ch_name = ''kafka'', ch_status = status, ch_last_check = secs,
          ch_response_time_ms = Some (f_of_nat (elapsed div 1000000)),
          ch_details =
            [''consumer_lag'' \<mapsto> j_u64 J consumer_lag, ''lag_threshold'' \<mapsto> j_u64 J (consumer_lag_threshold k)],
          ch_error = error\<rparr>)"

definition kafka_checker :: "'j json_ops \<Rightarrow> kafka_health_checker \<Rightarrow> 'j health_checker" where
  "kafka_checker J k =
     \<lparr>hc_name = ''kafka'', hc_is_critical = True, hc_check_health = kafka_check_health J k\<rparr>"

definition check_circuit_breaker_state :: "'j json_ops \<Rightarrow> health_status \<times> (string \<Rightarrow> 'j option)" where
  "check_circuit_breaker_state J =
     (Healthy,
      [''state'' \<mapsto> j_string J ''closed'', ''failure_count'' \<mapsto> j_u64 J 0,
       ''success_rate'' \<mapsto> j_f64 J (f_lit (98 / 100))])"

definition circuit_breaker_checker :: "'j json_ops \<Rightarrow> 'j health_checker" where
  "circuit_breaker_checker J =
     \<lparr>hc_name = ''circuit_breaker'', hc_is_critical = True,
      hc_check_health = (\<lambda>secs elapsed.
        (let (status, details) = check_circuit_breaker_state J
         in \<lparr>ch_name = ''circuit_breaker'', ch_status = status, ch_last_check = secs,
             ch_response_time_ms = Some (f_lit 1), ch_details = details, ch_error = None\<rparr>))\<rparr>"

record system_resource_checker =
  memory_threshold_mb :: f64
  cpu_threshold_percent :: f64

definition check_system_resources ::
  "'j json_ops \<Rightarrow> system_resource_checker \<Rightarrow> health_status \<times> (string \<Rightarrow> 'j option) \<times> string option" where
  "check_system_resources J s =
     (let memory_used_mb = f_lit (2455 / 10);
          cpu_usage_percent = f_lit (152 / 10);
          details =
            [''memory_used_mb'' \<mapsto> j_f64 J memory_used_mb,
             ''memory_threshold_mb'' \<mapsto> j_f64 J (memory_threshold_mb s),
             ''cpu_usage_percent'' \<mapsto> j_f64 J cpu_usage_percent,
             ''cpu_threshold_percent'' \<mapsto> j_f64 J (cpu_threshold_percent s)];
          status =
            (if f_lt (memory_threshold_mb s) memory_used_mb \<or> f_lt (cpu_threshold_percent s) cpu_usage_percent
             then Degraded else Healthy);
          error = (if status = Degraded then Some ''Resource usage exceeds thresholds'' else None)
      in (status, details, error))"

definition system_checker :: "'j json_ops \<Rightarrow> system_resource_checker \<Rightarrow> 'j health_checker" where
  "system_checker J s =
     \<lparr>hc_name = ''system_resources'', hc_is_critical = False,
      hc_check_health = (\<lambda>secs elapsed.
        (let (status, metrics, error) = check_system_resources J s
         in \<lparr>ch_name = ''system_resources'', ch_status = status, ch_last_check = secs,
             ch_response_time_ms = Some (f_lit 5), ch_details = metrics, ch_error = error\<rparr>))\<rparr>"

section \<open>The monitor\<close>

record 'j health_monitor =
  hm_checkers :: "'j health_checker list"
  hm_start_time :: instant
  hm_last_report :: "'j health_report option"

definition health_monitor_new :: "'j json_ops \<Rightarrow> instant \<Rightarrow> 'j health_monitor" where
  "health_monitor_new J now =
     \<lparr>hm_checkers =
        [kafka_checker J (kafka_checker_new 1000), circuit_breaker_checker J,
         system_checker J \<lparr>memory_threshold_mb = f_lit 1024, cpu_threshold_percent = f_lit 80\<rparr>],
      hm_start_time = now, hm_last_report = None\<rparr>"

definition add_checker :: "'j health_checker \<Rightarrow> 'j health_monitor \<Rightarrow> 'j health_monitor" where
  "add_checker c m = m\<lparr>hm_checkers := hm_checkers m @ [c]\<rparr>"

definition combine_status :: "health_status \<Rightarrow> bool \<Rightarrow> health_status \<Rightarrow> health_status" where
  "combine_status status critical overall =
     (case (status, critical) of
        (Unhealthy, True) \<Rightarrow> Unhealthy
      | (Degraded, True) \<Rightarrow> if overall = Healthy then Degraded else overall
      | (Unhealthy, False) \<Rightarrow> if overall = Healthy then Degraded else overall
      | _ \<Rightarrow> overall)"

text \<open>One turn of the loop of \<open>check_health\<close>: the clock readings belong to the checker's turn.\<close>

definition check_component ::
  "'j health_checker \<times> u64 \<times> duration
   \<Rightarrow> (string \<Rightarrow> 'j component_health option) \<times> health_status
   \<Rightarrow> (string \<Rightarrow> 'j component_health option) \<times> health_status" where
  "check_component turn acc =
     (let (checker, secs, elapsed) = turn;
          (components, overall) = acc;
          component_health = hc_check_health checker secs elapsed
      in (components(hc_name checker \<mapsto> component_health),
          combine_status (ch_status component_health) (hc_is_critical checker) overall))"

definition collect_health_metrics ::
  "'j json_ops \<Rightarrow> (string \<Rightarrow> 'j component_health option) \<Rightarrow> health_metrics" where
  "collect_health_metrics J components =
     \<lparr>hm_memory_used_mb = f_lit (2455 / 10), hm_memory_peak_mb = f_lit 350,
      hm_cpu_usage_percent = f_lit (152 / 10), hm_messages_per_minute = 1250,
      hm_error_rate_last_hour = f_lit (1 / 1000),
      hm_consumer_lag =
        (case Option.bind (Option.bind (components ''kafka'') (\<lambda>k. ch_details k ''consumer_lag'')) (j_as_u64 J) of
           Some n \<Rightarrow> n
         | None \<Rightarrow> 0)\<rparr>"

definition run_checkers ::
  "'j health_checker list \<Rightarrow> (u64 \<times> duration) list
   \<Rightarrow> (string \<Rightarrow> 'j component_health option) \<times> health_status" where
  "run_checkers checkers clocks = fold check_component (zip checkers clocks) (Map.empty, Healthy)"

text \<open>\<open>clocks\<close> has one entry for each checker; \<open>text\<close> is the time the report carries.\<close>

definition check_health ::
  "'j json_ops \<Rightarrow> string \<Rightarrow> (u64 \<times> duration) list \<Rightarrow> instant \<Rightarrow> string \<Rightarrow> 'j health_monitor
   \<Rightarrow> 'j health_monitor \<times> 'j health_report" where
  "check_health J version clocks now text m =
     (let (components, overall_status) = run_checkers (hm_checkers m) clocks;
          report =
            \<lparr>hr_status = overall_status, hr_version = version,
             hr_uptime_seconds = of_nat ((now - hm_start_time m) div nanos_per_sec),
             hr_timestamp = text, hr_components = components,
             hr_metrics = collect_health_metrics J components\<rparr>
      in (m\<lparr>hm_last_report := Some report\<rparr>, report))"

definition get_last_report :: "'j health_monitor \<Rightarrow> 'j health_report option" where
  "get_last_report m = hm_last_report m"

section \<open>The overall status\<close>

text \<open>What a component adds to the overall status.\<close>

fun contribution :: "health_status \<Rightarrow> bool \<Rightarrow> health_status" where
  "contribution Unhealthy True = Unhealthy"
| "contribution Degraded True = Degraded"
| "contribution Unhealthy False = Degraded"
| "contribution _ _ = Healthy"

lemma combine_status_max: "combine_status s c overall = max overall (contribution s c)"
  by (cases s; cases c; cases overall)
     (simp_all add: combine_status_def max_def less_eq_health_status_def)

definition turn_contribution :: "'j health_checker \<times> u64 \<times> duration \<Rightarrow> health_status" where
  "turn_contribution turn =
     (case turn of (checker, secs, elapsed) \<Rightarrow>
        contribution (ch_status (hc_check_health checker secs elapsed)) (hc_is_critical checker))"

lemma check_component_turn:
  "check_component (c, t, d) (cs, overall) =
     (cs(hc_name c \<mapsto> hc_check_health c t d), max overall (turn_contribution (c, t, d)))"
  by (simp add: check_component_def combine_status_max turn_contribution_def Let_def)

lemma fold_check_component:
  "fold check_component turns (cs, overall) =
     (cs ++ map_of (rev (map (\<lambda>(c, t, d). (hc_name c, hc_check_health c t d)) turns)),
      fold max (map turn_contribution turns) overall)"
proof (induction turns arbitrary: cs overall)
  case (Cons turn turns)
  obtain c t d where turn: "turn = (c, t, d)" by (cases turn)
  show ?case
    by (simp add: turn check_component_turn Cons max.commute [of overall])
       (auto simp: map_add_def fun_eq_iff split: option.split)
qed simp

lemma fold_max_status:
  "(fold max xs (s :: health_status) = Unhealthy \<longleftrightarrow> s = Unhealthy \<or> Unhealthy \<in> set xs)
   \<and> (fold max xs s = Healthy \<longleftrightarrow> s = Healthy \<and> set xs \<subseteq> {Healthy})"
proof (induction xs arbitrary: s)
  case (Cons x xs)
  have "(max x s = Unhealthy \<longleftrightarrow> x = Unhealthy \<or> s = Unhealthy) \<and> (max x s = Healthy \<longleftrightarrow> x = Healthy \<and> s = Healthy)"
    by (cases x; cases s; simp add: max_def less_eq_health_status_def)
  with Cons [of "max x s"] show ?case by auto
qed simp

section \<open>Properties\<close>

definition check_turns :: "(u64 \<times> duration) list \<Rightarrow> 'j health_monitor \<Rightarrow> ('j health_checker \<times> u64 \<times> duration) list" where
  "check_turns clocks m = zip (hm_checkers m) clocks"

definition turn_status :: "'j health_checker \<times> u64 \<times> duration \<Rightarrow> health_status \<times> bool" where
  "turn_status turn = (case turn of (c, t, d) \<Rightarrow> (ch_status (hc_check_health c t d), hc_is_critical c))"

lemma contribution_cases:
  "turn_contribution turn = Unhealthy \<longleftrightarrow> turn_status turn = (Unhealthy, True)"
  "turn_contribution turn = Healthy \<longleftrightarrow> turn_status turn \<in> {(Healthy, True), (Healthy, False), (Degraded, False)}"
proof -
  obtain c t d where turn: "turn = (c, t, d)" by (cases turn)
  have "contribution s b = Unhealthy \<longleftrightarrow> (s, b) = (Unhealthy, True)"
    "contribution s b = Healthy \<longleftrightarrow> (s, b) \<in> {(Healthy, True), (Healthy, False), (Degraded, False)}" for s b
    by (cases s; cases b; simp)+
  then show "turn_contribution turn = Unhealthy \<longleftrightarrow> turn_status turn = (Unhealthy, True)"
    "turn_contribution turn = Healthy \<longleftrightarrow> turn_status turn \<in> {(Healthy, True), (Healthy, False), (Degraded, False)}"
    unfolding turn turn_contribution_def turn_status_def by simp_all
qed

lemma health_report_facts:
  assumes "check_health J version clocks now text m = (m', r)"
  shows "get_last_report m' = Some r" "hm_checkers m' = hm_checkers m"
    and "hr_components r = map_of (rev (map (\<lambda>(c, t, d). (hc_name c, hc_check_health c t d)) (check_turns clocks m)))"
    and "hr_status r = Unhealthy \<longleftrightarrow> (Unhealthy, True) \<in> turn_status ` set (check_turns clocks m)"
    and "hr_status r = Healthy \<longleftrightarrow>
      turn_status ` set (check_turns clocks m) \<subseteq> {(Healthy, True), (Healthy, False), (Degraded, False)}"
proof -
  let ?turns = "check_turns clocks m"
  have run: "run_checkers (hm_checkers m) clocks =
      (map_of (rev (map (\<lambda>(c, t, d). (hc_name c, hc_check_health c t d)) ?turns)),
       fold max (map turn_contribution ?turns) Healthy)"
    by (simp add: run_checkers_def check_turns_def fold_check_component)
  show "get_last_report m' = Some r" "hm_checkers m' = hm_checkers m"
    "hr_components r = map_of (rev (map (\<lambda>(c, t, d). (hc_name c, hc_check_health c t d)) ?turns))"
    using assms by (auto simp: check_health_def run get_last_report_def Let_def)
  have st: "hr_status r = fold max (map turn_contribution ?turns) Healthy"
    using assms by (auto simp: check_health_def run Let_def)
  have "Unhealthy \<in> turn_contribution ` A \<longleftrightarrow> (Unhealthy, True) \<in> turn_status ` A" for A :: "('a health_checker \<times> u64 \<times> duration) set"
    using contribution_cases(1) by (metis (no_types, lifting) image_iff)
  then show "hr_status r = Unhealthy \<longleftrightarrow> (Unhealthy, True) \<in> turn_status ` set ?turns"
    unfolding st using fold_max_status [of "map turn_contribution ?turns" Healthy] by simp
  show "hr_status r = Healthy \<longleftrightarrow> turn_status ` set ?turns \<subseteq> {(Healthy, True), (Healthy, False), (Degraded, False)}"
    unfolding st using fold_max_status [of "map turn_contribution ?turns" Healthy]
    by (simp add: image_subset_iff contribution_cases(2))
qed

text \<open>
  C33. A health check runs every checker once and reports by severity alone, whatever the order of the
  checkers: Unhealthy exactly if a critical component is unhealthy, Healthy exactly if every critical
  component is healthy and no other is unhealthy, Degraded otherwise. The report is kept as the last
  one, and for each name it has the answer of the last checker of that name.
\<close>

theorem health_overall:
  assumes "check_health J version clocks now text m = (m', r)" "length clocks = length (hm_checkers m)"
  shows "map fst (check_turns clocks m) = hm_checkers m
    \<and> (hr_status r = Unhealthy \<longleftrightarrow> (Unhealthy, True) \<in> turn_status ` set (check_turns clocks m))
    \<and> (hr_status r = Healthy \<longleftrightarrow>
         turn_status ` set (check_turns clocks m) \<subseteq> {(Healthy, True), (Healthy, False), (Degraded, False)})
    \<and> hr_components r = map_of (rev (map (\<lambda>(c, t, d). (hc_name c, hc_check_health c t d)) (check_turns clocks m)))
    \<and> get_last_report m' = Some r"
  using health_report_facts [OF assms(1)] assms(2) by (simp add: check_turns_def)

text \<open>A monitor with one more checker, for a component that is not critical and is unhealthy.\<close>

definition sample_monitor :: "json health_monitor" where
  "sample_monitor =
     add_checker \<lparr>hc_name = ''cache'', hc_is_critical = False,
        hc_check_health = (\<lambda>secs elapsed.
          \<lparr>ch_name = ''cache'', ch_status = Unhealthy, ch_last_check = secs, ch_response_time_ms = None,
           ch_details = Map.empty, ch_error = None\<rparr>)\<rparr> (health_monitor_new json_tree 0)"

lemma default_components:
  "turn_status (kafka_checker J (kafka_checker_new 1000), t, d) = (Healthy, True)"
  "turn_status (circuit_breaker_checker J, t, d) = (Healthy, True)"
  "turn_status (system_checker J \<lparr>memory_threshold_mb = f_lit 1024, cpu_threshold_percent = f_lit 80\<rparr>, t, d)
     = (Healthy, False)"
proof -
  have "f_le (f_lit (2455 / 10)) (f_lit 1024)" "f_le (f_lit (152 / 10)) (f_lit 80)"
    unfolding f_lit_def by (rule rnd_mono, simp)+
  moreover have "f_lt a b \<Longrightarrow> \<not> f_le b a" for a b by (cases a; cases b) auto
  ultimately have "\<not> f_lt (f_lit 1024) (f_lit (2455 / 10))" "\<not> f_lt (f_lit 80) (f_lit (152 / 10))" by blast+
  then show "turn_status (system_checker J \<lparr>memory_threshold_mb = f_lit 1024, cpu_threshold_percent = f_lit 80\<rparr>, t, d)
     = (Healthy, False)"
    by (simp add: turn_status_def system_checker_def check_system_resources_def Let_def)
qed (simp_all add: turn_status_def kafka_checker_def kafka_check_health_def check_kafka_connection_def
      kafka_checker_new_def circuit_breaker_checker_def check_circuit_breaker_state_def)

theorem health_overall_witness:
  "\<exists>m' r. check_health json_tree ''0.1.0'' (replicate 4 (0, 0)) 0 ''now'' sample_monitor = (m', r)
     \<and> hr_status r = Degraded"
proof -
  obtain m' r where c: "check_health json_tree ''0.1.0'' (replicate 4 (0, 0)) 0 ''now'' sample_monitor = (m', r)"
    by fastforce
  have "length (replicate 4 (0 :: u64, 0 :: duration)) = length (hm_checkers sample_monitor)"
    by (simp add: sample_monitor_def add_checker_def health_monitor_new_def)
  note overall = health_overall [OF c this]
  have "turn_status ` set (check_turns (replicate 4 (0, 0)) sample_monitor)
      = {(Healthy, True), (Healthy, False), (Unhealthy, False)}"
    by (simp add: check_turns_def sample_monitor_def add_checker_def health_monitor_new_def default_components
        numeral_eq_Suc) (simp add: turn_status_def insert_commute)
  with overall have "hr_status r \<noteq> Unhealthy" "hr_status r \<noteq> Healthy" by auto
  with c show ?thesis by (cases "hr_status r") auto
qed

end
