(* ===== verification/Metrics.thy ===== *)
theory Metrics
  imports Float64 "HOL-Library.Multiset"
begin

text \<open>
  src/observability/metrics.rs: the registry of counters, gauges and histograms, the statistics of a
  histogram, the export in the Prometheus format and the collector of trading metrics. Each lock of
  the registry is held for one atomic section: \<open>increment_counter\<close> has two, and its calls interleave
  between them. The order in which a \<open>HashMap\<close> is iterated and the text of an \<open>f64\<close> are arguments.
\<close>

section \<open>The registry\<close>

record histogram_data =
  hd_values :: "f64 list"
  hd_count :: u64
  hd_sum :: f64

record metrics_registry =
  counters :: "string \<Rightarrow> u64 option"
  gauges :: "string \<Rightarrow> i64 option"
  histograms :: "string \<Rightarrow> histogram_data option"
  labels :: "string \<Rightarrow> (string \<Rightarrow> string option) option"

definition registry_new :: metrics_registry where
  "registry_new =
     \<lparr>counters = Map.empty, gauges = Map.empty, histograms = Map.empty, labels = Map.empty\<rparr>"

text \<open>The two sections of \<open>increment_counter\<close>: under the read lock, and under the write lock.\<close>

definition increment_read :: "string \<Rightarrow> u64 \<Rightarrow> metrics_registry \<Rightarrow> metrics_registry option" where
  "increment_read name value r =
     (case counters r name of
        Some counter \<Rightarrow> Some (r\<lparr>counters := (counters r)(name \<mapsto> counter + value)\<rparr>)
      | None \<Rightarrow> None)"

definition increment_insert :: "string \<Rightarrow> u64 \<Rightarrow> metrics_registry \<Rightarrow> metrics_registry" where
  "increment_insert name value r = r\<lparr>counters := (counters r)(name \<mapsto> value)\<rparr>"

definition increment_counter :: "string \<Rightarrow> u64 \<Rightarrow> metrics_registry \<Rightarrow> metrics_registry" where
  "increment_counter name value r =
     (case increment_read name value r of Some r' \<Rightarrow> r' | None \<Rightarrow> increment_insert name value r)"

text \<open>
  \<open>set_gauge\<close> and \<open>record_histogram\<close> have the same two sections. A histogram that is there has a lock of
  its own, taken under the read lock of the map; one that is not is inserted under the write lock.
\<close>

definition gauge_read :: "string \<Rightarrow> i64 \<Rightarrow> metrics_registry \<Rightarrow> metrics_registry option" where
  "gauge_read name value r =
     (case gauges r name of
        Some gauge \<Rightarrow> Some (r\<lparr>gauges := (gauges r)(name \<mapsto> value)\<rparr>)
      | None \<Rightarrow> None)"

definition gauge_insert :: "string \<Rightarrow> i64 \<Rightarrow> metrics_registry \<Rightarrow> metrics_registry" where
  "gauge_insert name value r = r\<lparr>gauges := (gauges r)(name \<mapsto> value)\<rparr>"

definition set_gauge :: "string \<Rightarrow> i64 \<Rightarrow> metrics_registry \<Rightarrow> metrics_registry" where
  "set_gauge name value r =
     (case gauge_read name value r of Some r' \<Rightarrow> r' | None \<Rightarrow> gauge_insert name value r)"

definition histogram_push :: "string \<Rightarrow> f64 \<Rightarrow> metrics_registry \<Rightarrow> metrics_registry option" where
  "histogram_push name value r =
     (case histograms r name of
        Some d \<Rightarrow>
          Some (r\<lparr>histograms := (histograms r)(name \<mapsto>
              d\<lparr>hd_values := hd_values d @ [value], hd_count := hd_count d + 1,
                hd_sum := f_add (hd_sum d) value\<rparr>)\<rparr>)
      | None \<Rightarrow> None)"

definition histogram_insert :: "string \<Rightarrow> f64 \<Rightarrow> metrics_registry \<Rightarrow> metrics_registry" where
  "histogram_insert name value r =
     r\<lparr>histograms := (histograms r)(name \<mapsto> \<lparr>hd_values = [value], hd_count = 1, hd_sum = value\<rparr>)\<rparr>"

definition record_histogram :: "string \<Rightarrow> f64 \<Rightarrow> metrics_registry \<Rightarrow> metrics_registry" where
  "record_histogram name value r =
     (case histogram_push name value r of Some r' \<Rightarrow> r' | None \<Rightarrow> histogram_insert name value r)"

lemmas gauge_defs = set_gauge_def gauge_read_def gauge_insert_def

lemmas histogram_defs = record_histogram_def histogram_push_def histogram_insert_def

definition get_counter :: "string \<Rightarrow> metrics_registry \<Rightarrow> u64" where
  "get_counter name r = (case counters r name of Some c \<Rightarrow> c | None \<Rightarrow> 0)"

definition get_gauge :: "string \<Rightarrow> metrics_registry \<Rightarrow> i64" where
  "get_gauge name r = (case gauges r name of Some g \<Rightarrow> g | None \<Rightarrow> 0)"

section \<open>Histogram statistics\<close>

text \<open>
  \<open>sort_by\<close> is a stable sort by \<open>partial_cmp\<close>, under which an incomparable pair counts as equal. With a
  NaN among the samples that is no total order and the library leaves the result open; the lemmas
  exclude it.
\<close>

fun f_insort :: "f64 \<Rightarrow> f64 list \<Rightarrow> f64 list" where
  "f_insort x [] = [x]"
| "f_insort x (y # ys) = (if f_lt y x then y # f_insort x ys else x # y # ys)"

fun f_sort :: "f64 list \<Rightarrow> f64 list" where
  "f_sort [] = []"
| "f_sort (x # xs) = f_insort x (f_sort xs)"

definition percentile :: "f64 list \<Rightarrow> f64 \<Rightarrow> f64" where
  "percentile sorted_values p =
     (if sorted_values = [] then f_lit 0
      else
        (let index = unat (as_u64 (f_mul p (f_of_nat (length sorted_values - 1))))
         in if index < length sorted_values then sorted_values ! index else f_lit 0))"

record performance_metrics =
  p50 :: f64
  p90 :: f64
  p95 :: f64
  p99 :: f64
  perf_max :: f64
  perf_avg :: f64

definition get_histogram_stats :: "string \<Rightarrow> metrics_registry \<Rightarrow> performance_metrics option" where
  "get_histogram_stats name r =
     (case histograms r name of
        None \<Rightarrow> None
      | Some d \<Rightarrow>
          if hd_values d = [] then None
          else
            (let sorted_values = f_sort (hd_values d)
             in Some
               \<lparr>p50 = percentile sorted_values (f_lit (5 / 10)),
                p90 = percentile sorted_values (f_lit (9 / 10)),
                p95 = percentile sorted_values (f_lit (95 / 100)),
                p99 = percentile sorted_values (f_lit (99 / 100)),
                perf_max = (if sorted_values = [] then f_lit 0 else last sorted_values),
                perf_avg = f_div (hd_sum d) (f_of_nat (unat (hd_count d)))\<rparr>))"

section \<open>Export\<close>

definition newline :: string where
  "newline = [CHR 0x0A]"

definition type_line :: "string \<Rightarrow> string \<Rightarrow> string" where
  "type_line name kind = ''# TYPE '' @ name @ '' '' @ kind @ newline"

definition counter_lines :: "metrics_registry \<Rightarrow> string \<Rightarrow> string" where
  "counter_lines r name =
     (case counters r name of
        Some v \<Rightarrow> type_line name ''counter'' @ name @ '' '' @ u64_string v @ newline
      | None \<Rightarrow> [])"

definition gauge_lines :: "metrics_registry \<Rightarrow> string \<Rightarrow> string" where
  "gauge_lines r name =
     (case gauges r name of
        Some v \<Rightarrow> type_line name ''gauge'' @ name @ '' '' @ i64_string v @ newline
      | None \<Rightarrow> [])"

definition histogram_lines :: "(f64 \<Rightarrow> string) \<Rightarrow> metrics_registry \<Rightarrow> string \<Rightarrow> string" where
  "histogram_lines show_f64 r name =
     (case histograms r name of
        Some d \<Rightarrow>
          type_line name ''histogram'' @ name @ ''_count '' @ u64_string (hd_count d) @ newline
            @ name @ ''_sum '' @ show_f64 (hd_sum d) @ newline
      | None \<Rightarrow> [])"

text \<open>The lists are the orders in which the three maps are iterated.\<close>

definition export_prometheus ::
  "(f64 \<Rightarrow> string) \<Rightarrow> string list \<Rightarrow> string list \<Rightarrow> string list \<Rightarrow> metrics_registry \<Rightarrow> string" where
  "export_prometheus show_f64 counter_order gauge_order histogram_order r =
     concat (map (counter_lines r) counter_order)
       @ concat (map (gauge_lines r) gauge_order)
       @ concat (map (histogram_lines show_f64 r) histogram_order)"

section \<open>System metrics\<close>

record network_metrics =
  bytes_in_per_sec :: f64
  bytes_out_per_sec :: f64
  packets_in_per_sec :: f64
  packets_out_per_sec :: f64

record memory_metrics =
  used_mb :: f64
  peak_mb :: f64
  gc_count :: u64
  gc_total_time_ms :: f64

record process_metrics =
  pm_uptime_seconds :: u64
  thread_count :: u32
  fd_count :: u32
  pm_memory :: memory_metrics

record system_metrics =
  cpu_usage :: f64
  memory_usage_mb :: f64
  network_io :: network_metrics
  sm_process :: process_metrics

definition f_of_i64 :: "i64 \<Rightarrow> f64" where
  "f_of_i64 n = rnd (of_int (sint n))"

definition get_system_metrics :: "metrics_registry \<Rightarrow> system_metrics" where
  "get_system_metrics r =
     \<lparr>cpu_usage = f_of_i64 (get_gauge ''cpu_usage_percent'' r),
      memory_usage_mb = f_of_i64 (get_gauge ''memory_usage_mb'' r),
      network_io =
        \<lparr>bytes_in_per_sec = f_of_i64 (get_gauge ''network_bytes_in_per_sec'' r),
         bytes_out_per_sec = f_of_i64 (get_gauge ''network_bytes_out_per_sec'' r),
         packets_in_per_sec = f_of_i64 (get_gauge ''network_packets_in_per_sec'' r),
         packets_out_per_sec = f_of_i64 (get_gauge ''network_packets_out_per_sec'' r)\<rparr>,
      sm_process =
        \<lparr>pm_uptime_seconds = get_counter ''process_uptime_seconds'' r,
         thread_count = ucast (get_gauge ''process_thread_count'' r),
         fd_count = ucast (get_gauge ''process_fd_count'' r),
         pm_memory =
           \<lparr>used_mb = f_of_i64 (get_gauge ''jvm_memory_used_mb'' r),
            peak_mb = f_of_i64 (get_gauge ''jvm_memory_peak_mb'' r),
            gc_count = get_counter ''jvm_gc_count'' r,
            gc_total_time_ms = f_of_i64 (get_gauge ''jvm_gc_total_time_ms'' r)\<rparr>\<rparr>\<rparr>"

section \<open>The trading metrics\<close>

record trading_pair_metrics =
  tp_pair :: string
  tp_trades :: u64
  tp_volume_usd :: f64
  avg_price :: f64
  price_change_24h :: f64

record dex_program_metrics =
  dp_program_id :: string
  dp_name :: string
  dp_trades :: u64
  dp_volume_usd :: f64
  market_share :: f64

record business_metrics =
  trading_pairs :: "trading_pair_metrics list"
  dex_programs :: "dex_program_metrics list"
  total_trades :: u64
  total_volume_usd :: f64
  active_users :: u64
  unique_wallets :: u64

record dex_metrics_collector =
  dm_registry :: metrics_registry
  dm_start_time :: instant

definition collector_new :: "instant \<Rightarrow> metrics_registry \<Rightarrow> dex_metrics_collector" where
  "collector_new now registry = \<lparr>dm_registry = registry, dm_start_time = now\<rparr>"

definition on_registry ::
  "(metrics_registry \<Rightarrow> metrics_registry) \<Rightarrow> dex_metrics_collector \<Rightarrow> dex_metrics_collector" where
  "on_registry f c = c\<lparr>dm_registry := f (dm_registry c)\<rparr>"

definition record_trade :: "string \<Rightarrow> f64 \<Rightarrow> f64 \<Rightarrow> dex_metrics_collector \<Rightarrow> dex_metrics_collector" where
  "record_trade pair price volume =
     on_registry (\<lambda>r0.
       let r1 = increment_counter ''trades_total'' 1 r0;
           r2 = record_histogram ''trade_size_usd'' volume r1;
           r3 = record_histogram ''trade_price'' price r2;
           pair_trades_key = ''trades_total_pair_'' @ pair;
           pair_volume_key = ''volume_usd_pair_'' @ pair;
           r4 = increment_counter pair_trades_key 1 r3
       in set_gauge pair_volume_key (as_i64 volume) r4)"

definition record_dex_interaction ::
  "string \<Rightarrow> string \<Rightarrow> dex_metrics_collector \<Rightarrow> dex_metrics_collector" where
  "record_dex_interaction program_id instruction_type =
     on_registry (increment_counter (''dex_instructions_'' @ program_id @ ''_'' @ instruction_type) 1)"

definition record_processing_latency ::
  "string \<Rightarrow> duration \<Rightarrow> dex_metrics_collector \<Rightarrow> dex_metrics_collector" where
  "record_processing_latency operation d =
     on_registry (record_histogram (''processing_latency_'' @ operation) (f_of_nat (d div 1000000)))"

definition record_user_activity :: "string \<Rightarrow> dex_metrics_collector \<Rightarrow> dex_metrics_collector" where
  "record_user_activity wallet_address =
     on_registry (\<lambda>r. set_gauge (''daily_active_users_'' @ wallet_address) 1
       (increment_counter ''unique_users_total'' 1 r))"

definition get_business_metrics :: "dex_metrics_collector \<Rightarrow> business_metrics" where
  "get_business_metrics c =
     \<lparr>trading_pairs =
        [\<lparr>tp_pair = ''SOL/USDC'', tp_trades = get_counter ''trades_total_pair_SOL/USDC'' (dm_registry c),
          tp_volume_usd = f_lit 1250000, avg_price = f_lit (8945 / 100), price_change_24h = f_lit (32 / 10)\<rparr>,
         \<lparr>tp_pair = ''ETH/SOL'', tp_trades = get_counter ''trades_total_pair_ETH/SOL'' (dm_registry c),
          tp_volume_usd = f_lit 890000, avg_price = f_lit (258 / 10), price_change_24h = f_lit (- 18 / 10)\<rparr>],
      dex_programs =
        [\<lparr>dp_program_id = ''675kPX9MHTjS2zt1qfr1NYHuzeLXfQM9H24wFSUt1Mp8'', dp_name = ''Raydium'',
          dp_trades = 15420, dp_volume_usd = f_lit 980000, market_share = f_lit (458 / 10)\<rparr>,
         \<lparr>dp_program_id = ''9W959DqEETiGZocYWCQPaJ6sBmUzgfxXfqGeTEdp3aQP'', dp_name = ''Orca'',
          dp_trades = 8930, dp_volume_usd = f_lit 620000, market_share = f_lit (289 / 10)\<rparr>],
      total_trades = get_counter ''trades_total'' (dm_registry c),
      total_volume_usd = f_lit 2140000,
      active_users = 1250,
      unique_wallets = 3400\<rparr>"

definition update_system_metrics :: "instant \<Rightarrow> dex_metrics_collector \<Rightarrow> dex_metrics_collector" where
  "update_system_metrics now c =
     (let uptime = of_nat ((now - dm_start_time c) div nanos_per_sec)
      in on_registry
           (set_gauge ''jvm_gc_total_time_ms'' 45
            \<circ> increment_counter ''jvm_gc_count'' 1
            \<circ> set_gauge ''jvm_memory_peak_mb'' 768
            \<circ> set_gauge ''jvm_memory_used_mb'' 512
            \<circ> set_gauge ''process_fd_count'' 128
            \<circ> set_gauge ''process_thread_count'' 12
            \<circ> set_gauge ''network_packets_out_per_sec'' 320
            \<circ> set_gauge ''network_packets_in_per_sec'' 450
            \<circ> set_gauge ''network_bytes_out_per_sec'' 89000
            \<circ> set_gauge ''network_bytes_in_per_sec'' 150000
            \<circ> increment_counter ''process_uptime_seconds'' uptime
            \<circ> set_gauge ''memory_usage_mb'' (as_i64 (f_lit 1024))
            \<circ> set_gauge ''cpu_usage_percent'' (as_i64 (f_lit (452 / 10)))) c)"


section \<open>Lookups after updates\<close>

lemma get_counter_increment [simp]:
  "get_counter n (increment_counter name v r) = (if n = name then get_counter n r + v else get_counter n r)"
  by (simp add: get_counter_def increment_counter_def increment_read_def increment_insert_def split: option.split)

lemma get_gauge_set [simp]: "get_gauge n (set_gauge name v r) = (if n = name then v else get_gauge n r)"
  by (simp add: get_gauge_def gauge_defs split: option.split)

lemma get_counter_other [simp]:
  "get_counter n (set_gauge name g r) = get_counter n r" "get_counter n (record_histogram name x r) = get_counter n r"
  by (simp_all add: get_counter_def gauge_defs histogram_defs split: option.split)

lemma get_gauge_other [simp]:
  "get_gauge n (increment_counter name v r) = get_gauge n r" "get_gauge n (record_histogram name x r) = get_gauge n r"
  by (simp_all add: get_gauge_def increment_counter_def increment_read_def increment_insert_def histogram_defs
      split: option.split)

lemma histograms_other [simp]:
  "histograms (increment_counter name v r) = histograms r" "histograms (set_gauge name g r) = histograms r"
  by (simp_all add: increment_counter_def increment_read_def increment_insert_def gauge_defs split: option.split)

lemma get_new [simp]: "get_counter n registry_new = 0" "get_gauge n registry_new = 0" "histograms registry_new n = None"
  by (simp_all add: get_counter_def get_gauge_def registry_new_def)

section \<open>Histograms\<close>

text \<open>What a histogram holds after the samples of a non-empty list.\<close>

definition histogram_of :: "f64 list \<Rightarrow> histogram_data option" where
  "histogram_of vs =
     (if vs = [] then None
      else Some \<lparr>hd_values = vs, hd_count = of_nat (length vs), hd_sum = foldl f_add (hd vs) (tl vs)\<rparr>)"

lemma record_histogram_of:
  assumes "histograms r n = histogram_of vs"
  shows "histograms (record_histogram name x r) n = (if n = name then histogram_of (vs @ [x]) else histogram_of vs)"
proof (cases "n = name")
  case True
  then show ?thesis
    using assms by (cases vs) (simp_all add: histogram_defs histogram_of_def)
next
  case False
  then show ?thesis using assms by (simp add: histogram_defs split: option.split)
qed

lemma recorded:
  "histograms (fold (\<lambda>(n, v). record_histogram n v) rs registry_new) name
     = histogram_of (map snd (filter (\<lambda>(n, v). n = name) rs))"
proof (induction rs rule: rev_induct)
  case (snoc p rs)
  show ?case
    using record_histogram_of [OF snoc, of "fst p" "snd p"] by (cases p) simp
qed (simp add: histogram_of_def)

lemma mset_f_insort: "mset (f_insort x ys) = add_mset x (mset ys)"
  by (induction ys) auto

lemma mset_f_sort: "mset (f_sort xs) = mset xs"
  by (induction xs) (auto simp: mset_f_insort)

lemma set_f_insort [simp]: "set (f_insort x ys) = insert x (set ys)"
  by (simp add: mset_f_insort flip: set_mset_mset)

lemma set_f_sort [simp]: "set (f_sort xs) = set xs"
  by (simp add: mset_f_sort flip: set_mset_mset)

lemma length_f_sort [simp]: "length (f_sort xs) = length xs"
  using mset_f_sort [of xs] by (metis size_mset)

lemma f_lt_le: "f_lt a b \<Longrightarrow> f_le a b"
  by (cases a; cases b) auto

lemma sorted_f_insort:
  "sorted_wrt f_le ys \<Longrightarrow> NaN \<notin> set ys \<Longrightarrow> x \<noteq> NaN \<Longrightarrow> sorted_wrt f_le (f_insort x ys)"
proof (induction ys)
  case (Cons y ys)
  then have "f_lt y x \<or> f_le x y" using f_lt_iff_not_le [of y x] by auto
  then show ?case using Cons by (auto dest: f_lt_le intro: f_le_trans)
qed simp

lemma sorted_f_sort: "NaN \<notin> set xs \<Longrightarrow> sorted_wrt f_le (f_sort xs)"
  by (induction xs) (auto intro: sorted_f_insort)

text \<open>The index that a percentile reads.\<close>

definition rank :: "nat \<Rightarrow> f64 \<Rightarrow> nat" where
  "rank n p = unat (as_u64 (f_mul p (f_of_nat (n - 1))))"

definition fraction :: "f64 \<Rightarrow> bool" where
  "fraction p \<longleftrightarrow> (\<exists>q. p = Fin q \<and> 0 \<le> q \<and> q \<le> 1)"

lemma fraction_lit: "0 \<le> a \<Longrightarrow> a \<le> 1 \<Longrightarrow> fraction (f_lit a)"
  using rnd_le_Fin [of a 1 1] by (auto simp: fraction_def f_lit_def)

lemma f_lit_mono: "a \<le> b \<Longrightarrow> f_le (f_lit a) (f_lit b)"
  by (simp add: f_lit_def rnd_mono)

lemma rank_mono:
  assumes "fraction p" "fraction q" "f_le p q" "n \<le> 2 ^ 53"
  shows "rank n p \<le> rank n q"
proof -
  obtain x y where xy: "p = Fin x" "q = Fin y" "x \<le> y" using assms by (auto simp: fraction_def)
  have n: "f_of_nat (n - 1) = Fin (of_nat (n - 1))" using assms(4) by (simp add: f_of_nat_def rnd_of_nat)
  have "f_le (f_mul p (f_of_nat (n - 1))) (f_mul q (f_of_nat (n - 1)))"
    unfolding n xy using xy(3) by (simp add: rnd_mono mult_right_mono)
  from as_u64_mono [OF this] show ?thesis by (simp add: rank_def word_le_nat_alt)
qed

lemma rank_one: "n \<le> 2 ^ 53 \<Longrightarrow> rank n (Fin 1) = n - 1"
proof -
  assume n: "n \<le> 2 ^ 53"
  then have "f_mul (Fin 1) (f_of_nat (n - 1)) = Fin (of_nat (n - 1))" by (simp add: f_of_nat_def rnd_of_nat)
  moreover have "\<not> (2 :: rat) ^ 64 \<le> of_nat (n - 1)"
  proof -
    have "(of_nat (n - 1) :: rat) \<le> of_nat (2 ^ 53)" using n by (simp only: of_nat_le_iff)
    also have "\<dots> < 2 ^ 64" by simp
    finally show ?thesis by simp
  qed
  ultimately show ?thesis using unat_as_u64_Fin [of "of_nat (n - 1)"] by (simp add: rank_def)
qed

lemma rank_less: "fraction p \<Longrightarrow> 0 < n \<Longrightarrow> n \<le> 2 ^ 53 \<Longrightarrow> rank n p < n"
  using rank_mono [of p "Fin 1" n] rank_one [of n] by (auto simp: fraction_def)

lemma percentile_rank:
  assumes "fraction p" "vs \<noteq> []" "length vs \<le> 2 ^ 53"
  shows "percentile vs p = vs ! rank (length vs) p" "percentile vs p \<in> set vs"
proof -
  show *: "percentile vs p = vs ! rank (length vs) p"
    using rank_less [OF assms(1) _ assms(3)] assms(2) by (simp add: percentile_def rank_def Let_def)
  show "percentile vs p \<in> set vs"
    unfolding * using rank_less [OF assms(1) _ assms(3)] assms(2) by simp
qed

lemma percentile_mono:
  assumes "fraction p" "fraction q" "f_le p q" "vs \<noteq> []" "length vs \<le> 2 ^ 53" "sorted_wrt f_le vs" "NaN \<notin> set vs"
  shows "f_le (percentile vs p) (percentile vs q)"
proof -
  let ?i = "rank (length vs) p" and ?j = "rank (length vs) q"
  have ij: "?i \<le> ?j" "?j < length vs"
    using rank_mono [OF assms(1-3,5)] rank_less [OF assms(2) _ assms(5)] assms(4) by simp_all
  have "f_le (vs ! ?i) (vs ! ?j)"
  proof (cases "?i = ?j")
    case True
    have "vs ! ?j \<in> set vs" using ij(2) by simp
    then show ?thesis using True assms(7) by (auto intro: f_le_refl)
  next
    case False
    then show ?thesis using ij assms(6) by (simp add: sorted_wrt_nth_less)
  qed
  then show ?thesis using percentile_rank(1) assms by simp
qed

lemma percentile_max: "vs \<noteq> [] \<Longrightarrow> length vs \<le> 2 ^ 53 \<Longrightarrow> percentile vs (Fin 1) = last vs"
  using percentile_rank(1) [of "Fin 1" vs] rank_one [of "length vs"] by (simp add: fraction_def last_conv_nth)

lemma sorted_last: "sorted_wrt f_le vs \<Longrightarrow> v \<in> set vs \<Longrightarrow> v = last vs \<or> f_le v (last vs)"
  by (induction vs) (auto split: if_splits)


lemma percentile_literals:
  "fraction (f_lit (5 / 10))" "fraction (f_lit (9 / 10))" "fraction (f_lit (95 / 100))" "fraction (f_lit (99 / 100))"
  "f_le (f_lit (5 / 10)) (f_lit (9 / 10))" "f_le (f_lit (9 / 10)) (f_lit (95 / 100))"
  "f_le (f_lit (95 / 100)) (f_lit (99 / 100))" "f_le (f_lit (99 / 100)) (Fin 1)" "fraction (Fin 1)"
  using f_lit_mono [of "99 / 100" 1]
  by (auto intro!: fraction_lit f_lit_mono) (simp_all add: f_lit_def fraction_def)

text \<open>
  C28. The statistics of a histogram, after any sequence of recordings under any names, of which those
  under \<open>name\<close> are \<open>vs\<close>, not empty, without a NaN and at most 2^53: every percentile and the maximum are
  samples, p50 \<le> p90 \<le> p95 \<le> p99 \<le> max, no sample exceeds the maximum, and the average divides the sum
  accumulated in the order of recording by the number of the samples.
\<close>

theorem histogram_stats_sound:
  assumes "vs = map snd (filter (\<lambda>(n, v). n = name) rs)" "vs \<noteq> []" "NaN \<notin> set vs" "length vs \<le> 2 ^ 53"
  shows "\<exists>s. get_histogram_stats name (fold (\<lambda>(n, v). record_histogram n v) rs registry_new) = Some s
    \<and> f_le (p50 s) (p90 s) \<and> f_le (p90 s) (p95 s) \<and> f_le (p95 s) (p99 s) \<and> f_le (p99 s) (perf_max s)
    \<and> {p50 s, p90 s, p95 s, p99 s, perf_max s} \<subseteq> set vs
    \<and> list_all (\<lambda>v. f_le v (perf_max s)) vs
    \<and> perf_avg s = f_div (foldl f_add (hd vs) (tl vs)) (f_of_nat (length vs))"
proof -
  let ?s = "f_sort vs"
  have ne: "?s \<noteq> []" using assms(2) by (metis length_0_conv length_f_sort)
  have len: "length ?s \<le> 2 ^ 53" and nan: "NaN \<notin> set ?s" and sorted: "sorted_wrt f_le ?s"
    using assms(3,4) by (simp_all add: sorted_f_sort)
  note perc = percentile_rank(2) [OF _ ne len]
    and mono = percentile_mono [OF _ _ _ ne len sorted nan]
  note top = percentile_max [OF ne len]
  define d where
    "d = \<lparr>hd_values = vs, hd_count = of_nat (length vs), hd_sum = foldl f_add (hd vs) (tl vs)\<rparr>"
  have d: "hd_values d = vs" "hd_sum d = foldl f_add (hd vs) (tl vs)" "unat (hd_count d) = length vs"
    using assms(4) by (simp_all add: d_def unat_of_nat)
  have "histograms (fold (\<lambda>(n, v). record_histogram n v) rs registry_new) name = Some d"
    using assms(2) by (simp add: recorded [of rs name, folded assms(1)] histogram_of_def d_def)
  then have stats: "get_histogram_stats name (fold (\<lambda>(n, v). record_histogram n v) rs registry_new) = Some
      \<lparr>p50 = percentile ?s (f_lit (5 / 10)), p90 = percentile ?s (f_lit (9 / 10)),
       p95 = percentile ?s (f_lit (95 / 100)), p99 = percentile ?s (f_lit (99 / 100)), perf_max = last ?s,
       perf_avg = f_div (foldl f_add (hd vs) (tl vs)) (f_of_nat (length vs))\<rparr>"
    using assms(2) ne by (simp add: get_histogram_stats_def d Let_def)
  have max: "f_le v (last ?s)" if "v \<in> set vs" for v
    using sorted_last [OF sorted] that nan by (metis f_le_refl set_f_sort)
  show ?thesis
    unfolding stats
    using mono percentile_literals perc top last_in_set [OF ne] max
    by (auto simp: list_all_iff)
qed

theorem histogram_stats_sound_witness:
  "\<exists>s. get_histogram_stats ''h'' (fold (\<lambda>(n, v). record_histogram n v)
        [(''h'', Fin 3), (''g'', Fin 9), (''h'', Fin 1)] registry_new) = Some s
     \<and> f_le (p50 s) (p99 s) \<and> perf_max s = Fin 3"
proof -
  have "length [Fin 3, Fin 1] \<le> 2 ^ 53" by (simp add: self_le_power)
  from histogram_stats_sound [OF _ _ _ this, of "''h''" "[(''h'', Fin 3), (''g'', Fin 9), (''h'', Fin 1)]"]
  obtain s where "get_histogram_stats ''h'' (fold (\<lambda>(n, v). record_histogram n v)
        [(''h'', Fin 3), (''g'', Fin 9), (''h'', Fin 1)] registry_new) = Some s"
      "f_le (p50 s) (p90 s)" "f_le (p90 s) (p95 s)" "f_le (p95 s) (p99 s)"
      "perf_max s \<in> {Fin 3, Fin 1}" "f_le (Fin 3) (perf_max s)"
    by auto
  then show ?thesis by (intro exI [of _ s]) (auto intro: f_le_trans)
qed

section \<open>Concurrent increments\<close>

text \<open>
  Tasks that each make one call of \<open>increment_counter\<close>. A call that finds no counter gives up the read
  lock before it takes the write lock: other tasks may run in between.
\<close>

datatype inc_task = Calling string u64 | Inserting string u64 | Finished string u64

fun inc_step :: "nat \<Rightarrow> metrics_registry \<times> inc_task list \<Rightarrow> (metrics_registry \<times> inc_task list) option" where
  "inc_step i (r, ts) =
     (if i < length ts then
        (case ts ! i of
           Calling name value \<Rightarrow>
             (case increment_read name value r of
                Some r' \<Rightarrow> Some (r', ts[i := Finished name value])
              | None \<Rightarrow> Some (r, ts[i := Inserting name value]))
         | Inserting name value \<Rightarrow> Some (increment_insert name value r, ts[i := Finished name value])
         | Finished _ _ \<Rightarrow> None)
      else None)"

inductive inc_reachable ::
  "metrics_registry \<times> inc_task list \<Rightarrow> metrics_registry \<times> inc_task list \<Rightarrow> bool" for s0 where
  start: "inc_reachable s0 s0"
| step: "inc_reachable s0 s \<Longrightarrow> inc_step i s = Some s' \<Longrightarrow> inc_reachable s0 s'"

fun done_by :: "string \<Rightarrow> inc_task \<Rightarrow> u64" where
  "done_by name (Finished n v) = (if n = name then v else 0)"
| "done_by name _ = 0"

fun inserting :: "string \<Rightarrow> inc_task \<Rightarrow> bool" where
  "inserting name (Inserting n v) \<longleftrightarrow> n = name"
| "inserting name _ \<longleftrightarrow> False"

definition counted :: "string \<Rightarrow> u64 \<Rightarrow> metrics_registry \<times> inc_task list \<Rightarrow> bool" where
  "counted name c0 s \<longleftrightarrow>
     counters (fst s) name = Some (c0 + sum_list (map (done_by name) (snd s)))
     \<and> \<not> list_ex (inserting name) (snd s)"

lemma sum_list_update_word:
  fixes f :: "'a \<Rightarrow> u64"
  shows "i < length xs \<Longrightarrow> sum_list (map f (xs[i := x])) = sum_list (map f xs) + f x - f (xs ! i)"
proof (induction xs arbitrary: i)
  case (Cons y ys)
  then show ?case by (cases i) (simp_all add: algebra_simps)
qed simp

lemma no_inserting_update:
  "\<not> list_ex P xs \<Longrightarrow> \<not> P x \<Longrightarrow> \<not> list_ex P (xs[i := x])"
  using set_update_subset_insert [of xs i x] by (auto simp: list_ex_iff)

lemma counted_step:
  assumes "counted name c0 (r, ts)" "inc_step i (r, ts) = Some (r', ts')"
  shows "counted name c0 (r', ts')"
proof -
  have i: "i < length ts" using assms(2) by (simp split: if_splits)
  note upd = sum_list_update_word [OF i] and no = no_inserting_update [of "inserting name" ts]
  have c: "counters r name = Some (c0 + sum_list (map (done_by name) ts))" "\<not> list_ex (inserting name) ts"
    using assms(1) by (simp_all add: counted_def)
  show ?thesis
  proof (cases "ts ! i")
    case (Calling n v)
    show ?thesis
    proof (cases "increment_read n v r")
      case None
      then have "n \<noteq> name" using c(1) by (auto simp: increment_read_def split: option.splits)
      then show ?thesis using assms(2) i Calling None c upd no by (auto simp: counted_def)
    next
      case (Some r2)
      then have "counters r2 name = Some (c0 + sum_list (map (done_by name) ts) + (if n = name then v else 0))"
        using c(1) by (auto simp: increment_read_def split: option.splits)
      then show ?thesis using assms(2) i Calling Some c upd no by (auto simp: counted_def add.assoc)
    qed
  next
    case (Inserting n v)
    then have "n \<noteq> name" using c(2) nth_mem [OF i] by (auto simp: list_ex_iff)
    then show ?thesis using assms(2) i Inserting c upd no by (auto simp: counted_def increment_insert_def)
  next
    case (Finished n v)
    then show ?thesis using assms(2) i by simp
  qed
qed

lemma counted_reachable: "inc_reachable s0 s \<Longrightarrow> counted name c0 s0 \<Longrightarrow> counted name c0 s"
proof (induction rule: inc_reachable.induct)
  case (step s i s')
  then show ?case using counted_step by (cases s; cases s') blast
qed

lemma done_by_finished:
  "map (done_by name) (map (\<lambda>(n, v). Finished n v) calls) = map (\<lambda>(n, v). if n = name then v else 0) calls"
  by auto

text \<open>
  Two first increments of a new counter: each finds no counter, and the later insert overwrites the
  earlier one.
\<close>

lemma first_increments_race:
  "\<exists>r. inc_reachable (registry_new, [Calling n a, Calling n b]) (r, [Finished n a, Finished n b])
     \<and> counters r n = Some b"
proof -
  let ?r1 = "increment_insert n a registry_new"
  have "inc_reachable (registry_new, [Calling n a, Calling n b]) (registry_new, [Inserting n a, Calling n b])"
    by (rule inc_reachable.step [OF inc_reachable.start, where i = 0]) (simp add: increment_read_def registry_new_def)
  then have "inc_reachable (registry_new, [Calling n a, Calling n b]) (registry_new, [Inserting n a, Inserting n b])"
    by (rule inc_reachable.step [where i = 1]) (simp add: increment_read_def registry_new_def)
  then have "inc_reachable (registry_new, [Calling n a, Calling n b]) (?r1, [Finished n a, Inserting n b])"
    by (rule inc_reachable.step [where i = 0]) simp
  then have "inc_reachable (registry_new, [Calling n a, Calling n b]) (increment_insert n b ?r1, [Finished n a, Finished n b])"
    by (rule inc_reachable.step [where i = 1]) simp
  then show ?thesis by (intro exI conjI) (auto simp: increment_insert_def)
qed

text \<open>
  C30. Concurrent calls of \<open>increment_counter\<close>, whatever the interleaving of their sections: a counter
  that exists ends as its old value plus all the increments made under its name, modulo 2^64. The first
  two increments of a new counter may race, and then one of them is lost.
\<close>

theorem concurrent_increments:
  assumes "counters r0 name = Some c0"
    and "inc_reachable (r0, map (\<lambda>(n, v). Calling n v) calls) (r, map (\<lambda>(n, v). Finished n v) calls)"
  shows "counters r name = Some (c0 + sum_list (map (\<lambda>(n, v). if n = name then v else 0) calls))
    \<and> (\<exists>r'. inc_reachable (registry_new, [Calling name a, Calling name b]) (r', [Finished name a, Finished name b])
         \<and> counters r' name = Some b)"
proof -
  have "map (done_by name) (map (\<lambda>(n, v). Calling n v) calls) = replicate (length calls) 0"
    by (induction calls) auto
  then have "counted name c0 (r0, map (\<lambda>(n, v). Calling n v) calls)"
    using assms(1) by (auto simp: counted_def list_ex_iff sum_list_replicate simp del: map_map)
  from counted_reachable [OF assms(2) this] first_increments_race [of name a b] show ?thesis
    by (simp add: counted_def done_by_finished del: map_map)
qed

theorem concurrent_increments_witness:
  "\<exists>r. inc_reachable (increment_insert ''c'' 5 registry_new, [Calling ''c'' 2]) (r, [Finished ''c'' 2])
     \<and> counters r ''c'' = Some 7"
proof -
  let ?r0 = "increment_insert ''c'' 5 registry_new"
  let ?r1 = "?r0\<lparr>counters := (counters ?r0)(''c'' \<mapsto> 7)\<rparr>"
  have c0: "counters ?r0 ''c'' = Some 5" by (simp add: increment_insert_def)
  have "inc_step 0 (?r0, map (\<lambda>(n, v). Calling n v) [(''c'', 2)])
      = Some (?r1, map (\<lambda>(n, v). Finished n v) [(''c'', 2)])"
    by (simp add: increment_read_def c0)
  note run = inc_reachable.step [OF inc_reachable.start this]
  from concurrent_increments [OF c0 run] run show ?thesis
    by (intro exI [of _ ?r1]) simp
qed

section \<open>Trading metrics\<close>

lemma on_registry_registry [simp]: "dm_registry (on_registry f c) = f (dm_registry c)"
  by (simp add: on_registry_def)

text \<open>
  The metrics of any sequence of trades: \<open>trades_total\<close> is their number, the counter of a pair is the
  number of its trades, both modulo 2^64, the histogram of sizes has every volume in order; but the
  volume gauge of a pair is the volume of its last trade alone, cut to an integer, not the traded
  volume.
\<close>

theorem trade_metrics:
  "let r = dm_registry (fold (\<lambda>(pair, price, volume). record_trade pair price volume) trades
              (collector_new now registry_new));
       volumes = map (\<lambda>(_, _, volume). volume) (filter (\<lambda>(q, _, _). q = pair) trades)
   in get_counter ''trades_total'' r = of_nat (length trades)
      \<and> get_counter (''trades_total_pair_'' @ pair) r = of_nat (length volumes)
      \<and> histograms r ''trade_size_usd'' = histogram_of (map (\<lambda>(_, _, volume). volume) trades)
      \<and> get_gauge (''volume_usd_pair_'' @ pair) r = (if volumes = [] then 0 else as_i64 (last volumes))"
proof (induction trades rule: rev_induct)
  case Nil
  then show ?case by (simp add: collector_new_def histogram_of_def Let_def)
next
  case (snoc t trades)
  obtain q x v where t: "t = (q, x, v)" by (cases t)
  show ?case
    using snoc record_histogram_of [of _ "''trade_size_usd''"]
    by (auto simp: t record_trade_def Let_def)
qed

end
