(* ===== verification/HttpServer.thy ===== *)
theory HttpServer
  imports Health Metrics
begin

text \<open>
  src/http_server.rs: the handlers behind the routes of the observability server and the dispatch on
  the path. The warp crate, which listens and writes the replies, is not modelled: a response is its
  status code, its content type and its body, and a request that no route takes is \<open>None\<close>. The version
  and the description of the package and the text of the time are arguments.
\<close>

section \<open>Handlers\<close>

record 'j observability_server =
  os_health_monitor :: "'j health_monitor"
  os_metrics_registry :: metrics_registry
  os_port :: "16 word"

definition observability_server_new ::
  "'j health_monitor \<Rightarrow> metrics_registry \<Rightarrow> 16 word \<Rightarrow> 'j observability_server" where
  "observability_server_new m r port =
     \<lparr>os_health_monitor = m, os_metrics_registry = r, os_port = port\<rparr>"

datatype 'j reply_body = ReportBody "'j health_report" | JsonBody 'j | TextBody string

record 'j http_response =
  http_status :: nat
  http_content_type :: string
  http_body :: "'j reply_body"

definition status_name :: "health_status \<Rightarrow> string" where
  "status_name s = (case s of Healthy \<Rightarrow> ''Healthy'' | Degraded \<Rightarrow> ''Degraded'' | Unhealthy \<Rightarrow> ''Unhealthy'')"

text \<open>The report that stands in while no check has run.\<close>

definition missing_report :: "string \<Rightarrow> string \<Rightarrow> 'j health_report" where
  "missing_report version text =
     \<lparr>hr_status = Unhealthy, hr_version = version, hr_uptime_seconds = 0, hr_timestamp = text,
      hr_components = Map.empty,
      hr_metrics =
        \<lparr>hm_memory_used_mb = f_lit 0, hm_memory_peak_mb = f_lit 0, hm_cpu_usage_percent = f_lit 0,
         hm_messages_per_minute = 0, hm_error_rate_last_hour = f_lit 0, hm_consumer_lag = 0\<rparr>\<rparr>"

definition report_or_missing :: "string \<Rightarrow> string \<Rightarrow> 'j health_monitor \<Rightarrow> 'j health_report" where
  "report_or_missing version text m =
     (case get_last_report m of Some r \<Rightarrow> r | None \<Rightarrow> missing_report version text)"

definition health_handler :: "string \<Rightarrow> string \<Rightarrow> 'j health_monitor \<Rightarrow> 'j http_response" where
  "health_handler version text m =
     (let health_report = report_or_missing version text m;
          status_code =
            (case hr_status health_report of Healthy \<Rightarrow> 200 | Degraded \<Rightarrow> 200 | Unhealthy \<Rightarrow> 503)
      in \<lparr>http_status = status_code, http_content_type = ''application/json'',
          http_body = ReportBody health_report\<rparr>)"

definition readiness_handler ::
  "'j json_ops \<Rightarrow> string \<Rightarrow> string \<Rightarrow> 'j health_monitor \<Rightarrow> 'j http_response" where
  "readiness_handler J version text m =
     (let health_report = report_or_missing version text m;
          is_ready = (hr_status health_report \<in> {Healthy, Degraded})
      in \<lparr>http_status = (if is_ready then 200 else 503), http_content_type = ''application/json'',
          http_body = JsonBody (j_object J
            [(''ready'', j_bool J is_ready),
             (''status'', j_string J (status_name (hr_status health_report))),
             (''timestamp'', j_string J (hr_timestamp health_report)),
             (''version'', j_string J (hr_version health_report))])\<rparr>)"

definition liveness_handler ::
  "'j json_ops \<Rightarrow> string \<Rightarrow> string \<Rightarrow> 'j health_monitor \<Rightarrow> 'j http_response" where
  "liveness_handler J version text m =
     (let health_report = report_or_missing version text m;
          is_alive = (hr_status health_report \<noteq> Unhealthy)
      in \<lparr>http_status = (if is_alive then 200 else 503), http_content_type = ''application/json'',
          http_body = JsonBody (j_object J
            [(''alive'', j_bool J is_alive),
             (''uptime_seconds'', j_u64 J (hr_uptime_seconds health_report)),
             (''timestamp'', j_string J (hr_timestamp health_report)),
             (''version'', j_string J (hr_version health_report))])\<rparr>)"

definition metrics_handler ::
  "(f64 \<Rightarrow> string) \<Rightarrow> string list \<times> string list \<times> string list \<Rightarrow> metrics_registry \<Rightarrow> 'j http_response" where
  "metrics_handler show_f64 orders r =
     (case orders of (cs, gs, hs) \<Rightarrow>
        \<lparr>http_status = 200, http_content_type = ''text/plain; version=0.0.4; charset=utf-8'',
         http_body = TextBody (export_prometheus show_f64 cs gs hs r)\<rparr>)"

definition version_handler :: "'j json_ops \<Rightarrow> string \<Rightarrow> string \<Rightarrow> 'j http_response" where
  "version_handler J version description =
     \<lparr>http_status = 200, http_content_type = ''application/json'',
      http_body = JsonBody (j_object J
        [(''service'', j_string J ''zola-streams''), (''version'', j_string J version),
         (''description'', j_string J description)])\<rparr>"

text \<open>
  The routes in their order. Each matches on the first segment of the path alone, for every method.
\<close>

definition serve ::
  "'j json_ops \<Rightarrow> (f64 \<Rightarrow> string) \<Rightarrow> string list \<times> string list \<times> string list \<Rightarrow> string \<Rightarrow> string \<Rightarrow> string
   \<Rightarrow> string list \<Rightarrow> 'j observability_server \<Rightarrow> 'j http_response option" where
  "serve J show_f64 orders version description text path s =
     (case path of
        [] \<Rightarrow> None
      | segment # _ \<Rightarrow>
          if segment = ''health'' then Some (health_handler version text (os_health_monitor s))
          else if segment = ''ready'' then Some (readiness_handler J version text (os_health_monitor s))
          else if segment = ''live'' then Some (liveness_handler J version text (os_health_monitor s))
          else if segment = ''metrics'' then Some (metrics_handler show_f64 orders (os_metrics_registry s))
          else if segment = ''version'' then Some (version_handler J version description)
          else None)"

section \<open>Properties\<close>

text \<open>The status codes of the three health endpoints.\<close>

definition health_codes :: "'j json_ops \<Rightarrow> string \<Rightarrow> string \<Rightarrow> 'j health_monitor \<Rightarrow> nat set" where
  "health_codes J version text m =
     {http_status (health_handler version text m), http_status (readiness_handler J version text m),
      http_status (liveness_handler J version text m)}"

lemma health_codes_report:
  "health_codes J version text m =
     {case get_last_report m of None \<Rightarrow> 503 | Some r \<Rightarrow> if hr_status r = Unhealthy then 503 else 200}"
proof (cases "get_last_report m")
  case (Some r)
  then show ?thesis
    by (cases "hr_status r") (simp_all add: health_codes_def health_handler_def readiness_handler_def
        liveness_handler_def report_or_missing_def)
qed (simp add: health_codes_def health_handler_def readiness_handler_def liveness_handler_def
      report_or_missing_def missing_report_def)

lemma health_codes_check:
  assumes "check_health J version clocks now text m = (m', r)"
  shows "health_codes J version' text' m' =
    {if (Unhealthy, True) \<in> turn_status ` set (check_turns clocks m) then 503 else 200}"
  using health_report_facts(1,4) [OF assms] by (simp add: health_codes_report)

text \<open>
  C36. The three health endpoints always answer with the same code. Before the first check it is 503,
  for the liveness probe too; from a check on it is 503 exactly if that check found a critical
  component unhealthy, and 200 otherwise, a degraded service included.
\<close>

theorem health_endpoint_codes:
  assumes "check_health J version clocks now text m = (m', r)"
  shows "health_codes J version' text' m' =
      {if (Unhealthy, True) \<in> turn_status ` set (check_turns clocks m) then 503 else 200}
    \<and> health_codes J version' text' (health_monitor_new J start) = {503}"
  using health_codes_check [OF assms]
  by (simp add: health_codes_report get_last_report_def health_monitor_new_def)

theorem health_endpoint_codes_witness:
  "\<exists>m' r. check_health json_tree ''0.1.0'' (replicate 4 (0, 0)) 0 ''now'' sample_monitor = (m', r)
     \<and> health_codes json_tree ''0.1.0'' ''later'' m' = {200}"
proof -
  obtain m' r where c: "check_health json_tree ''0.1.0'' (replicate 4 (0, 0)) 0 ''now'' sample_monitor = (m', r)"
    by fastforce
  have "(Unhealthy, True) \<notin> turn_status ` set (check_turns (replicate 4 (0, 0)) sample_monitor)"
    by (simp add: check_turns_def sample_monitor_def add_checker_def health_monitor_new_def default_components
        numeral_eq_Suc) (simp add: turn_status_def)
  with health_endpoint_codes [OF c] c show ?thesis by (intro exI conjI) auto
qed

end
