(* ===== verification/Service.thy ===== *)
theory Service
  imports Direct HttpServer
begin

text \<open>
  src/main.rs and the initialization in src/lib.rs: the command line, the environment overrides, the
  validation commands, the start of the service and its event loop. The environment variables, the
  file system, rdkafka and the global logger answer through arguments. The ends of \<open>start_service\<close> by a
  signal or by the end of the HTTP server, and the printing, are left out.
\<close>

section \<open>Initialization\<close>

record init_config =
  log_filter :: string
  init_enable_metrics :: bool
  metrics_port :: "16 word"

definition init_config_default :: "bool \<Rightarrow> init_config" where
  "init_config_default metrics_feature =
     \<lparr>log_filter = ''bitquery_solana_sdk=info'', init_enable_metrics = metrics_feature, metrics_port = 9090\<rparr>"

text \<open>
  \<open>try_init\<close> sets the global subscriber, \<open>parse_addr\<close> reads a socket address and \<open>install\<close> starts the
  exporter; the last two exist only with the feature "metrics".
\<close>

definition init_with_config ::
  "bool \<Rightarrow> string + unit \<Rightarrow> (string \<Rightarrow> string + 'a) \<Rightarrow> ('a \<Rightarrow> string + unit) \<Rightarrow> init_config \<Rightarrow> sdk_error + unit" where
  "init_with_config metrics_feature try_init parse_addr install cfg =
     and_then (map_err (\<lambda>e. Config (''Failed to initialize global tracing subscriber: '' @ e)) try_init) (\<lambda>_.
     if metrics_feature then
       (if init_enable_metrics cfg then
          and_then (map_err (\<lambda>e. Config (''Invalid IP address or port for metrics exporter: '' @ e))
                      (parse_addr (''0.0.0.0:'' @ dec_string (unat (metrics_port cfg))))) (\<lambda>addr.
          map_err (\<lambda>e. Config (''Failed to install Prometheus metrics exporter: '' @ e)) (install addr))
        else Inr ())
     else Inr ())"

definition sdk_init ::
  "bool \<Rightarrow> string + unit \<Rightarrow> (string \<Rightarrow> string + 'a) \<Rightarrow> ('a \<Rightarrow> string + unit) \<Rightarrow> sdk_error + unit" where
  "sdk_init metrics_feature try_init parse_addr install =
     init_with_config metrics_feature try_init parse_addr install (init_config_default metrics_feature)"

text \<open>The filter that a caller asks for is not looked at: two configurations that differ in it alone do the same.\<close>

lemma log_filter_ignored:
  "init_with_config feature r parse inst (cfg\<lparr>log_filter := f\<rparr>) = init_with_config feature r parse inst cfg"
  by (simp add: init_with_config_def)

section \<open>Environment overrides\<close>

text \<open>\<open>split\<close> at a character, which leaves an empty text for an empty one.\<close>

fun split_on :: "char \<Rightarrow> string \<Rightarrow> string list" where
  "split_on c [] = [[]]"
| "split_on c (x # xs) =
     (if x = c then [] # split_on c xs
      else (case split_on c xs of w # ws \<Rightarrow> (x # w) # ws | [] \<Rightarrow> [[x]]))"

text \<open>
  \<open>trim\<close> strips the characters of Unicode's White_Space. A text is its bytes in UTF-8, where such a
  character is one to three bytes long, and where its bytes at the end of a text are that character.
\<close>

definition white_spaces :: "string list" where
  "white_spaces =
     [[CHR 0x09], [CHR 0x0A], [CHR 0x0B], [CHR 0x0C], [CHR 0x0D], [CHR 0x20],
      [CHR 0xC2, CHR 0x85], [CHR 0xC2, CHR 0xA0], [CHR 0xE1, CHR 0x9A, CHR 0x80]]
     @ map (\<lambda>b. [CHR 0xE2, CHR 0x80, b])
         [CHR 0x80, CHR 0x81, CHR 0x82, CHR 0x83, CHR 0x84, CHR 0x85, CHR 0x86, CHR 0x87, CHR 0x88, CHR 0x89,
          CHR 0x8A, CHR 0xA8, CHR 0xA9, CHR 0xAF]
     @ [[CHR 0xE2, CHR 0x81, CHR 0x9F], [CHR 0xE3, CHR 0x80, CHR 0x80]]"

definition first_of :: "string list \<Rightarrow> string \<Rightarrow> string option" where
  "first_of ws s = List.find (\<lambda>w. w \<noteq> [] \<and> s \<noteq> [] \<and> take (length w) s = w) ws"

text \<open>Each turn takes at least a byte off, so that the length of the text is fuel enough.\<close>

primrec strip_turns :: "nat \<Rightarrow> string list \<Rightarrow> string \<Rightarrow> string" where
  "strip_turns 0 ws s = s"
| "strip_turns (Suc n) ws s =
     (case first_of ws s of Some w \<Rightarrow> strip_turns n ws (drop (length w) s) | None \<Rightarrow> s)"

definition strip :: "string list \<Rightarrow> string \<Rightarrow> string" where
  "strip ws s = strip_turns (length s) ws s"

lemma first_of_some: "first_of ws s = Some w \<Longrightarrow> w \<noteq> [] \<and> s \<noteq> []"
  by (auto simp: first_of_def find_Some_iff)

lemma strip_done: "first_of ws (strip ws s) = None"
proof -
  have "length s \<le> n \<Longrightarrow> first_of ws (strip_turns n ws s) = None" for n
  proof (induction n arbitrary: s)
    case 0
    then show ?case using first_of_some [of ws "[]"] by (cases "first_of ws []") auto
  next
    case (Suc n)
    show ?case
    proof (cases "first_of ws s")
      case (Some w)
      have "length (drop (length w) s) \<le> n"
        using first_of_some [OF Some] Suc.prems by (cases w) auto
      from Suc.IH [OF this] Some show ?thesis by simp
    qed simp
  qed
  then show ?thesis by (simp add: strip_def)
qed

definition trim :: "string \<Rightarrow> string" where
  "trim s = rev (strip (map rev white_spaces) (rev (strip white_spaces s)))"

type_synonym environment = "string \<Rightarrow> string option"

definition override :: "environment \<Rightarrow> string \<Rightarrow> (string \<Rightarrow> kafka_config \<Rightarrow> kafka_config) \<Rightarrow> config \<Rightarrow> config" where
  "override env key f cfg =
     (case env key of
        Some v \<Rightarrow> if v \<noteq> [] then cfg\<lparr>cfg_kafka := f v (cfg_kafka cfg)\<rparr> else cfg
      | None \<Rightarrow> cfg)"

definition override_username :: "environment \<Rightarrow> config \<Rightarrow> config" where
  "override_username env = override env ''BITQUERY_USERNAME'' (\<lambda>v k. k\<lparr>username := v\<rparr>)"

definition override_password :: "environment \<Rightarrow> config \<Rightarrow> config" where
  "override_password env = override env ''BITQUERY_PASSWORD'' (\<lambda>v k. k\<lparr>password := v\<rparr>)"

definition override_brokers :: "environment \<Rightarrow> config \<Rightarrow> config" where
  "override_brokers env =
     override env ''KAFKA_BOOTSTRAP_SERVERS'' (\<lambda>v k. k\<lparr>brokers := map trim (split_on (CHR '','') v)\<rparr>)"

definition override_topic :: "environment \<Rightarrow> config \<Rightarrow> config" where
  "override_topic env = override env ''KAFKA_TOPIC'' (\<lambda>v k. k\<lparr>topics := [v]\<rparr>)"

definition override_group_id :: "environment \<Rightarrow> config \<Rightarrow> config" where
  "override_group_id env = override env ''KAFKA_GROUP_ID'' (\<lambda>v k. k\<lparr>group_id := v\<rparr>)"

definition apply_environment_overrides :: "environment \<Rightarrow> config \<Rightarrow> config" where
  "apply_environment_overrides env cfg =
     override_group_id env (override_topic env (override_brokers env (override_password env
       (override_username env cfg))))"

text \<open>\<open>start_service\<close> overrides three of the five again, twice.\<close>

definition start_overrides :: "environment \<Rightarrow> config \<Rightarrow> config" where
  "start_overrides env cfg =
     (let cfg1 = override_brokers env (override_password env (override_username env cfg))
      in override_brokers env (override_password env (override_username env cfg1)))"

section \<open>The commands\<close>

text \<open>The result of a command is that of \<open>anyhow\<close>: the text of the error.\<close>

definition validate_configuration :: "(string \<Rightarrow> bool) \<Rightarrow> config \<Rightarrow> string + unit" where
  "validate_configuration path_exists cfg =
     (case config_validate path_exists cfg of
        Inr _ \<Rightarrow> Inr ()
      | Inl e \<Rightarrow> Inl (''Configuration validation failed: '' @ sdk_error_display e))"

definition dry_run_validation :: "(string \<Rightarrow> bool) \<Rightarrow> config \<Rightarrow> string + unit" where
  "dry_run_validation path_exists cfg =
     and_then (validate_configuration path_exists cfg) (\<lambda>_.
     if enable_ssl (cfg_kafka cfg) then
       (let ca_cert_path = ca_cert (ssl (cfg_kafka cfg));
            client_cert_path = client_cert (ssl (cfg_kafka cfg));
            client_key_path = client_key (ssl (cfg_kafka cfg))
        in if \<not> path_exists ca_cert_path then
             Inl (''CA certificate file not accessible: '' @ ca_cert_path)
           else if \<not> path_exists client_cert_path then
             Inl (''Client certificate file not accessible: '' @ client_cert_path)
           else if \<not> path_exists client_key_path then
             Inl (''Client key file not accessible: '' @ client_key_path)
           else Inr ())
     else Inr ())"

record ('j, 'ec, 'bc, 'w) service =
  sv_client :: "('j, 'ec, 'bc, 'w) client"
  sv_monitor :: "'j health_monitor"
  sv_registry :: metrics_registry
  sv_slept :: "duration list"

definition start_service ::
  "'j json_ops \<Rightarrow> (string \<Rightarrow> bool) \<Rightarrow> ((string \<Rightarrow> string option) \<Rightarrow> string + unit)
   \<Rightarrow> (string list \<Rightarrow> string + unit) \<Rightarrow> environment \<Rightarrow> instant \<Rightarrow> config
   \<Rightarrow> string + ('j, 'ec, 'bc, 'w) service" where
  "start_service J path_exists create subscribe env now cfg =
     and_then (map_err (\<lambda>e. ''Client initialization failed: '' @ sdk_error_display e)
                 (client_new path_exists create (start_overrides env cfg))) (\<lambda>client.
     and_then (map_err (\<lambda>e. ''Kafka subscription failed: '' @ sdk_error_display e)
                 (client_start subscribe client)) (\<lambda>_.
     Inr \<lparr>sv_client = client, sv_monitor = health_monitor_new J now, sv_registry = registry_new, sv_slept = []\<rparr>))"

definition load_configuration :: "string \<Rightarrow> usize \<Rightarrow> bool \<Rightarrow> string option \<Rightarrow> config" where
  "load_configuration uuid num_cpus metrics_feature config_file =
     config_default uuid num_cpus metrics_feature"

datatype command = StartCommand | ValidateCommand | VersionCommand

record cli =
  cli_command :: "command option"
  config_check :: bool
  dry_run :: bool
  log_level :: string
  config_file :: "string option"

text \<open>How \<open>main\<close> ends, or that it serves.\<close>

datatype 's main_result = Exits "string + unit" | Serves 's

definition main ::
  "'j json_ops \<Rightarrow> (init_config \<Rightarrow> sdk_error + unit) \<Rightarrow> (string \<Rightarrow> bool)
   \<Rightarrow> ((string \<Rightarrow> string option) \<Rightarrow> string + unit) \<Rightarrow> (string list \<Rightarrow> string + unit) \<Rightarrow> environment
   \<Rightarrow> instant \<Rightarrow> string \<Rightarrow> usize \<Rightarrow> bool \<Rightarrow> cli \<Rightarrow> ('j, 'ec, 'bc, 'w) service main_result" where
  "main J init path_exists create subscribe env now uuid num_cpus metrics_feature args =
     (if cli_command args = Some VersionCommand then Exits (Inr ())
      else
        (let filter_text = log_level args @ '',zola_streams='' @ log_level args
         in case init \<lparr>log_filter = filter_text, init_enable_metrics = True, metrics_port = 9090\<rparr> of
              Inl e \<Rightarrow> Exits (Inl (''SDK initialization failed: '' @ sdk_error_display e))
            | Inr _ \<Rightarrow>
                (let cfg = apply_environment_overrides env
                       (load_configuration uuid num_cpus metrics_feature (config_file args))
                 in if config_check args \<or> cli_command args = Some ValidateCommand then
                      Exits (validate_configuration path_exists cfg)
                    else if dry_run args then Exits (dry_run_validation path_exists cfg)
                    else
                      (case start_service J path_exists create subscribe env now cfg of
                         Inl e \<Rightarrow> Exits (Inl e)
                       | Inr s \<Rightarrow> Serves s))))"

section \<open>The event loop of the service\<close>

definition service_begin ::
  "'j json_ops \<Rightarrow> string \<Rightarrow> (u64 \<times> duration) list \<Rightarrow> instant \<Rightarrow> string \<Rightarrow> ('j, 'ec, 'bc, 'w) service
   \<Rightarrow> ('j, 'ec, 'bc, 'w) service" where
  "service_begin J version clocks now text s =
     s\<lparr>sv_monitor := fst (check_health J version clocks now text (sv_monitor s)),
       sv_registry := increment_counter ''service_starts'' 1 (sv_registry s)\<rparr>"

definition service_result ::
  "sdk_error + 'j solana_event option \<Rightarrow> ('j, 'ec, 'bc, 'w) service \<Rightarrow> ('j, 'ec, 'bc, 'w) service" where
  "service_result r s =
     (case r of
        Inr (Some event) \<Rightarrow>
          s\<lparr>sv_registry := record_histogram ''event_processing_duration'' (f_lit (1 / 10))
              (increment_counter ''events_processed'' 1 (sv_registry s))\<rparr>
      | Inr None \<Rightarrow> s
      | Inl e \<Rightarrow>
          s\<lparr>sv_registry := increment_counter ''processing_errors'' 1 (sv_registry s),
            sv_slept := sv_slept s @ [from_secs 1]\<rparr>)"

text \<open>
  The loop has no exit: \<open>service_run n\<close> is its first \<open>n\<close> turns on the answers Kafka will give. It yields
  the service, the answers left, the results of the turns, and whether the last turn waits in \<open>recv\<close>.
\<close>

fun service_run ::
  "'j json_ops \<Rightarrow> codecs \<Rightarrow> nat \<Rightarrow> kafka_input list \<Rightarrow> ('j, 'ec, 'bc, 'w) service
   \<Rightarrow> ('j, 'ec, 'bc, 'w) service \<times> kafka_input list \<times> (sdk_error + 'j solana_event option) list \<times> bool" where
  "service_run J K 0 is s = (s, is, [], False)"
| "service_run J K (Suc n) is s =
     (case client_next_event J K is (sv_client s) of
        None \<Rightarrow> (s, is, [], True)
      | Some (client, rest, r) \<Rightarrow>
          (let (s', rest', rs, waits) = service_run J K n rest (service_result r (s\<lparr>sv_client := client\<rparr>))
           in (s', rest', r # rs, waits)))"

text \<open>
  How the service ends: it races the loop, which never returns, with Ctrl-C and the task of the HTTP
  server. Each of the two comes with its result: installing the signal handler may fail, and the task
  may have panicked. \<open>supervise\<close> is the service at the moment it is interrupted, or still running.
\<close>

datatype interruption = CtrlC "string + unit" | ServerTask "string + unit"

datatype service_end = Panics string | Ends "string + unit"

fun ended_by :: "interruption \<Rightarrow> service_end" where
  "ended_by (CtrlC (Inr _)) = Ends (Inr ())"
| "ended_by (CtrlC (Inl e)) = Panics (''Failed to install CTRL+C signal handler: '' @ e)"
| "ended_by (ServerTask _) = Ends (Inr ())"

definition supervise ::
  "'j json_ops \<Rightarrow> codecs \<Rightarrow> nat \<Rightarrow> interruption option \<Rightarrow> kafka_input list \<Rightarrow> ('j, 'ec, 'bc, 'w) service
   \<Rightarrow> ('j, 'ec, 'bc, 'w) service \<times> service_end option" where
  "supervise J K n i is s = (fst (service_run J K n is s), map_option ended_by i)"

section \<open>Overrides\<close>

lemma override_kafka:
  "cfg_processing (override env key f cfg) = cfg_processing cfg"
  "cfg_resources (override env key f cfg) = cfg_resources cfg"
  "cfg_retry (override env key f cfg) = cfg_retry cfg"
  "cfg_kafka (override env key f cfg) =
     (case env key of Some v \<Rightarrow> if v \<noteq> [] then f v (cfg_kafka cfg) else cfg_kafka cfg | None \<Rightarrow> cfg_kafka cfg)"
  by (simp_all add: override_def split: option.split)

lemmas override_defs =
  override_username_def override_password_def override_brokers_def override_topic_def override_group_id_def

definition given :: "environment \<Rightarrow> string \<Rightarrow> string option" where
  "given env key = (case env key of Some v \<Rightarrow> if v = [] then None else Some v | None \<Rightarrow> None)"

lemma override_own:
  "given env ''BITQUERY_USERNAME'' = Some v \<Longrightarrow> username (cfg_kafka (override_username env cfg)) = v"
  "given env ''BITQUERY_PASSWORD'' = Some v \<Longrightarrow> password (cfg_kafka (override_password env cfg)) = v"
  "given env ''KAFKA_BOOTSTRAP_SERVERS'' = Some v \<Longrightarrow>
     brokers (cfg_kafka (override_brokers env cfg)) = map trim (split_on (CHR '','') v)"
  "given env ''KAFKA_TOPIC'' = Some v \<Longrightarrow> topics (cfg_kafka (override_topic env cfg)) = [v]"
  by (auto simp: given_def override_defs override_kafka split: option.splits if_splits)

text \<open>Every override leaves the fields of the others alone.\<close>

lemma override_others:
  "password (cfg_kafka (override_username env cfg)) = password (cfg_kafka cfg)"
  "brokers (cfg_kafka (override_username env cfg)) = brokers (cfg_kafka cfg)"
  "topics (cfg_kafka (override_username env cfg)) = topics (cfg_kafka cfg)"
  "group_id (cfg_kafka (override_username env cfg)) = group_id (cfg_kafka cfg)"
  "username (cfg_kafka (override_password env cfg)) = username (cfg_kafka cfg)"
  "brokers (cfg_kafka (override_password env cfg)) = brokers (cfg_kafka cfg)"
  "topics (cfg_kafka (override_password env cfg)) = topics (cfg_kafka cfg)"
  "group_id (cfg_kafka (override_password env cfg)) = group_id (cfg_kafka cfg)"
  "username (cfg_kafka (override_brokers env cfg)) = username (cfg_kafka cfg)"
  "password (cfg_kafka (override_brokers env cfg)) = password (cfg_kafka cfg)"
  "topics (cfg_kafka (override_brokers env cfg)) = topics (cfg_kafka cfg)"
  "group_id (cfg_kafka (override_brokers env cfg)) = group_id (cfg_kafka cfg)"
  "username (cfg_kafka (override_topic env cfg)) = username (cfg_kafka cfg)"
  "password (cfg_kafka (override_topic env cfg)) = password (cfg_kafka cfg)"
  "brokers (cfg_kafka (override_topic env cfg)) = brokers (cfg_kafka cfg)"
  "group_id (cfg_kafka (override_topic env cfg)) = group_id (cfg_kafka cfg)"
  "username (cfg_kafka (override_group_id env cfg)) = username (cfg_kafka cfg)"
  "password (cfg_kafka (override_group_id env cfg)) = password (cfg_kafka cfg)"
  "brokers (cfg_kafka (override_group_id env cfg)) = brokers (cfg_kafka cfg)"
  "topics (cfg_kafka (override_group_id env cfg)) = topics (cfg_kafka cfg)"
  by (simp_all add: override_defs override_kafka split: option.split)

lemma override_given:
  "override env key f cfg =
     (case given env key of Some v \<Rightarrow> cfg\<lparr>cfg_kafka := f v (cfg_kafka cfg)\<rparr> | None \<Rightarrow> cfg)"
  by (simp add: override_def given_def split: option.split)

lemma override_same:
  assumes "\<And>v. given env key = Some v \<Longrightarrow> f v (cfg_kafka cfg) = cfg_kafka cfg"
  shows "override env key f cfg = cfg"
  using assms by (simp add: override_given split: option.split)

lemma start_overrides_idem:
  "start_overrides env (apply_environment_overrides env cfg) = apply_environment_overrides env cfg"
proof -
  let ?c = "apply_environment_overrides env cfg"
  have "override_username env ?c = ?c"
    unfolding override_username_def [of env]
    by (rule override_same) (simp add: apply_environment_overrides_def override_others override_own)
  moreover have "override_password env ?c = ?c"
    unfolding override_password_def [of env]
    by (rule override_same) (simp add: apply_environment_overrides_def override_others override_own)
  moreover have "override_brokers env ?c = ?c"
    unfolding override_brokers_def [of env]
    by (rule override_same) (simp add: apply_environment_overrides_def override_others override_own)
  ultimately show ?thesis by (simp add: start_overrides_def)
qed

lemma split_on_ne [simp]: "split_on c s \<noteq> []"
  by (induction s) (auto split: list.split)

lemma split_on_append: "c \<notin> set s \<Longrightarrow> split_on c (s @ c # t) = s # split_on c t"
  by (induction s) auto

lemma split_on_none: "c \<notin> set s \<Longrightarrow> split_on c s = [s]"
  by (induction s) auto

lemma split_join:
  "bs \<noteq> [] \<Longrightarrow> list_all (\<lambda>b. c \<notin> set b) bs \<Longrightarrow> split_on c (join_with [c] bs) = bs"
proof (induction bs rule: induct_list012)
  case (3 b b' bs)
  then show ?case by (simp add: split_on_append)
qed (simp_all add: split_on_none)

text \<open>
  C37. The broker list survives the way from the environment to rdkafka: a list of addresses without
  commas and without Unicode white space at either end, which \<open>trim\<close> would strip, written with commas
  between them into KAFKA_BOOTSTRAP_SERVERS, becomes the list of brokers and is handed to rdkafka as the
  same text, also after the overrides that \<open>start_service\<close> repeats, which change nothing. The topic of
  KAFKA_TOPIC, if it is set and not empty, becomes the only topic.
\<close>

theorem broker_list_roundtrip:
  assumes "env ''KAFKA_BOOTSTRAP_SERVERS'' = Some (join_with '','' bs)" "bs \<noteq> []" "join_with '','' bs \<noteq> []"
    and "list_all (\<lambda>b. CHR '','' \<notin> set b \<and> trim b = b) bs"
  shows "brokers (cfg_kafka (start_overrides env (apply_environment_overrides env cfg))) = bs
    \<and> kafka_settings (cfg_kafka (start_overrides env (apply_environment_overrides env cfg))) ''bootstrap.servers''
        = env ''KAFKA_BOOTSTRAP_SERVERS''
    \<and> topics (cfg_kafka (start_overrides env (apply_environment_overrides env cfg))) =
        (case env ''KAFKA_TOPIC'' of
           Some t \<Rightarrow> if t = [] then topics (cfg_kafka cfg) else [t]
         | None \<Rightarrow> topics (cfg_kafka cfg))
    \<and> start_overrides env (apply_environment_overrides env cfg) = apply_environment_overrides env cfg"
proof -
  have "list_all (\<lambda>b. CHR '','' \<notin> set b) bs" "map trim bs = bs"
    using assms(4) by (auto simp: list_all_iff intro: map_idI)
  then have "map trim (split_on (CHR '','') (join_with '','' bs)) = bs"
    using split_join [OF assms(2)] by simp
  then have bs: "brokers (cfg_kafka (apply_environment_overrides env cfg)) = bs"
    using assms(1,3)
    by (simp add: apply_environment_overrides_def override_others override_own given_def)
  have "topics (cfg_kafka (apply_environment_overrides env cfg)) =
      (case env ''KAFKA_TOPIC'' of
         Some t \<Rightarrow> if t = [] then topics (cfg_kafka cfg) else [t] | None \<Rightarrow> topics (cfg_kafka cfg))"
    by (simp add: apply_environment_overrides_def override_defs override_kafka split: option.split)
  moreover have "kafka_settings k ''bootstrap.servers'' = Some (join_with '','' (brokers k))" for k
    by (simp add: kafka_settings_def Let_def)
  ultimately show ?thesis using bs assms(1) by (simp add: start_overrides_idem)
qed

text \<open>White space of one, two and three bytes is stripped at both ends, and kept inside.\<close>

lemma trim_unicode:
  "trim ([CHR 0xC2, CHR 0xA0] @ ''a b'' @ [CHR 0xE3, CHR 0x80, CHR 0x80, CHR 0x20]) = ''a b''"
  by code_simp

definition sample_env :: environment where
  "sample_env =
     [''KAFKA_BOOTSTRAP_SERVERS'' \<mapsto> ''a:1,b:2'', ''KAFKA_TOPIC'' \<mapsto> ''solana.dextrades.proto'']"

theorem broker_list_roundtrip_witness:
  "brokers (cfg_kafka (start_overrides sample_env (apply_environment_overrides sample_env sample_config)))
     = [''a:1'', ''b:2'']"
proof -
  let ?bs = "[''a:1'', ''b:2'']"
  have env: "sample_env ''KAFKA_BOOTSTRAP_SERVERS'' = Some (join_with '','' ?bs)"
    by (simp add: sample_env_def)
  have trimmed: "list_all (\<lambda>b. CHR '','' \<notin> set b \<and> trim b = b) ?bs"
    by code_simp
  have "?bs \<noteq> []" "join_with '','' ?bs \<noteq> []" by simp_all
  from broker_list_roundtrip [where env = sample_env and bs = ?bs, OF env this trimmed] show ?thesis by blast
qed

text \<open>The certificate checks of the dry run repeat those of the validation.\<close>

lemma dry_run_is_validation: "dry_run_validation ex cfg = validate_configuration ex cfg"
proof (cases "validate_configuration ex cfg")
  case (Inr u)
  then have "kafka_ok ex (cfg_kafka cfg)"
    by (auto simp: validate_configuration_def config_validate_ok_iff split: sum.splits)
  then show ?thesis
    using Inr by (simp add: dry_run_validation_def kafka_ok_def ssl_ok_def split: if_splits)
qed (simp add: dry_run_validation_def)

lemma is_ok_unit: "is_ok (r :: 'e + unit) \<longleftrightarrow> r = Inr ()"
  by (cases r) simp_all

lemma start_service_serves:
  "(\<exists>s :: ('j, 'ec, 'bc, 'w) service. start_service J ex create subscribe env now cfg = Inr s) \<longleftrightarrow>
     validate_configuration ex (start_overrides env cfg) = Inr ()
     \<and> is_ok (create (kafka_settings (cfg_kafka (start_overrides env cfg))))
     \<and> is_ok (subscribe (topics (cfg_kafka (start_overrides env cfg))))"
  by (auto simp: start_service_def client_new_def validate_configuration_def initialize_kafka_consumer_def
      client_start_def consumer_subscribe_def is_ok_unit split: sum.splits)

text \<open>
  C34. When the program serves: exactly when neither a command nor a flag asks for less, the same command
  line with \<open>--dry-run\<close> ends with success, and rdkafka then accepts the settings and the subscription
  made from the overridden configuration. So the dry run is exact for the initialization and the
  validation, and says nothing about Kafka: it succeeds whatever rdkafka answers.
\<close>

theorem main_serves_iff:
  "(\<exists>s :: ('j, 'ec, 'bc, 'w) service.
      main J init ex create subscribe env now uuid n mf args = Serves s) \<longleftrightarrow>
     cli_command args \<notin> {Some VersionCommand, Some ValidateCommand} \<and> \<not> config_check args \<and> \<not> dry_run args
     \<and> main J init ex create' subscribe' env now uuid n mf (args\<lparr>dry_run := True\<rparr>)
         = (Exits (Inr ()) :: ('j, 'ec, 'bc, 'w) service main_result)
     \<and> is_ok (create (kafka_settings (cfg_kafka (apply_environment_overrides env (config_default uuid n mf)))))
     \<and> is_ok (subscribe (topics (cfg_kafka (apply_environment_overrides env (config_default uuid n mf)))))"
proof -
  let ?cfg = "apply_environment_overrides env (load_configuration uuid n mf (config_file args))"
  let ?init = "init \<lparr>log_filter = log_level args @ '',zola_streams='' @ log_level args,
      init_enable_metrics = True, metrics_port = 9090\<rparr>"
  have dry: "main J init ex create' subscribe' env now uuid n mf (args\<lparr>dry_run := True\<rparr>)
        = (Exits (Inr ()) :: ('j, 'ec, 'bc, 'w) service main_result)
      \<longleftrightarrow> ?init = Inr () \<and> validate_configuration ex ?cfg = Inr ()"
    if "cli_command args \<notin> {Some VersionCommand, Some ValidateCommand}" "\<not> config_check args"
    using that by (simp add: main_def dry_run_is_validation split: sum.split)
  have serve: "(\<exists>s :: ('j, 'ec, 'bc, 'w) service.
      main J init ex create subscribe env now uuid n mf args = Serves s) \<longleftrightarrow>
      cli_command args \<notin> {Some VersionCommand, Some ValidateCommand} \<and> \<not> config_check args \<and> \<not> dry_run args
      \<and> ?init = Inr () \<and> (\<exists>s :: ('j, 'ec, 'bc, 'w) service. start_service J ex create subscribe env now ?cfg = Inr s)"
    by (auto simp: main_def Let_def split: sum.splits)
  show ?thesis
    unfolding serve start_service_serves start_overrides_idem using dry by (auto simp: load_configuration_def)
qed

section \<open>The loop\<close>

lemma service_result_fields [simp]:
  "sv_client (service_result r s) = sv_client s" "sv_monitor (service_result r s) = sv_monitor s"
  by (simp_all add: service_result_def split: sum.split option.split)

definition service_turns ::
  "'j json_ops \<Rightarrow> codecs \<Rightarrow> nat \<Rightarrow> kafka_input list \<Rightarrow> ('j, 'ec, 'bc, 'w) service
   \<Rightarrow> ('j, 'ec, 'bc, 'w) service \<times> (sdk_error + 'j solana_event option) list" where
  "service_turns J K n is s = (case service_run J K n is s of (s', rest, rs, waits) \<Rightarrow> (s', rs))"

interpretation service_loop: turn_loop J K "\<lambda>s. cl_consumer (sv_client s)" "service_turns J K"
  for J K
proof (unfold_locales, goal_cases)
  case (1 n "is" s s' rs)
  show ?case
  proof (cases n)
    case (Suc m)
    show ?thesis
    proof (cases "next_event J K is (cl_consumer (sv_client s))")
      case (Some p)
      then obtain c rest r where ne: "next_event J K is (cl_consumer (sv_client s)) = Some (c, rest, r)" by (cases p) simp
      let ?s1 = "service_result r (s\<lparr>sv_client := put_consumer c (sv_client s)\<rparr>)"
      obtain s2 rest2 rs2 w2 where run: "service_run J K m rest ?s1 = (s2, rest2, rs2, w2)" by (rule prod_cases4)
      have "service_turns J K m rest ?s1 = (s', rs2)" "rs = r # rs2"
        using 1 ne run Suc by (simp_all add: service_turns_def client_next_event_def)
      then show ?thesis using ne Suc
        by (intro disjI2 exI [of _ c] exI [of _ rest] exI [of _ r] exI [of _ rs2] conjI exI [of _ m] exI [of _ ?s1]) simp_all
    qed (use 1 Suc in \<open>simp add: service_turns_def client_next_event_def\<close>)
  qed (use 1 in \<open>simp add: service_turns_def\<close>)
qed

lemma service_run_counts:
  "service_run J K n is s = (s', rest, rs, waits) \<Longrightarrow>
   get_counter ''events_processed'' (sv_registry s') =
     get_counter ''events_processed'' (sv_registry s) + of_nat (length (delivered rs))
   \<and> get_counter ''processing_errors'' (sv_registry s') =
     get_counter ''processing_errors'' (sv_registry s) + of_nat (length (errors rs))
   \<and> sv_slept s' = sv_slept s @ replicate (length (errors rs)) (from_secs 1)
   \<and> sv_monitor s' = sv_monitor s"
proof (induction n arbitrary: "is" s rs)
  case (Suc n)
  show ?case
  proof (cases "client_next_event J K is (sv_client s)")
    case None
    then show ?thesis using Suc.prems by (simp add: delivered_def errors_def)
  next
    case (Some p)
    then obtain c1 rest1 r where ne: "client_next_event J K is (sv_client s) = Some (c1, rest1, r)" by (cases p) simp
    obtain rs1 where run: "service_run J K n rest1 (service_result r (s\<lparr>sv_client := c1\<rparr>)) = (s', rest, rs1, waits)"
      and rs: "rs = r # rs1"
      using Suc.prems ne by (auto split: prod.splits)
    from Suc.IH [OF run] rs show ?thesis
      by (auto simp: delivered_def errors_def service_result_def split: sum.splits option.splits)
  qed
qed (simp add: delivered_def errors_def)

section \<open>Progress\<close>

text \<open>
  The service enables no batch processing: nothing is in flight, and no other task touches the resource
  manager while \<open>recv\<close> waits.
\<close>

fun quiet_input :: "kafka_input \<Rightarrow> bool" where
  "quiet_input (Received _ _ g) \<longleftrightarrow> g = id"
| "quiet_input (RecvError _) \<longleftrightarrow> True"

definition idle :: "resource_manager \<Rightarrow> bool" where
  "idle rm \<longleftrightarrow> messages_in_flight rm = 0 \<and> backpressure_active_signals rm = 0
     \<and> 0 < max_messages_in_flight (rm_config rm) \<and> 0 < memory_trigger_threshold (rm_config rm)"

lemma pre_receive_idle:
  assumes "idle (sc_resources c)"
  shows "\<exists>c'. pre_receive c = Inr c' \<and> idle (sc_resources c')"
  using assms by (simp add: pre_receive_def idle_def model_defs word_less_nat_alt word_le_nat_alt)

lemma next_event_progress:
  assumes "next_event J K is c = Some (c', rest, r)" "idle (sc_resources c)" "list_all quiet_input is"
  shows "idle (sc_resources c') \<and> list_all quiet_input rest \<and> length rest < length is \<and> r \<noteq> Inr None"
  using assms
proof (induction "is" arbitrary: c)
  case Nil
  then show ?case using pre_receive_idle by fastforce
next
  case (Cons i "is")
  obtain c1 where pre: "pre_receive c = Inr c1" "idle (sc_resources c1)"
    using pre_receive_idle [OF Cons.prems(2)] by blast
  show ?case
  proof (cases i)
    case (RecvError e)
    then show ?thesis using Cons.prems pre by auto
  next
    case (Received m err g)
    then have g: "c1\<lparr>sc_resources := g (sc_resources c1)\<rparr> = c1" using Cons.prems(3) by simp
    obtain c2 oc where hm: "handle_message J K m err c1 = (c2, oc)" by fastforce
    have c2: "idle (sc_resources c2)" using handle_message_resources [OF hm] pre(2) by simp
    show ?thesis
    proof (cases oc)
      case Continue
      then have "next_event J K is c2 = Some (c', rest, r)" using Cons.prems(1) pre Received g hm by simp
      from Cons.IH [OF this c2] Cons.prems(3) show ?thesis by simp
    next
      case (Return x)
      have "x \<noteq> Inr None" using hm unfolding Return by (rule handle_message_cases) auto
      then show ?thesis using Cons.prems pre Received g hm Return c2 by simp
    qed
  qed
qed

lemma service_run_progress:
  assumes "service_run J K n is s = (s', rest, rs, waits)" "idle (sc_resources (cl_consumer (sv_client s)))"
    and "list_all quiet_input is"
  shows "Inr None \<notin> set rs \<and> (waits \<or> length rest + n \<le> length is)"
  using assms
proof (induction n arbitrary: "is" s rs)
  case (Suc n)
  show ?case
  proof (cases "next_event J K is (cl_consumer (sv_client s))")
    case None
    then show ?thesis using Suc.prems by (auto simp: client_next_event_def)
  next
    case (Some p)
    then obtain c1 rest1 r where ne: "next_event J K is (cl_consumer (sv_client s)) = Some (c1, rest1, r)"
      by (cases p) simp
    let ?s1 = "service_result r (s\<lparr>sv_client := put_consumer c1 (sv_client s)\<rparr>)"
    obtain rs1 where run: "service_run J K n rest1 ?s1 = (s', rest, rs1, waits)" and rs: "rs = r # rs1"
      using Suc.prems(1) ne by (auto simp: client_next_event_def split: prod.splits)
    note prog = next_event_progress [OF ne Suc.prems(2,3)]
    have "idle (sc_resources (cl_consumer (sv_client ?s1)))" using prog by simp
    from Suc.IH [OF run this] prog rs show ?thesis by auto
  qed
qed auto

section \<open>Properties\<close>

lemma start_overrides_kept:
  "cfg_processing (start_overrides env cfg) = cfg_processing cfg" "cfg_resources (start_overrides env cfg) = cfg_resources cfg"
  by (simp_all add: start_overrides_def override_defs override_kafka)

lemma started:
  assumes "start_service J ex create subscribe env t cfg = Inr (s0 :: ('j, 'ec, 'bc, 'w) service)"
  shows "cl_consumer (sv_client s0) =
      stream_consumer_new (start_overrides env cfg) (resource_manager_new (cfg_resources cfg))"
    and "sv_monitor s0 = health_monitor_new J t" "sv_registry s0 = registry_new"
    and "max_messages_in_flight (cfg_resources cfg) \<noteq> 0"
proof -
  obtain cl :: "('j, 'ec, 'bc, 'w) client" where cl: "client_new ex create (start_overrides env cfg) = Inr cl"
    and s0: "sv_client s0 = cl" "sv_monitor s0 = health_monitor_new J t" "sv_registry s0 = registry_new"
    using assms by (auto simp: start_service_def)
  from client_new_ok(1) [OF cl] s0 start_overrides_kept
  show "cl_consumer (sv_client s0) =
      stream_consumer_new (start_overrides env cfg) (resource_manager_new (cfg_resources cfg))"
    "sv_monitor s0 = health_monitor_new J t" "sv_registry s0 = registry_new" by simp_all
  have "config_validate ex (start_overrides env cfg) = Inr ()" using cl by (auto simp: client_new_def)
  then show "max_messages_in_flight (cfg_resources cfg) \<noteq> 0"
    by (auto simp: config_validate_ok_iff resources_ok_def start_overrides_kept)
qed

lemma default_never_unhealthy:
  "(Unhealthy, True) \<notin> turn_status ` set (check_turns clocks (health_monitor_new J t))"
proof
  assume "(Unhealthy, True) \<in> turn_status ` set (check_turns clocks (health_monitor_new J t))"
  then obtain c u d where "(c, u, d) \<in> set (check_turns clocks (health_monitor_new J t))"
    "turn_status (c, u, d) = (Unhealthy, True)" by force
  moreover from this(1) have "c \<in> set (hm_checkers (health_monitor_new J t))"
    by (auto simp: check_turns_def dest: set_zip_leftD)
  ultimately show False by (auto simp: health_monitor_new_def default_components)
qed

text \<open>
  C35. What the running service reports, after any number of turns on any answers of Kafka: the counter
  of events is the number of events delivered and the counter of errors the number of failed turns,
  modulo 2^64, with a sleep of one second for each error. The three health endpoints answer 200 all
  the time: the only check runs at the start, and no error of Kafka, not even one in every turn,
  reaches them.
\<close>

theorem service_reports:
  assumes "start_service J ex create subscribe env t cfg = Inr s0"
    and "service_run J K n is (service_begin J version clocks now text s0) = (s, rest, rs, waits)"
  shows "get_counter ''events_processed'' (sv_registry s) = of_nat (length (delivered rs))
    \<and> get_counter ''processing_errors'' (sv_registry s) = of_nat (length (errors rs))
    \<and> get_counter ''service_starts'' (sv_registry (service_begin J version clocks now text s0)) = 1
    \<and> sv_slept s = sv_slept s0 @ replicate (length (errors rs)) (from_secs 1)
    \<and> health_codes J version' text' (sv_monitor s) = {200}"
proof -
  obtain m r where c: "check_health J version clocks now text (health_monitor_new J t) = (m, r)" by fastforce
  have "health_codes J version' text' m = {200}"
    using health_codes_check [OF c] default_never_unhealthy by simp
  then show ?thesis
    using service_run_counts [OF assms(2)] started(2,3) [OF assms(1)] c by (simp add: service_begin_def)
qed

text \<open>
  C12. The service never stops taking messages. If the memory threshold of the configuration is not 0,
  and nothing else changes its resource manager, then after one turn more than Kafka has answers it has
  handled them all and waits for the next one, and no turn comes back empty. As long as at most
  \<open>max(buffer_size, 100000)\<close> answers come, no signature is delivered twice; beyond that the cache of
  signatures is cleared, and one can be.
\<close>

theorem service_drains:
  assumes "start_service J ex create subscribe env t cfg = Inr s0"
    and "0 < memory_trigger_threshold (cfg_resources cfg)" "list_all quiet_input is"
    and "service_run J K (Suc (length is)) is (service_begin J version clocks now text s0) = (s, rest, rs, waits)"
  shows "waits \<and> Inr None \<notin> set rs
    \<and> (length is \<le> max (unat (buffer_size (cfg_processing cfg))) 100000 \<longrightarrow> distinct (map signature (delivered rs)))"
proof -
  let ?c = "stream_consumer_new (start_overrides env cfg) (resource_manager_new (cfg_resources cfg))"
  have c: "cl_consumer (sv_client (service_begin J version clocks now text s0)) = ?c"
    using started(1) [OF assms(1)] by (simp add: service_begin_def)
  have "idle (sc_resources ?c)"
    using assms(2) started(4) [OF assms(1)]
    by (simp add: idle_def stream_consumer_new_def resource_manager_new_def word_gt_0)
  then have "Inr None \<notin> set rs \<and> (waits \<or> length rest + Suc (length is) \<le> length is)"
    using service_run_progress [OF assms(4)] assms(3) c by simp
  moreover have "distinct (map signature (delivered rs))"
    if "length is \<le> max (unat (buffer_size (cfg_processing cfg))) 100000"
    using service_loop.results_once [of J K "Suc (length is)" "is" "service_begin J version clocks now text s0" s rs]
      assms(4) that c by (simp add: service_turns_def stream_consumer_new_def start_overrides_kept)
  ultimately show ?thesis by simp
qed

section \<open>Witnesses\<close>

type_synonym sample_service =
  "(json, json solana_event list_channel, json solana_event list list_channel, transaction_log list) service"

lemma sample_start_service:
  "\<exists>s0 :: sample_service. start_service json_tree (\<lambda>_. False) (\<lambda>_. Inr ()) (\<lambda>_. Inr ()) Map.empty 0 sample_config = Inr s0
     \<and> sv_slept s0 = []"
proof -
  have "start_overrides Map.empty sample_config = sample_config"
    by (simp add: start_overrides_def override_defs override_def)
  then show ?thesis
    by (simp add: start_service_def sample_client_new client_start_def consumer_subscribe_def)
qed

theorem service_reports_witness:
  "\<exists>s0 s rest rs waits.
     service_run json_tree sample_codecs 2 [RecvError ''down'', RecvError ''down'']
       (service_begin json_tree ''0.1.0'' (replicate 3 (0, 0)) 0 ''now'' (s0 :: sample_service)) = (s, rest, rs, waits)
     \<and> health_codes json_tree ''0.1.0'' ''later'' (sv_monitor s) = {200}"
proof -
  obtain s0 :: sample_service where s0: "start_service json_tree (\<lambda>_. False) (\<lambda>_. Inr ()) (\<lambda>_. Inr ()) Map.empty 0 sample_config = Inr s0"
    using sample_start_service by blast
  obtain s rest rs waits where run: "service_run json_tree sample_codecs 2 [RecvError ''down'', RecvError ''down'']
      (service_begin json_tree ''0.1.0'' (replicate 3 (0, 0)) 0 ''now'' s0) = (s, rest, rs, waits)"
    by (rule prod_cases4)
  from service_reports [OF s0 run] run show ?thesis by blast
qed

theorem service_drains_witness:
  "\<exists>s0 s rest rs.
     service_run json_tree sample_codecs 3 [Received sample_message None id, RecvError ''down'']
       (service_begin json_tree ''0.1.0'' (replicate 3 (0, 0)) 0 ''now'' (s0 :: sample_service)) = (s, rest, rs, True)"
proof -
  let ?is = "[Received sample_message None id, RecvError ''down'']"
  obtain s0 :: sample_service where s0: "start_service json_tree (\<lambda>_. False) (\<lambda>_. Inr ()) (\<lambda>_. Inr ()) Map.empty 0 sample_config = Inr s0"
    using sample_start_service by blast
  have trigger: "0 < memory_trigger_threshold (cfg_resources sample_config)"
    by (simp add: sample_limits_points)
  have quiet: "list_all quiet_input ?is" by simp
  obtain s rest rs waits where run: "service_run json_tree sample_codecs (Suc (length ?is)) ?is
      (service_begin json_tree ''0.1.0'' (replicate 3 (0, 0)) 0 ''now'' s0) = (s, rest, rs, waits)"
    by (rule prod_cases4)
  have few: "length ?is \<le> max (unat (buffer_size (cfg_processing sample_config))) 100000" by simp
  from service_drains [OF s0 trigger quiet run] few have "waits = True" by simp
  with run show ?thesis by (simp add: numeral_3_eq_3) blast
qed

end
