(* ===== verification/Tuning.thy ===== *)
theory Tuning
  imports Service
begin

text \<open>
  The configurations that examples/production_config.rs and examples/high_volume_processor.rs build by
  hand from the default one, and what their limits mean to the resource manager.
\<close>

section \<open>The configurations\<close>

definition production_config :: "string \<Rightarrow> usize \<Rightarrow> bool \<Rightarrow> config" where
  "production_config uuid num_cpus metrics_feature =
     (let cfg = config_default uuid num_cpus metrics_feature
      in \<lparr>cfg_kafka = (cfg_kafka cfg)\<lparr>session_timeout := from_secs 45, max_poll_records := 5000,
                       partition_assignment_strategy := ''roundrobin''\<rparr>,
          cfg_processing = (cfg_processing cfg)\<lparr>parallel_workers := num_cpus * 2, buffer_size := 100000,
                       batch_size := 1000, batch_timeout := from_millis 100\<rparr>,
          cfg_resources = (cfg_resources cfg)\<lparr>max_memory_bytes := 16 * 1024 * 1024 * 1024,
                       max_messages_in_flight := 100000, max_queue_size := 200000,
                       backpressure_threshold := f_lit (85 / 100)\<rparr>,
          cfg_retry = (cfg_retry cfg)\<lparr>max_retries := 10, initial_delay := from_millis 100,
                       max_delay := from_secs 60\<rparr>\<rparr>)"

definition high_volume_config :: "string \<Rightarrow> usize \<Rightarrow> bool \<Rightarrow> config" where
  "high_volume_config uuid num_cpus metrics_feature =
     (let cfg = config_default uuid num_cpus metrics_feature
      in cfg\<lparr>cfg_kafka := (cfg_kafka cfg)\<lparr>topics := [''solana.transactions.proto'', ''solana.dextrades.proto''],
                       max_poll_records := 1000, session_timeout := from_secs 45\<rparr>,
             cfg_processing := (cfg_processing cfg)\<lparr>parallel_workers := max num_cpus 4, buffer_size := 50000,
                       batch_size := 500, batch_timeout := from_millis 250, enable_pre_filtering := True\<rparr>,
             cfg_resources :=
               \<lparr>max_memory_bytes = 8 * 1024 * 1024 * 1024, max_messages_in_flight = 50000,
                max_queue_size = 100000, memory_check_interval = from_secs 2,
                backpressure_threshold = f_lit (75 / 100)\<rparr>\<rparr>)"

text \<open>\<open>main\<close> of production_config.rs: the configuration it prints, or the error of \<open>anyhow\<close>.\<close>

definition production_main ::
  "(init_config \<Rightarrow> sdk_error + unit) \<Rightarrow> (string \<Rightarrow> bool) \<Rightarrow> string \<Rightarrow> usize \<Rightarrow> bool \<Rightarrow> string + config" where
  "production_main init path_exists uuid num_cpus metrics_feature =
     map_err sdk_error_display
       (and_then (init \<lparr>log_filter = ''info,bitquery_solana_kafka=info'', init_enable_metrics = True,
                        metrics_port = 9090\<rparr>) (\<lambda>_.
        let cfg = production_config uuid num_cpus metrics_feature
        in and_then (config_validate path_exists cfg) (\<lambda>_. Inr cfg)))"

section \<open>The memory limit\<close>

lemma f_lit_17_20: "f_lit (17 / 20) = Fin (7656119366529843 / 2 ^ 53)"
  using rnd_near [of 7656119366529843 "17 / 20" 53] by (simp add: f_lit_def)

lemma f_lit_3_4: "f_lit (3 / 4) = Fin (6755399441055744 / 2 ^ 53)"
  using rnd_near [of 6755399441055744 "3 / 4" 53] by (simp add: f_lit_def)

lemma trigger_large:
  assumes "f_of_nat (unat (max_memory_bytes c)) = Fin x" "backpressure_threshold c = Fin t" "2147483648 \<le> x * t"
  shows "2147483648 \<le> unat (memory_trigger_threshold c)"
proof -
  have "rnd 2147483648 = Fin 2147483648" by (rule rnd_numeral) simp
  then have "f_le (Fin 2147483648) (f_mul (f_of_nat (unat (max_memory_bytes c))) (backpressure_threshold c))"
    using rnd_mono [OF assms(3)] assms(1,2) by simp
  from as_u64_mono [OF this] have "unat (as_u64 (Fin 2147483648)) \<le> unat (memory_trigger_threshold c)"
    by (simp only: memory_trigger_threshold_def word_le_nat_alt)
  then show ?thesis by (simp only: unat_as_u64_Fin) simp
qed

lemma limited_by_count:
  assumes "2147483648 \<le> unat (memory_trigger_threshold (rm_config m))"
    and "unat (max_messages_in_flight (rm_config m)) \<le> 100000"
  shows "snd (check_resources m) = Inr () \<longleftrightarrow> messages_in_flight m < max_messages_in_flight (rm_config m)"
proof (cases "messages_in_flight m < max_messages_in_flight (rm_config m)")
  case True
  then have lt: "unat (messages_in_flight m) < 100000" using assms(2) by (simp add: word_less_nat_alt)
  then have "unat (messages_in_flight m * 20480) = unat (messages_in_flight m) * 20480"
    by (simp add: unat_word_ariths)
  then have "messages_in_flight m * 20480 < memory_trigger_threshold (rm_config m)"
    using lt assms(1) by (simp add: word_less_nat_alt)
  with True check_accepts show ?thesis by blast
next
  case False
  then show ?thesis by (simp add: check_resources_def not_less)
qed

lemma tuned_limits:
  "2147483648 \<le> unat (memory_trigger_threshold resource_limits_default)"
  "2147483648 \<le> unat (memory_trigger_threshold (cfg_resources (production_config uuid n mf)))"
  "2147483648 \<le> unat (memory_trigger_threshold (cfg_resources (high_volume_config uuid n mf)))"
proof -
  show "2147483648 \<le> unat (memory_trigger_threshold resource_limits_default)"
    by (rule trigger_large [of _ 4294967296 "7205759403792794 / 2 ^ 53"])
       (simp_all add: resource_limits_default_def f_of_nat_def rnd_numeral f_lit_4_5)
  show "2147483648 \<le> unat (memory_trigger_threshold (cfg_resources (production_config uuid n mf)))"
    by (rule trigger_large [of _ 17179869184 "7656119366529843 / 2 ^ 53"])
       (simp_all add: production_config_def Let_def f_of_nat_def rnd_numeral f_lit_17_20)
  show "2147483648 \<le> unat (memory_trigger_threshold (cfg_resources (high_volume_config uuid n mf)))"
    by (rule trigger_large [of _ 8589934592 "6755399441055744 / 2 ^ 53"])
       (simp_all add: high_volume_config_def Let_def f_of_nat_def rnd_numeral f_lit_3_4)
qed

lemma high_volume_valid: "config_validate ex (high_volume_config uuid n mf) = Inr ()"
proof -
  have "4 \<le> max n 4" by simp
  then have "0 < unat (max n 4)" by (simp add: word_le_nat_alt)
  moreover have "resources_ok (cfg_resources (high_volume_config uuid n mf))"
    unfolding resources_ok_def
    by (intro conjI exI [of _ "6755399441055744 / 2 ^ 53"])
       (simp_all add: high_volume_config_def Let_def f_lit_3_4 from_secs_def)
  ultimately show ?thesis
    using defaults_ok(3) unfolding config_validate_ok_iff
    by (simp add: high_volume_config_def Let_def config_default_def kafka_ok_def kafka_config_default_def
        processing_ok_def processing_config_default_def)
qed

section \<open>Property\<close>

text \<open>
  The two tuned configurations pass validation on any machine with fewer than 2^63 CPUs. Under their
  limits and under the default ones the memory limit never acts: \<open>check_resources\<close> refuses if and only if
  as many messages are in flight as allowed, because the estimate of 20 KiB for each of them stays below
  the threshold; on arithmetic at 64 bits and in \<open>f64\<close>.
\<close>

theorem tuned_configurations:
  assumes "0 < unat n" "unat n < 2 ^ 63"
  shows "config_validate ex (production_config uuid n mf) = Inr ()
    \<and> config_validate ex (high_volume_config uuid n mf) = Inr ()
    \<and> (\<forall>m. rm_config m \<in> {resource_limits_default, cfg_resources (production_config uuid n mf),
             cfg_resources (high_volume_config uuid n mf)} \<longrightarrow>
         (snd (check_resources m) = Inr () \<longleftrightarrow> messages_in_flight m < max_messages_in_flight (rm_config m)))"
proof (intro conjI)
  have "unat (n * 2) = unat n * 2" using assms(2) by (simp add: unat_word_ariths)
  moreover have "resources_ok (cfg_resources (production_config uuid n mf))"
    unfolding resources_ok_def
    by (intro conjI exI [of _ "7656119366529843 / 2 ^ 53"])
       (simp_all add: production_config_def Let_def config_default_def resource_limits_default_def f_lit_17_20 from_secs_def)
  ultimately show "config_validate ex (production_config uuid n mf) = Inr ()"
    using assms(1) unfolding config_validate_ok_iff
    by (simp add: production_config_def Let_def config_default_def kafka_ok_def kafka_config_default_def
        processing_ok_def processing_config_default_def
        retry_ok_def retry_config_default_def f_lit_def [of 2] rnd_numeral from_secs_def from_millis_def)
  show "config_validate ex (high_volume_config uuid n mf) = Inr ()" by (rule high_volume_valid)
  have "unat (max_messages_in_flight c) \<le> 100000 \<and> 2147483648 \<le> unat (memory_trigger_threshold c)"
    if "c \<in> {resource_limits_default, cfg_resources (production_config uuid n mf),
        cfg_resources (high_volume_config uuid n mf)}" for c
    using that tuned_limits(1) tuned_limits(2,3) [of uuid n mf]
    by (auto simp: resource_limits_default_def production_config_def high_volume_config_def Let_def config_default_def)
  then show "\<forall>m. rm_config m \<in> {resource_limits_default, cfg_resources (production_config uuid n mf),
             cfg_resources (high_volume_config uuid n mf)} \<longrightarrow>
         (snd (check_resources m) = Inr () \<longleftrightarrow> messages_in_flight m < max_messages_in_flight (rm_config m))"
    using limited_by_count by blast
qed

theorem tuned_configurations_witness:
  "config_validate (\<lambda>_. False) (production_config ''0123456789'' 8 True) = Inr ()
   \<and> snd (check_resources (resource_manager_new (cfg_resources (production_config ''0123456789'' 8 True)))) = Inr ()"
proof -
  let ?c = "cfg_resources (production_config ''0123456789'' 8 True)"
  have cpus: "0 < unat (8 :: usize)" "unat (8 :: usize) < 2 ^ 63" by simp_all
  note tuned = tuned_configurations [OF cpus, of "\<lambda>_. False" "''0123456789''" True]
  have "rm_config (resource_manager_new ?c) = ?c" "messages_in_flight (resource_manager_new ?c) = 0"
      "0 < max_messages_in_flight ?c"
    by (simp_all add: resource_manager_new_def production_config_def Let_def)
  with tuned show ?thesis by fastforce
qed

end
