(* ===== verification/Applications.thy ===== *)
theory Applications
  imports Tuning
begin

text \<open>
  The applications of examples/: basic_consumer.rs, dex_trading_bot.rs, dex_monitor.rs and
  high_volume_processor.rs. Each sets up a client and runs a loop of its own over
  \<open>next_event\<close>, or \<open>process_events\<close>. Rdkafka, the environment, the initialization of the SDK and the
  number of CPUs answer through arguments; log output, and the check whether a certificate exists that
  only logs, are left out.
\<close>

section \<open>Configurations\<close>

text \<open>Both credentials come from the environment, or neither does.\<close>

definition env_credentials :: "environment \<Rightarrow> config \<Rightarrow> config" where
  "env_credentials env cfg =
     (case (env ''BITQUERY_USERNAME'', env ''BITQUERY_PASSWORD'') of
        (Some user, Some pass) \<Rightarrow>
          if user \<noteq> [] \<and> pass \<noteq> [] then cfg\<lparr>cfg_kafka := (cfg_kafka cfg)\<lparr>username := user, password := pass\<rparr>\<rparr>
          else cfg
      | _ \<Rightarrow> cfg)"

definition with_topics :: "string list \<Rightarrow> config \<Rightarrow> config" where
  "with_topics ts cfg = cfg\<lparr>cfg_kafka := (cfg_kafka cfg)\<lparr>topics := ts\<rparr>\<rparr>"

section \<open>Filters and processors\<close>

definition raydium :: string where "raydium = ''675kPX9MHTjS2zt1qfr1NYHuzeLXfQM9H24wFSUt1Mp8''"
definition jupiter :: string where "jupiter = ''JUP4Fb2cqiRUcaTHdrPC8h2gNsA2ETXiPDD33WcGuJB''"
definition orca :: string where "orca = ''whirLbMiicVdio4qvUfM5KAg6Ct8VwpYzGff3uctyCc''"

definition bot_filter :: "'j event_filter" where
  "bot_filter = build (with_program_ids [raydium, jupiter, orca] (with_event_types [DexTrade] filter_builder_new))"

definition monitor_filter :: "'j event_filter" where
  "monitor_filter = build (with_min_amount (f_lit 1000) (with_event_types [DexTrade] filter_builder_new))"

definition high_volume_filter :: "'j event_filter" where
  "high_volume_filter =
     build (with_min_amount (f_lit 50000) (with_program_ids [raydium, jupiter]
       (with_event_types [DexTrade] filter_builder_new)))"

definition bot_processor :: dex_processor where
  "bot_processor = \<lparr>min_amount_usd = f_lit 10000, target_programs = [raydium, jupiter, orca]\<rparr>"

definition high_volume_processor :: dex_processor where
  "high_volume_processor = \<lparr>min_amount_usd = f_lit 100000, target_programs = [raydium, jupiter]\<rparr>"

text \<open>\<open>MonitoredDexProcessor\<close> counts what it attempts and what succeeds; a panic of the inner one passes both.\<close>

record monitored_world =
  mw_inner :: dex_world
  events_attempted_count :: u64
  events_succeeded_count :: u64

definition monitored_process ::
  "'j json_ops \<Rightarrow> nat \<Rightarrow> dex_processor \<Rightarrow> 'j solana_event \<Rightarrow> monitored_world
   \<Rightarrow> monitored_world \<times> (sdk_error + unit) completion" where
  "monitored_process J unix_secs p event w =
     (case dex_process J unix_secs p event (mw_inner w) of
        (inner, Panic) \<Rightarrow> (w\<lparr>mw_inner := inner\<rparr>, Panic)
      | (inner, Completed result) \<Rightarrow>
          (let w1 = w\<lparr>mw_inner := inner, events_attempted_count := events_attempted_count w + 1\<rparr>
           in (if is_ok result then w1\<lparr>events_succeeded_count := events_succeeded_count w1 + 1\<rparr> else w1,
               Completed result)))"

definition monitored_dex_processor :: "'j json_ops \<Rightarrow> nat \<Rightarrow> dex_processor \<Rightarrow> ('j, monitored_world) event_processor" where
  "monitored_dex_processor J unix_secs p =
     \<lparr>p_should_process = dex_should_process J p, p_process = monitored_process J unix_secs p\<rparr>"

text \<open>A tick of the rate monitor: the events since the last tick, their rate over 10 s, and the new total.\<close>

definition rate_tick :: "u64 \<Rightarrow> u64 \<Rightarrow> u64 \<times> f64 \<times> u64" where
  "rate_tick last_snapshot_count current_total_processed =
     (let events_since_last_log = current_total_processed - last_snapshot_count
      in (events_since_last_log, f_div (f_of_nat (unat events_since_last_log)) (f_lit 10), current_total_processed))"

section \<open>Starting the clients\<close>

definition anyhow :: "string \<Rightarrow> sdk_error + 'a \<Rightarrow> string + 'a" where
  "anyhow prefix = map_err (\<lambda>e. prefix @ sdk_error_display e)"

definition basic_start ::
  "(init_config \<Rightarrow> sdk_error + unit) \<Rightarrow> environment \<Rightarrow> (string \<Rightarrow> bool)
   \<Rightarrow> ((string \<Rightarrow> string option) \<Rightarrow> string + unit) \<Rightarrow> (string list \<Rightarrow> string + unit)
   \<Rightarrow> string \<Rightarrow> usize \<Rightarrow> bool \<Rightarrow> string + ('j, 'ec, 'bc, 'w) client" where
  "basic_start init env path_exists create subscribe uuid num_cpus metrics_feature =
     and_then (anyhow ''SDK initialization failed: ''
       (init \<lparr>log_filter = ''info,basic_consumer=debug,bitquery_solana_sdk=info'', init_enable_metrics = True,
              metrics_port = 9091\<rparr>)) (\<lambda>_.
     and_then (anyhow ''BitqueryClient creation error: ''
       (client_new path_exists create (env_credentials env (config_default uuid num_cpus metrics_feature)))) (\<lambda>client.
     and_then (anyhow ''Client start error: '' (client_start subscribe client)) (\<lambda>_. Inr client)))"

definition bot_start ::
  "(init_config \<Rightarrow> sdk_error + unit) \<Rightarrow> environment \<Rightarrow> (string \<Rightarrow> bool)
   \<Rightarrow> ((string \<Rightarrow> string option) \<Rightarrow> string + unit) \<Rightarrow> (string list \<Rightarrow> string + unit)
   \<Rightarrow> string \<Rightarrow> usize \<Rightarrow> bool \<Rightarrow> string + ('j, 'ec, 'bc, 'w) client" where
  "bot_start init env path_exists create subscribe uuid num_cpus metrics_feature =
     and_then (anyhow ''SDK initialization failed: ''
       (init \<lparr>log_filter = ''info,dex_trading_bot=debug,bitquery_solana_sdk=info'', init_enable_metrics = True,
              metrics_port = 9092\<rparr>)) (\<lambda>_.
     and_then (anyhow ''BitqueryClient creation error: ''
       (client_new path_exists create (with_topics [''solana.dextrades.proto'']
         (env_credentials env (config_default uuid num_cpus metrics_feature))))) (\<lambda>client0.
     let client = client_set_filter bot_filter client0
     in and_then (anyhow ''Client start error: '' (client_start subscribe client)) (\<lambda>_. Inr client)))"

definition monitor_start ::
  "(init_config \<Rightarrow> sdk_error + unit) \<Rightarrow> (string \<Rightarrow> bool)
   \<Rightarrow> ((string \<Rightarrow> string option) \<Rightarrow> string + unit) \<Rightarrow> (string list \<Rightarrow> string + unit)
   \<Rightarrow> string \<Rightarrow> usize \<Rightarrow> bool \<Rightarrow> string + ('j, 'ec, 'bc, 'w) client" where
  "monitor_start init path_exists create subscribe uuid num_cpus metrics_feature =
     anyhow [] (and_then (init (init_config_default metrics_feature)) (\<lambda>_.
     and_then (client_new path_exists create (with_topics [''solana.dextrades.proto'']
       (config_default uuid num_cpus metrics_feature))) (\<lambda>client0.
     let client = client_set_filter monitor_filter client0
     in and_then (client_start subscribe client) (\<lambda>_. Inr client))))"

text \<open>The high-volume application enables batch processing before the start; its world begins with \<open>dw\<close>.\<close>

definition high_volume_start ::
  "('j solana_event, 'ec) channel_ops \<Rightarrow> ('j solana_event list, 'bc) channel_ops \<Rightarrow> 'j json_ops \<Rightarrow> nat \<Rightarrow> instant
   \<Rightarrow> (init_config \<Rightarrow> sdk_error + unit) \<Rightarrow> (string \<Rightarrow> bool)
   \<Rightarrow> ((string \<Rightarrow> string option) \<Rightarrow> string + unit) \<Rightarrow> (string list \<Rightarrow> string + unit)
   \<Rightarrow> string \<Rightarrow> usize \<Rightarrow> bool \<Rightarrow> dex_world \<Rightarrow> string + ('j, 'ec, 'bc, monitored_world) client" where
  "high_volume_start E B J unix_secs now init path_exists create subscribe uuid num_cpus metrics_feature dw =
     and_then (anyhow ''SDK initialization failed: ''
       (init \<lparr>log_filter = ''info,high_volume_processor=debug,bitquery_solana_sdk=info'', init_enable_metrics = True,
              metrics_port = 9090\<rparr>)) (\<lambda>_.
     and_then (anyhow ''BitqueryClient creation error: ''
       (client_new path_exists create (high_volume_config uuid num_cpus metrics_feature))) (\<lambda>client0.
     let client = enable_batch_processing E B (monitored_dex_processor J unix_secs high_volume_processor) now
           \<lparr>mw_inner = dw, events_attempted_count = 0, events_succeeded_count = 0\<rparr>
           (client_set_filter high_volume_filter client0)
     in and_then (anyhow ''Client start error: '' (client_start subscribe client)) (\<lambda>_. Inr client)))"

text \<open>Its loop is \<open>process_events\<close> with a closure that does nothing.\<close>

definition high_volume_begin :: "('j, 'ec, 'bc, monitored_world) client \<Rightarrow> ('j, 'ec, 'bc, monitored_world, unit) event_loop" where
  "high_volume_begin client = process_events client ()"

definition high_volume_handler :: "('j, unit) handler" where
  "high_volume_handler event h = (h, Inr ())"

definition high_volume_end ::
  "('j solana_event, 'ec) channel_ops \<Rightarrow> ('j, 'ec, 'bc, 'w, unit) event_loop
   \<Rightarrow> (('j, 'ec, 'bc, 'w) client \<times> (string + unit)) option" where
  "high_volume_end E s =
     (case el_phase s of
        Returned e \<Rightarrow>
          Some (client_shutdown E (el_client s), Inl (''Event processing failed critically: '' @ sdk_error_display e))
      | _ \<Rightarrow> None)"

section \<open>The loops\<close>

text \<open>
  How a loop stands after some turns: still running, waiting in \<open>recv\<close>, ended with a result, or ended by a
  panic. A turn yields the state, the answers of Kafka left, the result of its call if it made one, and
  whether the loop goes on.
\<close>

datatype loop_exit = Running | Waiting | Stopped "sdk_error + unit" | Panicked

record ('j, 'ec, 'bc, 'w, 'h) app =
  app_client :: "('j, 'ec, 'bc, 'w) client"
  app_state :: 'h
  app_slept :: "duration list"

type_synonym ('j, 's) turn_result =
  "'s \<times> kafka_input list \<times> (sdk_error + 'j solana_event option) option \<times> loop_exit"

fun app_loop ::
  "('t \<Rightarrow> kafka_input list \<Rightarrow> 's \<Rightarrow> ('j, 's) turn_result) \<Rightarrow> 't list \<Rightarrow> kafka_input list \<Rightarrow> 's
   \<Rightarrow> 's \<times> (sdk_error + 'j solana_event option) list \<times> loop_exit" where
  "app_loop turn [] is s = (s, [], Running)"
| "app_loop turn (t # ts) is s =
     (case turn t is s of
        (s1, rest, r, ending) \<Rightarrow>
          (let first = (case r of Some x \<Rightarrow> [x] | None \<Rightarrow> [])
           in if ending = Running then (case app_loop turn ts rest s1 of (s', rs, ending') \<Rightarrow> (s', first @ rs, ending'))
              else (s1, first, ending)))"

type_synonym ('j, 'h) app_handler = "'j solana_event \<Rightarrow> 'h \<Rightarrow> 'h \<times> (sdk_error + unit) completion"

text \<open>
  The loop of basic_consumer.rs and dex_trading_bot.rs. \<open>ctrl_c\<close> says whether the signal is seen in the
  turn: it wins over a result that is ready, and it ends a turn that waits; what the cancelled call had
  taken from Kafka is not kept, since the program ends. A failure of the handler is only logged.
\<close>

definition select_turn ::
  "('j solana_event, 'ec) channel_ops \<Rightarrow> 'j json_ops \<Rightarrow> codecs \<Rightarrow> ('j, 'h) app_handler \<Rightarrow> duration
   \<Rightarrow> bool \<Rightarrow> kafka_input list \<Rightarrow> ('j, 'ec, 'bc, 'w, 'h) app \<Rightarrow> ('j, ('j, 'ec, 'bc, 'w, 'h) app) turn_result" where
  "select_turn E J K on_event pause ctrl_c is s =
     (if ctrl_c then (s\<lparr>app_client := client_shutdown E (app_client s)\<rparr>, is, None, Stopped (Inr ()))
      else
        (case client_next_event J K is (app_client s) of
           None \<Rightarrow> (s, is, None, Waiting)
         | Some (client, rest, r) \<Rightarrow>
             (let s1 = s\<lparr>app_client := client\<rparr>
              in case r of
                   Inr (Some event) \<Rightarrow>
                     (case on_event event (app_state s) of
                        (h, Completed _) \<Rightarrow> (s1\<lparr>app_state := h\<rparr>, rest, Some r, Running)
                      | (h, Panic) \<Rightarrow> (s1\<lparr>app_state := h\<rparr>, rest, Some r, Panicked))
                 | Inr None \<Rightarrow> (s1\<lparr>app_slept := app_slept s @ [pause]\<rparr>, rest, Some r, Running)
                 | Inl e \<Rightarrow> (s1\<lparr>app_client := client_shutdown E client\<rparr>, rest, Some r, Stopped (Inl e)))))"

definition basic_event :: "'j json_ops \<Rightarrow> ('j, transaction_log list) app_handler" where
  "basic_event J event w =
     (if tx_should_process event then tx_process J event w else (w, Completed (Inr ())))"

definition basic_loop ::
  "('j solana_event, 'ec) channel_ops \<Rightarrow> 'j json_ops \<Rightarrow> codecs \<Rightarrow> bool list \<Rightarrow> kafka_input list
   \<Rightarrow> ('j, 'ec, 'bc, 'w) client
   \<Rightarrow> ('j, 'ec, 'bc, 'w, transaction_log list) app \<times> (sdk_error + 'j solana_event option) list \<times> loop_exit" where
  "basic_loop E J K signals is client =
     app_loop (select_turn E J K (basic_event J) (from_millis 10)) signals is
       \<lparr>app_client = client, app_state = [], app_slept = []\<rparr>"

text \<open>The bot spawns a task for each wanted event; its state is the list of the tasks spawned.\<close>

definition bot_event :: "'j json_ops \<Rightarrow> ('j, 'j solana_event list) app_handler" where
  "bot_event J event spawned =
     (if dex_should_process J bot_processor event then (spawned @ [event], Completed (Inr ()))
      else (spawned, Completed (Inr ())))"

definition bot_loop ::
  "('j solana_event, 'ec) channel_ops \<Rightarrow> 'j json_ops \<Rightarrow> codecs \<Rightarrow> bool list \<Rightarrow> kafka_input list
   \<Rightarrow> ('j, 'ec, 'bc, 'w) client
   \<Rightarrow> ('j, 'ec, 'bc, 'w, 'j solana_event list) app \<times> (sdk_error + 'j solana_event option) list \<times> loop_exit" where
  "bot_loop E J K signals is client =
     app_loop (select_turn E J K (bot_event J) (from_millis 20)) signals is
       \<lparr>app_client = client, app_state = [], app_slept = []\<rparr>"

text \<open>The result of \<open>main\<close>, once the loop has ended.\<close>

fun select_result :: "loop_exit \<Rightarrow> (string + unit) option" where
  "select_result (Stopped (Inr _)) = Some (Inr ())"
| "select_result (Stopped (Inl e)) = Some (Inl (''Event processing failed: '' @ sdk_error_display e))"
| "select_result _ = None"

section \<open>The loop of the monitor\<close>

record dex_monitor =
  trade_count :: u64
  volume_usd :: u64
  mon_world :: dex_world

definition count_value :: "'j json_ops \<Rightarrow> 'j solana_event \<Rightarrow> dex_monitor \<Rightarrow> dex_monitor" where
  "count_value J event m =
     (let m1 = m\<lparr>trade_count := trade_count m + 1\<rparr>
      in case (amount_base J event, price J event) of
           (Some amount, Some pr) \<Rightarrow> m1\<lparr>volume_usd := volume_usd m1 + as_u64 (f_mul amount pr)\<rparr>
         | _ \<Rightarrow> m1)"

definition monitor_event :: "'j json_ops \<Rightarrow> nat \<Rightarrow> ('j, dex_monitor) app_handler" where
  "monitor_event J unix_secs event m =
     (if dex_should_process J dex_processor_default event then
        (let m1 = count_value J event m;
             (w, result) = dex_process J unix_secs dex_processor_default event (mon_world m1)
         in (m1\<lparr>mon_world := w\<rparr>, result))
      else (m, Completed (Inr ())))"

text \<open>
  A failure of the processor ends \<open>main\<close> with its error; an error of Kafka is logged, and \<open>main\<close> returns
  \<open>Ok\<close>. There is no shutdown.
\<close>

definition monitor_turn ::
  "'j json_ops \<Rightarrow> codecs \<Rightarrow> nat \<Rightarrow> kafka_input list \<Rightarrow> ('j, 'ec, 'bc, 'w, dex_monitor) app
   \<Rightarrow> ('j, ('j, 'ec, 'bc, 'w, dex_monitor) app) turn_result" where
  "monitor_turn J K unix_secs is s =
     (case client_next_event J K is (app_client s) of
        None \<Rightarrow> (s, is, None, Waiting)
      | Some (client, rest, r) \<Rightarrow>
          (let s1 = s\<lparr>app_client := client\<rparr>
           in case r of
                Inr (Some event) \<Rightarrow>
                  (case monitor_event J unix_secs event (app_state s) of
                     (m, Completed (Inr _)) \<Rightarrow> (s1\<lparr>app_state := m\<rparr>, rest, Some r, Running)
                   | (m, Completed (Inl e)) \<Rightarrow> (s1\<lparr>app_state := m\<rparr>, rest, Some r, Stopped (Inl e))
                   | (m, Panic) \<Rightarrow> (s1\<lparr>app_state := m\<rparr>, rest, Some r, Panicked))
              | Inr None \<Rightarrow> (s1\<lparr>app_slept := app_slept s @ [from_millis 10]\<rparr>, rest, Some r, Running)
              | Inl e \<Rightarrow> (s1, rest, Some r, Stopped (Inr ()))))"

definition monitor_loop ::
  "'j json_ops \<Rightarrow> codecs \<Rightarrow> nat list \<Rightarrow> kafka_input list \<Rightarrow> dex_world \<Rightarrow> ('j, 'ec, 'bc, 'w) client
   \<Rightarrow> ('j, 'ec, 'bc, 'w, dex_monitor) app \<times> (sdk_error + 'j solana_event option) list \<times> loop_exit" where
  "monitor_loop J K clocks is w client =
     app_loop (monitor_turn J K) clocks is
       \<lparr>app_client = client, app_state = \<lparr>trade_count = 0, volume_usd = 0, mon_world = w\<rparr>, app_slept = []\<rparr>"

section \<open>The contract of the turns\<close>

definition app_turns ::
  "('t \<Rightarrow> kafka_input list \<Rightarrow> 's \<Rightarrow> ('j, 's) turn_result) \<Rightarrow> nat \<Rightarrow> kafka_input list \<Rightarrow> 't list \<times> 's
   \<Rightarrow> ('t list \<times> 's) \<times> (sdk_error + 'j solana_event option) list" where
  "app_turns turn n is p =
     (case app_loop turn (take n (fst p)) is (snd p) of (s', rs, ending) \<Rightarrow> (([], s'), rs))"

text \<open>
  A turn with a result made one call and handed the event, if there was one, to the handler; it goes on
  with the consumer after the call, and not after an error. A turn without a result ends the loop.
\<close>

locale application =
  fixes J :: "'j json_ops" and K :: codecs
    and consumer_of :: "'s \<Rightarrow> 'j stream_consumer"
    and state_of :: "'s \<Rightarrow> 'h"
    and handler :: "'t \<Rightarrow> ('j, 'h) app_handler"
    and turn :: "'t \<Rightarrow> kafka_input list \<Rightarrow> 's \<Rightarrow> ('j, 's) turn_result"
  assumes turn_call: "turn t is s = (s1, rest, Some r, ending) \<Longrightarrow>
      \<exists>c. next_event J K is (consumer_of s) = Some (c, rest, r) \<and> (ending = Running \<longrightarrow> consumer_of s1 = c)"
    and turn_state: "turn t is s = (s1, rest, Some r, ending) \<Longrightarrow>
      state_of s1 = (case r of Inr (Some e) \<Rightarrow> fst (handler t e (state_of s)) | _ \<Rightarrow> state_of s)"
    and turn_error: "turn t is s = (s1, rest, Some (Inl e), ending) \<Longrightarrow> ending \<noteq> Running"
    and turn_stop: "turn t is s = (s1, rest, None, ending) \<Longrightarrow> ending \<noteq> Running \<and> state_of s1 = state_of s"
begin

lemma loop_cases:
  assumes "app_loop turn (t # ts) is s = (s', rs, ending)"
  obtains (Stop) rest where "turn t is s = (s', rest, None, ending)" "rs = []" "ending \<noteq> Running"
    | (Last) rest r where "turn t is s = (s', rest, Some r, ending)" "rs = [r]" "ending \<noteq> Running"
    | (More) s1 rest r rs1 where "turn t is s = (s1, rest, Some r, Running)" "rs = r # rs1"
        "app_loop turn ts rest s1 = (s', rs1, ending)"
proof -
  obtain s1 rest r e where t: "turn t is s = (s1, rest, r, e)" by (rule prod_cases4)
  obtain s2 rs2 e2 where l: "app_loop turn ts rest s1 = (s2, rs2, e2)" by (rule prod_cases3)
  show ?thesis
  proof (cases "e = Running")
    case True
    with t turn_stop obtain x where "r = Some x" by (cases r) blast+
    then show ?thesis using assms t l True by (intro More [of s1 rest x rs2]) auto
  next
    case False
    then show ?thesis using assms t by (cases r) (auto intro: Stop Last)
  qed
qed

lemma handled:
  assumes "\<And>t. handler t = H"
  shows "app_loop turn ts is s = (s', rs, ending) \<Longrightarrow> state_of s' = fold (\<lambda>e h. fst (H e h)) (delivered rs) (state_of s)"
proof (induction ts arbitrary: "is" s rs)
  case (Cons t ts)
  from Cons.prems show ?case
  proof (cases rule: loop_cases)
    case (Stop rest)
    then show ?thesis using turn_stop by simp
  next
    case (Last rest r)
    then show ?thesis using turn_state [OF Last(1)] assms by (simp split: sum.split option.split)
  next
    case (More s1 rest r rs1)
    then show ?thesis
      using turn_state [OF More(1)] Cons.IH [OF More(3)] assms by (simp split: sum.split option.split)
  qed
qed simp

lemma untouched:
  "app_loop turn ts is s = (s', rs, ending) \<Longrightarrow> \<forall>e \<in> set (delivered rs). \<forall>t h. fst (handler t e h) = h \<Longrightarrow>
   state_of s' = state_of s"
proof (induction ts arbitrary: "is" s rs)
  case (Cons t ts)
  from Cons.prems(1) show ?case
  proof (cases rule: loop_cases)
    case (Stop rest)
    then show ?thesis using turn_stop by simp
  next
    case (Last rest r)
    then show ?thesis using turn_state [OF Last(1)] Cons.prems(2) by (auto split: sum.splits option.splits)
  next
    case (More s1 rest r rs1)
    then show ?thesis
      using turn_state [OF More(1)] Cons.IH [OF More(3)] Cons.prems(2) by (auto split: sum.splits option.splits)
  qed
qed simp

end

sublocale application \<subseteq> app: turn_loop J K "\<lambda>p. consumer_of (snd p)" "app_turns turn"
proof (unfold_locales, goal_cases)
  case (1 n "is" p p' rs)
  obtain s' ending where loop: "app_loop turn (take n (fst p)) is (snd p) = (s', rs, ending)" "p' = ([], s')"
    using 1 by (auto simp: app_turns_def split: prod.splits)
  show ?case
  proof (cases "take n (fst p)")
    case Nil
    show ?thesis using loop(1) unfolding Nil by simp
  next
    case (Cons t ts)
    then obtain m ts' where n: "n = Suc m" "fst p = t # ts'" "ts = take m ts'"
      by (cases n; cases "fst p") auto
    from loop(1) [unfolded Cons] show ?thesis
    proof (cases rule: loop_cases)
      case (Last rest r)
      then show ?thesis using turn_call [OF Last(1)] by (intro disjI2) auto
    next
      case (More s1 rest r rs1)
      obtain c where c: "next_event J K is (consumer_of (snd p)) = Some (c, rest, r)" "consumer_of s1 = c"
        using turn_call [OF More(1)] by blast
      have "app_turns turn m rest (ts', s1) = (p', rs1)" using More(3) loop(2) n by (simp add: app_turns_def)
      then show ?thesis using c More(2) n
        by (intro disjI2 exI [of _ c] exI [of _ rest] exI [of _ r] exI [of _ rs1] conjI exI [of _ m] exI [of _ "(ts', s1)"]) simp_all
    qed simp
  qed
qed

interpretation select: application J K "\<lambda>s. cl_consumer (app_client s)" app_state "\<lambda>_. on_event"
    "select_turn E J K on_event pause"
  for E J K on_event pause
  by unfold_locales
     (auto simp: select_turn_def client_next_event_def Let_def
       split: if_splits option.splits prod.splits sum.splits completion.splits)

interpretation monitor: application J K "\<lambda>s. cl_consumer (app_client s)" app_state "monitor_event J"
    "monitor_turn J K"
  for J K
  by unfold_locales
     (auto simp: monitor_turn_def client_next_event_def Let_def
       split: if_splits option.splits prod.splits sum.splits completion.splits)

section \<open>The basic consumer\<close>

lemma select_exits:
  "app_loop (select_turn E J K H pause) ts is s = (s', rs, ending) \<Longrightarrow>
     errors rs = (case ending of Stopped (Inl e) \<Rightarrow> [e] | _ \<Rightarrow> [])
     \<and> ((\<forall>e h. snd (H e h) \<noteq> Panic) \<longrightarrow> ending \<noteq> Panicked)"
proof (induction ts arbitrary: "is" s rs)
  case (Cons t ts)
  from Cons.prems show ?case
  proof (cases rule: select.loop_cases)
    case (Stop rest)
    then show ?thesis
      by (auto simp: select_turn_def Let_def split: if_splits option.splits prod.splits sum.splits completion.splits)
  next
    case (Last rest r)
    then show ?thesis
      by (auto simp: select_turn_def Let_def split: if_splits option.splits prod.splits sum.splits completion.splits)
        (metis snd_conv)+
  next
    case (More s1 rest r rs1)
    have "errors [r] = []" using select.turn_error More(1) by (cases r) (blast, simp)
    then show ?thesis using Cons.IH [OF More(3)] More(2) by simp
  qed
qed simp

lemma basic_started:
  assumes "basic_start init env ex create subscribe uuid n mf = Inr (client :: ('j, 'ec, 'bc, 'w) client)"
  shows "\<exists>cfg. cl_consumer client = stream_consumer_new cfg (resource_manager_new resource_limits_default)
    \<and> cfg_processing cfg = processing_config_default n mf"
proof -
  let ?cfg = "env_credentials env (config_default uuid n mf)"
  obtain c0 :: "('j, 'ec, 'bc, 'w) client" where "client_new ex create ?cfg = Inr c0" "client = c0"
    using assms by (auto simp: basic_start_def anyhow_def)
  moreover have "cfg_resources ?cfg = resource_limits_default" "cfg_processing ?cfg = processing_config_default n mf"
    by (simp_all add: env_credentials_def config_default_def split: option.split)
  ultimately show ?thesis using client_new_ok(1) by (intro exI [of _ ?cfg]) fastforce
qed

lemma basic_log:
  "map log_signature (fold (\<lambda>e h. fst (basic_event J e h)) es w) =
     map log_signature w @ map signature (filter (\<lambda>e. event_type e = Transaction) es)"
  by (induction es arbitrary: w) (simp_all add: basic_event_def tx_should_process_def tx_process_def)

text \<open>
  C15. The basic consumer logs every transaction that is delivered to it, once and in order: the results of
  its loop are those of calls of \<open>next_event\<close> on the answers of Kafka, one after the other; the signatures
  in its log are those of the transactions delivered; they are distinct, as long as at most 100000 answers
  come. It never panics, and it ends with an error if and only if a call failed, the last one, with the
  error of that call.
\<close>

theorem basic_consumer_logs:
  assumes "basic_start init env ex create subscribe uuid n mf = Inr client"
    and "basic_loop E J K signals is client = (s, rs, ending)" "length is \<le> 100000"
  shows "(\<exists>iss later c. is = concat iss @ later \<and> calls J K iss (cl_consumer client) = Some (c, rs))
    \<and> map log_signature (app_state s) = map signature (filter (\<lambda>e. event_type e = Transaction) (delivered rs))
    \<and> distinct (map log_signature (app_state s))
    \<and> ending \<noteq> Panicked
    \<and> errors rs = (case ending of Stopped (Inl e) \<Rightarrow> [e] | _ \<Rightarrow> [])"
proof -
  let ?s0 = "\<lparr>app_client = client, app_state = [] :: transaction_log list, app_slept = []\<rparr>"
  have loop: "app_loop (select_turn E J K (basic_event J) (from_millis 10)) signals is ?s0 = (s, rs, ending)"
    using assms(2) by (simp add: basic_loop_def)
  then have turns: "app_turns (select_turn E J K (basic_event J) (from_millis 10)) (length signals) is (signals, ?s0) = (([], s), rs)"
    by (simp add: app_turns_def)
  have calm: "\<forall>e h. snd (basic_event J e h) \<noteq> Panic"
    by (simp add: basic_event_def tx_process_def tx_should_process_def)
  have log: "map log_signature (app_state s) = map signature (filter (\<lambda>e. event_type e = Transaction) (delivered rs))"
    using select.handled [OF refl loop] by (simp add: basic_log)
  obtain cfg where "cl_consumer client = stream_consumer_new cfg (resource_manager_new resource_limits_default)"
    using basic_started [OF assms(1)] by blast
  then have "distinct (map signature (delivered rs))"
    using select.app.results_once [OF turns] assms(3) by (simp add: stream_consumer_new_def)
  then have "distinct (map signature (filter (\<lambda>e. event_type e = Transaction) (delivered rs)))"
    by (rule distinct_map_filter)
  then show ?thesis
    using select.app.results_are_calls [OF turns] log select_exits [OF loop] calm by simp
qed

section \<open>The trading applications\<close>

lemma decoded_unwanted:
  assumes "json_api J" "f_lt (Fin 0) (min_amount_usd p)" "decoded J K e"
  shows "\<not> dex_should_process J p e"
proof -
  obtain topic payload where "decode_event J K topic payload = Some (Inr e)" using assms(3) by (auto simp: decoded_def)
  then show ?thesis
  proof (cases rule: decode_event_cases)
    case (Trade h tx t)
    then show ?thesis using consumer_trades_rejected_facts(1) [OF assms(1,2)] by simp
  next
    case (Tx h tx)
    then show ?thesis using transaction_event_fields(1) [OF assms(1)] by (simp add: dex_should_process_def)
  next
    case (Token h tx t)
    then show ?thesis using transfer_event_fields(1) [OF assms(1)] by (simp add: dex_should_process_def)
  qed
qed

lemma program_constants_foreign: "foreign raydium" "foreign jupiter" "foreign orca"
  by (simp_all add: raydium_def jupiter_def orca_def foreign_def hex_digits_def)

lemma filter_programs:
  "program_ids bot_filter = Some [raydium, jupiter, orca]" "program_ids high_volume_filter = Some [raydium, jupiter]"
  by (simp_all add: bot_filter_def high_volume_filter_def builder_defs)

lemma minimum_positive:
  "f_lt (Fin 0) (min_amount_usd bot_processor)" "f_lt (Fin 0) (min_amount_usd dex_processor_default)"
  "f_lt (Fin 0) (min_amount_usd high_volume_processor)"
  by (simp_all add: bot_processor_def dex_processor_default_def high_volume_processor_def f_lit_def rnd_numeral)

lemma bot_started:
  assumes "bot_start init env ex create subscribe uuid n mf = Inr (client :: ('j, 'ec, 'bc, 'w) client)"
  shows "active_event_filter (cl_consumer client) = Some bot_filter"
  using assms by (auto simp: bot_start_def anyhow_def Let_def client_set_filter_def set_filter_def)

lemma starved:
  assumes "hex_codec K" "json_api J" "program_ids f = Some ps" "ps \<noteq> []" "list_all foreign ps"
  shows "\<not> (decoded J K e \<and> passes_filter J (Some f) e)"
  using hex_codec.foreign_filter [OF assms(1,2) _ assms(3-5)] by (auto simp: decoded_def)

text \<open>
  C16. The trading applications do nothing, whatever Kafka sends. The filter of the bot asks for Base58
  program ids, the consumer writes hex: nothing is ever delivered to the bot and it spawns no task. The
  monitor's filter lets trades pass, but its processor asks for a price that the consumer never writes:
  it counts no trade and no volume, and processes nothing.
\<close>

theorem trading_applications_idle:
  assumes "hex_codec K" "json_api J"
    and "bot_start init env ex create subscribe uuid n mf = Inr (trader :: ('j, 'ec, 'bc, 'w) client)"
    and "bot_loop E J K signals is trader = (s, rs, ending)"
    and "monitor_loop J K clocks is' w (mon :: ('j, 'ec, 'bc, 'w) client) = (s', rs', ending')"
  shows "delivered rs = [] \<and> app_state s = []
    \<and> trade_count (app_state s') = 0 \<and> volume_usd (app_state s') = 0 \<and> mon_world (app_state s') = w"
proof -
  let ?s0 = "\<lparr>app_client = trader, app_state = [] :: 'j solana_event list, app_slept = []\<rparr>"
  have loop: "app_loop (select_turn E J K (bot_event J) (from_millis 20)) signals is ?s0 = (s, rs, ending)"
    using assms(4) by (simp add: bot_loop_def)
  then have "app_turns (select_turn E J K (bot_event J) (from_millis 20)) (length signals) is (signals, ?s0) = (([], s), rs)"
    by (simp add: app_turns_def)
  from select.app.results_decoded [OF this] bot_started [OF assms(3)]
  have "decoded J K e \<and> passes_filter J (Some bot_filter) e" if "e \<in> set (delivered rs)" for e
    using that by simp
  moreover have "list_all foreign [raydium, jupiter, orca]" by (simp add: program_constants_foreign)
  note starved [OF assms(1,2) filter_programs(1) _ this]
  ultimately have none: "delivered rs = []" by (cases "delivered rs") auto
  then have "app_state s = []" using select.untouched [OF loop] by simp
  let ?m0 = "\<lparr>trade_count = 0, volume_usd = 0, mon_world = w\<rparr>"
  let ?s1 = "\<lparr>app_client = mon, app_state = ?m0, app_slept = []\<rparr>"
  have loop': "app_loop (monitor_turn J K) clocks is' ?s1 = (s', rs', ending')"
    using assms(5) by (simp add: monitor_loop_def)
  then have turns': "app_turns (monitor_turn J K) (length clocks) is' (clocks, ?s1) = (([], s'), rs')"
    by (simp add: app_turns_def)
  have "\<not> dex_should_process J dex_processor_default e" if "e \<in> set (delivered rs')" for e
    using monitor.app.results_decoded [OF turns' that] decoded_unwanted [OF assms(2) minimum_positive(2)] by blast
  then have "\<forall>e \<in> set (delivered rs'). \<forall>t h. fst (monitor_event J t e h) = h" by (simp add: monitor_event_def)
  from monitor.untouched [OF loop' this] none \<open>app_state s = []\<close> show ?thesis by simp
qed

text \<open>
  The high-volume application is starved as well: in every state that its event loop, its collector and
  its workers can reach, interleaved in any way, nothing has been handed to the batch processor, so no
  worker has taken anything; and its own closure is never called.
\<close>

theorem high_volume_starved:
  assumes "batch_channels E econt ecap B bcont bcap" "hex_codec K" "json_api J"
    and "high_volume_start E B J secs now init ex create subscribe uuid n mf dw =
        Inr (client :: ('j, 'ec, 'bc, monitored_world) client)"
    and "client_reachable E B J K high_volume_handler (high_volume_begin client) s"
  shows "offered s = [] \<and> (\<forall>e. el_phase s \<noteq> Adding e)
    \<and> (\<exists>P b. cl_batch (el_client s) = Some (P, b) \<and> accepted b = [] \<and> concat (taken b) = [])"
proof -
  let ?P = "monitored_dex_processor J secs high_volume_processor"
  let ?w = "\<lparr>mw_inner = dw, events_attempted_count = 0, events_succeeded_count = 0\<rparr>"
  obtain c0 :: "('j, 'ec, 'bc, monitored_world) client" where
    c0: "client_new ex create (high_volume_config uuid n mf) = Inr c0"
    and client: "client = enable_batch_processing E B ?P now ?w (client_set_filter high_volume_filter c0)"
    using assms(4) by (auto simp: high_volume_start_def anyhow_def Let_def)
  have reach: "client_reachable E B J K high_volume_handler
      (process_events (enable_batch_processing E B ?P now ?w (client_set_filter high_volume_filter c0)) ()) s"
    using assms(5) by (simp add: high_volume_begin_def client)
  have "handed_decoded J K (process_events x ())" for x :: "('j, 'ec, 'bc, monitored_world) client"
    by (simp add: handed_decoded_def process_events_def handed_def)
  moreover have "list_all foreign [raydium, jupiter]" by (simp add: program_constants_foreign)
  ultimately have "handed s = []"
    by (intro foreign_filter_starves [OF assms(2,3) _ _ filter_programs(2) started_inv(1) [OF c0] _ reach]) simp_all
  moreover obtain b where "cl_batch (el_client s) = Some (?P, b)" "accepted b = map fst (filter snd (offered s))"
      "accepted b = concat (taken b @ bcont (batch_channel b)) @ lost b
        @ pending_batch (collector_mode (collector b)) @ current_batch (collector b) @ econt (event_channel b)"
    using client_batch_accounts [OF assms(1) c0 reach] by blast
  ultimately show ?thesis by (cases "el_phase s") (simp_all add: handed_def)
qed

section \<open>Witnesses\<close>

type_synonym sample_app_client =
  "(json, json solana_event list_channel, json solana_event list list_channel, transaction_log list) client"

lemma default_config_valid:
  "config_validate ex (config_default ''0'' 4 False) = Inr ()"
  "config_validate ex (with_topics [t] (config_default ''0'' 4 False)) = Inr ()"
  using defaults_ok(1) [of 4 False] defaults_ok(2,3)
  by (simp_all add: config_validate_ok_iff config_default_def with_topics_def kafka_ok_def kafka_config_default_def)

lemma no_credentials: "env_credentials Map.empty cfg = cfg"
  by (simp add: env_credentials_def)

lemma default_pre_receive:
  assumes "sc_resources c = resource_manager_new resource_limits_default"
  shows "pre_receive c = Inr c"
proof -
  let ?m = "resource_manager_new resource_limits_default"
  have c: "rm_config ?m = resource_limits_default" "messages_in_flight ?m = 0"
      "max_messages_in_flight resource_limits_default = 10000"
    by (simp_all add: resource_manager_new_def resource_limits_default_def)
  have "snd (check_resources ?m) = Inr ()"
    using limited_by_count [of ?m] tuned_limits(1) by (simp add: c)
  then have "check_resources ?m = (?m, Inr ())"
    by (auto simp: model_defs split: if_splits)
  moreover have "\<not> is_backpressure_active ?m" by (simp add: model_defs)
  moreover have "c\<lparr>sc_resources := sc_resources c\<rparr> = c" by simp
  ultimately show ?thesis using assms by (simp add: pre_receive_def)
qed

theorem basic_consumer_logs_witness:
  "\<exists>client s rs.
     basic_start (\<lambda>_. Inr ()) Map.empty (\<lambda>_. False) (\<lambda>_. Inr ()) (\<lambda>_. Inr ()) ''0'' 4 False = Inr (client :: sample_app_client)
     \<and> basic_loop list_channel json_tree sample_codecs [False, True] [Received sample_message None id] client
         = (s, rs, Stopped (Inr ()))
     \<and> map log_signature (app_state s) = [''00000000'']"
proof -
  let ?cfg = "config_default ''0'' 4 False" and ?is = "[Received sample_message None id]"
  define client :: sample_app_client where
    "client = \<lparr>cl_config = ?cfg, cl_consumer = stream_consumer_new ?cfg (resource_manager_new resource_limits_default),
       cl_batch = None\<rparr>"
  have start: "basic_start (\<lambda>_. Inr ()) Map.empty (\<lambda>_. False) (\<lambda>_. Inr ()) (\<lambda>_. Inr ()) ''0'' 4 False = Inr client"
    using default_config_valid(1)
    by (simp add: basic_start_def anyhow_def no_credentials client_new_def initialize_kafka_consumer_def client_start_def
        consumer_subscribe_def client_def) (simp add: config_default_def)
  let ?c = "cl_consumer client"
  have c: "sc_resources ?c = resource_manager_new resource_limits_default" "seen_signatures_cache ?c = {}"
      "active_event_filter ?c = None"
    by (simp_all add: client_def stream_consumer_new_def)
  have same: "?c\<lparr>sc_resources := id (sc_resources ?c)\<rparr> = ?c" by simp
  have "passes_filter json_tree (active_event_filter ?c) e" for e :: "json solana_event" by (simp add: c(3))
  then obtain c' e where e: "handle_message json_tree sample_codecs sample_message None ?c = (c', Return (Inr (Some e)))"
      "signature e = ''00000000''" "event_type e = Transaction"
    using sample_handle_passed [OF c(2), of None] by auto
  have ne: "next_event json_tree sample_codecs ?is ?c = Some (c', [], Inr (Some e))"
    using e(1) default_pre_receive [OF c(1)] by (simp add: same)
  let ?turn = "select_turn list_channel json_tree sample_codecs (basic_event json_tree) (from_millis 10)"
  let ?s0 = "\<lparr>app_client = client, app_state = [], app_slept = []\<rparr>"
  have "client_next_event json_tree sample_codecs ?is (app_client ?s0) = Some (put_consumer c' client, [], Inr (Some e))"
    using ne by (simp add: client_next_event_def del: next_event.simps)
  then obtain s1 where "?turn False ?is ?s0 = (s1, [], Some (Inr (Some e)), Running)"
    using e(3) unfolding select_turn_def by (simp add: basic_event_def tx_should_process_def tx_process_def)
  moreover obtain s where "?turn True [] s1 = (s, [], None, Stopped (Inr ()))" by (simp add: select_turn_def)
  ultimately have run: "basic_loop list_channel json_tree sample_codecs [False, True] ?is client
      = (s, [Inr (Some e)], Stopped (Inr ()))"
    by (simp add: basic_loop_def)
  have few: "length ?is \<le> 100000" by simp
  from basic_consumer_logs [OF start run few] e(2,3)
  have "map log_signature (app_state s) = [''00000000'']" by simp
  with start run show ?thesis by (intro exI conjI)
qed

text \<open>A trade from Kafka, with a market and both sides, that neither application acts on.\<close>

definition trade_message :: kafka_message where
  "trade_message = \<lparr>km_topic = ''solana.dextrades.proto'', km_offset = 4, km_payload = Some [1]\<rparr>"

theorem trading_applications_idle_witness:
  "\<exists>trader s rs ending.
     bot_start (\<lambda>_. Inr ()) Map.empty (\<lambda>_. False) (\<lambda>_. Inr ()) (\<lambda>_. Inr ()) ''0'' 4 False = Inr (trader :: sample_app_client)
     \<and> bot_loop list_channel json_tree dex_codecs [False, False] [Received trade_message None id] trader = (s, rs, ending)
     \<and> delivered rs = [] \<and> app_state s = []"
proof -
  let ?cfg = "with_topics [''solana.dextrades.proto''] (config_default ''0'' 4 False)"
  obtain trader :: sample_app_client where
    start: "bot_start (\<lambda>_. Inr ()) Map.empty (\<lambda>_. False) (\<lambda>_. Inr ()) (\<lambda>_. Inr ()) ''0'' 4 False = Inr trader"
    using default_config_valid(2)
    by (simp add: bot_start_def anyhow_def no_credentials client_new_def initialize_kafka_consumer_def client_start_def
        consumer_subscribe_def Let_def)
  obtain s rs ending where run: "bot_loop list_channel json_tree dex_codecs [False, False] [Received trade_message None id] trader
      = (s, rs, ending)" by (rule prod_cases3)
  let ?w = "\<lparr>stats = \<lparr>total_events = 0, pumpfun_trades = 0, other_dex_trades = 0, large_trades = 0\<rparr>, printed_lines = []\<rparr>"
  obtain s' rs' ending' where mon: "monitor_loop json_tree dex_codecs [0, 1] [Received trade_message None id] ?w sample_client0
      = (s', rs', ending')" by (rule prod_cases3)
  from trading_applications_idle [OF dex_codecs_hex json_tree.json_api_axioms start run mon] start run
  show ?thesis by blast
qed

theorem high_volume_starved_witness:
  "\<exists>client s P b.
     client_reachable list_channel list_channel json_tree dex_codecs high_volume_handler (high_volume_begin client) s
     \<and> el_phase s \<noteq> AtTop
     \<and> cl_batch (el_client s) = Some (P, b) \<and> accepted (b :: (json, json solana_event list_channel,
          json solana_event list list_channel, monitored_world) bp) = []"
proof -
  let ?w = "\<lparr>stats = \<lparr>total_events = 0, pumpfun_trades = 0, other_dex_trades = 0, large_trades = 0\<rparr>, printed_lines = []\<rparr>"
  let ?cfg = "high_volume_config ''0'' 4 False"
  have valid: "config_validate (\<lambda>_. False) ?cfg = Inr ()"
    using high_volume_valid by simp
  obtain client :: "(json, json solana_event list_channel, json solana_event list list_channel, monitored_world) client" where
    start: "high_volume_start list_channel list_channel json_tree 0 0 (\<lambda>_. Inr ()) (\<lambda>_. False) (\<lambda>_. Inr ()) (\<lambda>_. Inr ())
      ''0'' 4 False ?w = Inr client"
    using valid by (simp add: high_volume_start_def anyhow_def client_new_def initialize_kafka_consumer_def client_start_def
        consumer_subscribe_def Let_def)
  have "\<not> is_backpressure_active (sc_resources (cl_consumer client))"
    using start by (auto simp: high_volume_start_def anyhow_def Let_def enable_batch_processing_def client_set_filter_def
        set_filter_def client_new_def initialize_kafka_consumer_def stream_consumer_new_def model_defs)
  then obtain s where s: "client_exec list_channel list_channel json_tree dex_codecs high_volume_handler LoopTop
      (high_volume_begin client) = Some s" "el_phase s = Fetching"
    by (simp add: high_volume_begin_def process_events_def loop_top_def)
  note reach = client_reachable.step [OF client_reachable.init s(1)]
  from high_volume_starved [OF list_bp.batch_channels_axioms dex_codecs_hex json_tree.json_api_axioms start reach] reach s(2)
  show ?thesis by (metis loop_phase.distinct(1))
qed

end
