(* ===== verification/TradeMeter.thy ===== *)
theory TradeMeter
  imports Prelude
begin

text \<open>
  The two counters of examples/dex_monitor.rs: the event loop adds to them, and the reporter, a task of
  its own, loads, prints and clears them once a minute. Each access of an atomic is a step, and the steps
  of the two tasks interleave in any order.
\<close>

section \<open>The counters and the reporter\<close>

text \<open>Where the reporter stands in a tick.\<close>

datatype reporter = Resting | LoadedTrades u64 | Printed u64 u64 | ClearedTrades u64

record meter =
  mt_trades :: u64
  mt_volume :: u64
  mt_reporter :: reporter
  mt_reports :: "(u64 \<times> u64) list"

definition meter_new :: meter where
  "meter_new = \<lparr>mt_trades = 0, mt_volume = 0, mt_reporter = Resting, mt_reports = []\<rparr>"

definition add_trade :: "meter \<Rightarrow> meter" where
  "add_trade m = m\<lparr>mt_trades := mt_trades m + 1\<rparr>"

definition add_volume :: "u64 \<Rightarrow> meter \<Rightarrow> meter" where
  "add_volume v m = m\<lparr>mt_volume := mt_volume m + v\<rparr>"

definition report_step :: "meter \<Rightarrow> meter" where
  "report_step m =
     (case mt_reporter m of
        Resting \<Rightarrow> m\<lparr>mt_reporter := LoadedTrades (mt_trades m)\<rparr>
      | LoadedTrades trades \<Rightarrow>
          m\<lparr>mt_reporter := Printed trades (mt_volume m), mt_reports := mt_reports m @ [(trades, mt_volume m)]\<rparr>
      | Printed trades vol \<Rightarrow> m\<lparr>mt_trades := 0, mt_reporter := ClearedTrades vol\<rparr>
      | ClearedTrades vol \<Rightarrow> m\<lparr>mt_volume := 0, mt_reporter := Resting\<rparr>)"

datatype meter_step = AddTrade | AddVolume u64 | ReportStep

fun meter_exec :: "meter_step \<Rightarrow> meter \<Rightarrow> meter" where
  "meter_exec AddTrade m = add_trade m"
| "meter_exec (AddVolume v) m = add_volume v m"
| "meter_exec ReportStep m = report_step m"

lemmas meter_defs = meter_new_def add_trade_def add_volume_def report_step_def

section \<open>What is counted and what is lost\<close>

text \<open>
  What a schedule adds, and what it adds too late: after the reporter has loaded the counter, and before
  it clears it.
\<close>

fun trades_added :: "meter_step list \<Rightarrow> nat" where
  "trades_added [] = 0"
| "trades_added (AddTrade # ss) = Suc (trades_added ss)"
| "trades_added (_ # ss) = trades_added ss"

fun volume_added :: "meter_step list \<Rightarrow> nat" where
  "volume_added [] = 0"
| "volume_added (AddVolume v # ss) = unat v + volume_added ss"
| "volume_added (_ # ss) = volume_added ss"

fun late_trades :: "meter_step list \<Rightarrow> meter \<Rightarrow> nat" where
  "late_trades [] m = 0"
| "late_trades (s # ss) m =
     (case (s, mt_reporter m) of (AddTrade, LoadedTrades _) \<Rightarrow> 1 | (AddTrade, Printed _ _) \<Rightarrow> 1 | _ \<Rightarrow> 0)
     + late_trades ss (meter_exec s m)"

fun late_volume :: "meter_step list \<Rightarrow> meter \<Rightarrow> nat" where
  "late_volume [] m = 0"
| "late_volume (s # ss) m =
     (case (s, mt_reporter m) of
        (AddVolume v, Printed _ _) \<Rightarrow> unat v | (AddVolume v, ClearedTrades _) \<Rightarrow> unat v | _ \<Rightarrow> 0)
     + late_volume ss (meter_exec s m)"

definition reported :: "(u64 \<times> u64 \<Rightarrow> u64) \<Rightarrow> meter \<Rightarrow> nat" where
  "reported f m = sum_list (map (unat \<circ> f) (mt_reports m))"

text \<open>The part of a counter that will be, or has been, reported in the present tick.\<close>

fun unreported_trades :: "meter \<Rightarrow> nat" where
  "unreported_trades m =
     (case mt_reporter m of LoadedTrades t \<Rightarrow> unat t | Printed t v \<Rightarrow> 0 | _ \<Rightarrow> unat (mt_trades m))"

fun unreported_volume :: "meter \<Rightarrow> nat" where
  "unreported_volume m =
     (case mt_reporter m of Printed t v \<Rightarrow> 0 | ClearedTrades v \<Rightarrow> 0 | _ \<Rightarrow> unat (mt_volume m))"

lemma unat_add_below:
  fixes x y :: "'a::len word"
  assumes "unat x + unat y < 2 ^ LENGTH('a)"
  shows "unat (x + y) = unat x + unat y"
  using assms by (simp add: unat_word_ariths)

lemma trades_account:
  "reported fst m + unreported_trades m + trades_added ss < 2 ^ 64 \<Longrightarrow>
   reported fst (fold meter_exec ss m) + unreported_trades (fold meter_exec ss m) + late_trades ss m =
     reported fst m + unreported_trades m + trades_added ss"
proof (induction ss arbitrary: m)
  case (Cons s ss)
  let ?m = "meter_exec s m"
  define late where "late = late_trades [s] m"
  have step: "reported fst ?m + unreported_trades ?m + late = reported fst m + unreported_trades m + trades_added [s]"
    using Cons.prems
    by (cases s; cases "mt_reporter m")
       (auto simp: meter_defs reported_def late_def unat_add_below)
  have split: "trades_added (s # ss) = trades_added [s] + trades_added ss" "late_trades (s # ss) m = late + late_trades ss ?m"
    by (cases s; simp) (simp add: late_def)
  have "reported fst ?m + unreported_trades ?m + trades_added ss < 2 ^ 64"
    using Cons.prems step split(1) by linarith
  from Cons.IH [OF this] step split show ?case by simp
qed simp

lemma volume_account:
  "reported snd m + unreported_volume m + volume_added ss < 2 ^ 64 \<Longrightarrow>
   reported snd (fold meter_exec ss m) + unreported_volume (fold meter_exec ss m) + late_volume ss m =
     reported snd m + unreported_volume m + volume_added ss"
proof (induction ss arbitrary: m)
  case (Cons s ss)
  let ?m = "meter_exec s m"
  define late where "late = late_volume [s] m"
  have step: "reported snd ?m + unreported_volume ?m + late = reported snd m + unreported_volume m + volume_added [s]"
    using Cons.prems
    by (cases s; cases "mt_reporter m")
       (auto simp: meter_defs reported_def late_def unat_add_below)
  have split: "volume_added (s # ss) = volume_added [s] + volume_added ss" "late_volume (s # ss) m = late + late_volume ss ?m"
    by (cases s; simp) (simp add: late_def)
  have "reported snd ?m + unreported_volume ?m + volume_added ss < 2 ^ 64"
    using Cons.prems step split(1) by linarith
  from Cons.IH [OF this] step split show ?case by simp
qed simp

section \<open>Property\<close>

text \<open>
  C31. What the monitor reports, on any interleaving of its two tasks with totals below 2^64: between two
  ticks, the trades reported and those in the counter are all that were counted but the ones counted
  between the reporter's load and its store of zero; these are lost, every one. The same holds for the
  volume. Nothing is ever reported twice.
\<close>

theorem monitor_reports:
  assumes "m = fold meter_exec ss meter_new" "trades_added ss < 2 ^ 64" "volume_added ss < 2 ^ 64"
  shows "reported fst m \<le> trades_added ss \<and> reported snd m \<le> volume_added ss
    \<and> (mt_reporter m = Resting \<longrightarrow>
         reported fst m + unat (mt_trades m) + late_trades ss meter_new = trades_added ss
         \<and> reported snd m + unat (mt_volume m) + late_volume ss meter_new = volume_added ss)"
  using trades_account [of meter_new ss] volume_account [of meter_new ss] assms
  by (auto simp: reported_def meter_new_def)

text \<open>A trade counted between the load and the store: one is reported, two were counted, none is left.\<close>

theorem monitor_reports_witness:
  "\<exists>m. m = fold meter_exec [AddTrade, AddVolume 5, ReportStep, AddTrade, AddVolume 7, ReportStep, ReportStep, ReportStep] meter_new
     \<and> mt_reports m = [(1, 12)] \<and> mt_trades m = 0 \<and> reported fst m + 1 = 2"
proof -
  let ?ss = "[AddTrade, AddVolume 5, ReportStep, AddTrade, AddVolume 7, ReportStep, ReportStep, ReportStep]"
  have small: "trades_added ?ss < 2 ^ 64" "volume_added ?ss < 2 ^ 64" by simp_all
  from monitor_reports [OF refl small] show ?thesis
    by (simp add: meter_defs reported_def)
qed

end
