(* ===== verification/DexRaces.thy ===== *)
theory DexRaces
  imports Processors Threads
begin

text \<open>
  The statistics of src/processors/dex_processor.rs under concurrent workers. They are statics of the
  process, one atomic each, so that the \<open>process\<close> calls of several workers interleave between any two
  of their accesses. What a call prints after the statistics touches no shared state but the terminal
  and is left out here; it may panic, but only when the call has counted. A worker whose call panics makes
  no call after it: the list of its calls ends with the event it died of, and the rest of its batch is
  not in the list.
\<close>

section \<open>Accesses\<close>

text \<open>
  Where a call stands: whether its trade is of Pump.fun and its value, then the values it has loaded for
  the line of statistics. The shared state is the statistics and the lines of them that were printed.
\<close>

datatype dex_call =
    CountTotal bool f64
  | CountKind bool f64
  | CountLarge
  | TestTotal
  | LoadTotal
  | LoadPumpfun u64
  | LoadOther u64 u64
  | LoadLarge u64 u64 u64

fun dex_access :: "dex_call \<Rightarrow> dex_world \<Rightarrow> dex_world \<times> dex_call option" where
  "dex_access (CountTotal is_pumpfun usd) w =
     (w\<lparr>stats := (stats w)\<lparr>total_events := total_events (stats w) + 1\<rparr>\<rparr>, Some (CountKind is_pumpfun usd))"
| "dex_access (CountKind is_pumpfun usd) w =
     (w\<lparr>stats := (if is_pumpfun then (stats w)\<lparr>pumpfun_trades := pumpfun_trades (stats w) + 1\<rparr>
                   else (stats w)\<lparr>other_dex_trades := other_dex_trades (stats w) + 1\<rparr>)\<rparr>,
      Some (if f_lt (f_lit 1000) usd then CountLarge else TestTotal))"
| "dex_access CountLarge w =
     (w\<lparr>stats := (stats w)\<lparr>large_trades := large_trades (stats w) + 1\<rparr>\<rparr>, Some TestTotal)"
| "dex_access TestTotal w = (w, if total_events (stats w) mod 10 = 0 then Some LoadTotal else None)"
| "dex_access LoadTotal w = (w, Some (LoadPumpfun (total_events (stats w))))"
| "dex_access (LoadPumpfun n) w = (w, Some (LoadOther n (pumpfun_trades (stats w))))"
| "dex_access (LoadOther n pumpfun_count) w =
     (w, Some (LoadLarge n pumpfun_count (other_dex_trades (stats w))))"
| "dex_access (LoadLarge n pumpfun_count other_count) w =
     (w\<lparr>printed_lines := printed_lines w
          @ [QuickStats n pumpfun_count other_count (large_trades (stats w))]\<rparr>, None)"

text \<open>The call that processing an event makes, if the processor wants the event.\<close>

definition dex_call_of :: "'j json_ops \<Rightarrow> 'j solana_event \<Rightarrow> dex_call" where
  "dex_call_of J e =
     CountTotal ((case program_id J e of Some i \<Rightarrow> i | None \<Rightarrow> ''unknown_program'') = pumpfun_program)
       (usd_value (case amount_base J e of Some a \<Rightarrow> a | None \<Rightarrow> f_lit 0)
         (case price J e of Some a \<Rightarrow> a | None \<Rightarrow> f_lit 0))"

definition dex_calls :: "'j json_ops \<Rightarrow> dex_processor \<Rightarrow> 'j solana_event list \<Rightarrow> dex_call list" where
  "dex_calls J p es = map (dex_call_of J) (filter (dex_should_process J p) es)"

section \<open>A call that runs alone\<close>

fun dex_alone :: "nat \<Rightarrow> dex_call \<Rightarrow> dex_world \<Rightarrow> dex_world option" where
  "dex_alone 0 c w = None"
| "dex_alone (Suc n) c w = (case dex_access c w of (w', None) \<Rightarrow> Some w' | (w', Some c') \<Rightarrow> dex_alone n c' w')"

lemma call_alone:
  "dex_alone 8 (CountTotal is_pumpfun usd) w =
     Some \<lparr>stats = count_trade is_pumpfun usd (stats w),
           printed_lines = printed_lines w @ quick_stats (count_trade is_pumpfun usd (stats w))\<rparr>"
  by (simp add: numeral_eq_Suc count_trade_def quick_stats_def Let_def)

text \<open>What \<open>process\<close> does to the statistics is what its call does, panic or not.\<close>

lemma dex_process_counts:
  assumes "dex_should_process J p e" "dex_call_of J e = CountTotal is_pumpfun usd"
  shows "stats (fst (dex_process J now p e w)) = count_trade is_pumpfun usd (stats w)"
  using assms
  by (auto simp: dex_process_def dex_call_of_def Let_def simp del: f_lit_0 split: option.split)

section \<open>What every interleaving keeps\<close>

fun owed_total :: "dex_call \<Rightarrow> u64" where
  "owed_total (CountTotal _ _) = 1"
| "owed_total _ = 0"

fun owed_pumpfun :: "dex_call \<Rightarrow> u64" where
  "owed_pumpfun (CountTotal is_pumpfun _) = of_bool is_pumpfun"
| "owed_pumpfun (CountKind is_pumpfun _) = of_bool is_pumpfun"
| "owed_pumpfun _ = 0"

fun owed_other :: "dex_call \<Rightarrow> u64" where
  "owed_other (CountTotal is_pumpfun _) = of_bool (\<not> is_pumpfun)"
| "owed_other (CountKind is_pumpfun _) = of_bool (\<not> is_pumpfun)"
| "owed_other _ = 0"

fun owed_large :: "dex_call \<Rightarrow> u64" where
  "owed_large (CountTotal _ usd) = of_bool (f_lt (f_lit 1000) usd)"
| "owed_large (CountKind _ usd) = of_bool (f_lt (f_lit 1000) usd)"
| "owed_large CountLarge = 1"
| "owed_large _ = 0"

lemma access_cases:
  assumes "dex_access c w = (w', r)"
  shows "total_events (stats w') + (case r of None \<Rightarrow> 0 | Some c' \<Rightarrow> owed_total c')
      = total_events (stats w) + owed_total c"
    and "pumpfun_trades (stats w') + (case r of None \<Rightarrow> 0 | Some c' \<Rightarrow> owed_pumpfun c')
      = pumpfun_trades (stats w) + owed_pumpfun c"
    and "other_dex_trades (stats w') + (case r of None \<Rightarrow> 0 | Some c' \<Rightarrow> owed_other c')
      = other_dex_trades (stats w) + owed_other c"
    and "large_trades (stats w') + (case r of None \<Rightarrow> 0 | Some c' \<Rightarrow> owed_large c')
      = large_trades (stats w) + owed_large c"
  using assms by (cases c; auto simp del: f_lit_0 split: if_splits)+

interpretation events: conserving dex_access "\<lambda>w. total_events (stats w)" owed_total
  by unfold_locales (rule access_cases)

interpretation pumpfun: conserving dex_access "\<lambda>w. pumpfun_trades (stats w)" owed_pumpfun
  by unfold_locales (rule access_cases)

interpretation other: conserving dex_access "\<lambda>w. other_dex_trades (stats w)" owed_other
  by unfold_locales (rule access_cases)

interpretation large: conserving dex_access "\<lambda>w. large_trades (stats w)" owed_large
  by unfold_locales (rule access_cases)

section \<open>Processing one event after the other\<close>

definition process_stats :: "'j json_ops \<Rightarrow> nat \<Rightarrow> dex_processor \<Rightarrow> 'j solana_event list \<Rightarrow> dex_world \<Rightarrow> dex_world" where
  "process_stats J now p es w = fold (\<lambda>e w. fst (dex_process J now p e w)) es w"

lemma process_stats_step:
  "stats (fst (dex_process J now p e w)) =
     (if dex_should_process J p e then
        (case dex_call_of J e of CountTotal is_pumpfun usd \<Rightarrow> count_trade is_pumpfun usd (stats w) | _ \<Rightarrow> stats w)
      else stats w)"
proof (cases "dex_should_process J p e")
  case True
  obtain b usd where "dex_call_of J e = CountTotal b usd" by (simp add: dex_call_of_def)
  with dex_process_counts [OF True] True show ?thesis by simp
qed (simp add: dex_process_def)

lemma count_trade_owed:
  "total_events (count_trade b usd s) = total_events s + owed_total (CountTotal b usd)"
  "pumpfun_trades (count_trade b usd s) = pumpfun_trades s + owed_pumpfun (CountTotal b usd)"
  "other_dex_trades (count_trade b usd s) = other_dex_trades s + owed_other (CountTotal b usd)"
  "large_trades (count_trade b usd s) = large_trades s + owed_large (CountTotal b usd)"
  by (simp_all add: count_trade_def Let_def del: f_lit_0)

lemma process_stats_owed:
  "total_events (stats (process_stats J now p es w)) = total_events (stats w) + sum_list (map owed_total (dex_calls J p es))"
  "pumpfun_trades (stats (process_stats J now p es w)) = pumpfun_trades (stats w) + sum_list (map owed_pumpfun (dex_calls J p es))"
  "other_dex_trades (stats (process_stats J now p es w)) = other_dex_trades (stats w) + sum_list (map owed_other (dex_calls J p es))"
  "large_trades (stats (process_stats J now p es w)) = large_trades (stats w) + sum_list (map owed_large (dex_calls J p es))"
proof (induction es arbitrary: w)
  case (Cons e es)
  obtain b usd where c: "dex_call_of J e = CountTotal b usd" by (simp add: dex_call_of_def)
  {
    case 1
    show ?case
      using Cons.IH(1) [of "fst (dex_process J now p e w)"]
      by (simp add: process_stats_def process_stats_step c dex_calls_def count_trade_owed del: owed_total.simps)
  next
    case 2
    show ?case
      using Cons.IH(2) [of "fst (dex_process J now p e w)"]
      by (simp add: process_stats_def process_stats_step c dex_calls_def count_trade_owed del: owed_pumpfun.simps)
  next
    case 3
    show ?case
      using Cons.IH(3) [of "fst (dex_process J now p e w)"]
      by (simp add: process_stats_def process_stats_step c dex_calls_def count_trade_owed del: owed_other.simps)
  next
    case 4
    show ?case
      using Cons.IH(4) [of "fst (dex_process J now p e w)"]
      by (simp add: process_stats_def process_stats_step c dex_calls_def count_trade_owed del: owed_large.simps)
  }
qed (simp_all add: process_stats_def dex_calls_def)

lemma concat_dex_calls: "concat (map (dex_calls J p) batches) = dex_calls J p (concat batches)"
  by (induction batches) (simp_all add: dex_calls_def)

section \<open>Properties\<close>

text \<open>
  C21. The statistics of the DEX processor do not depend on how the workers interleave: when the workers have
  processed their batches, each event counted by several accesses of the statics that the others can
  come between, the four counters are what processing all the events one after the other gives.
\<close>

theorem concurrent_statistics:
  assumes "threads_reachable dex_access (w0, map (dex_calls J p) batches) (w, ths)" "\<forall>th \<in> set ths. th = []"
  shows "stats w = stats (process_stats J now p (concat batches) w0)"
proof -
  note totals = events.threads_done [OF assms] pumpfun.threads_done [OF assms] other.threads_done [OF assms]
    large.threads_done [OF assms]
  show ?thesis
    by (rule dex_stats.equality) (simp_all add: totals concat_dex_calls process_stats_owed)
qed

text \<open>
  Only the lines of statistics do: the tenth of ten events is reported when it is counted alone, but not
  when another worker counts an event before the test.
\<close>

lemma statistics_line_missed:
  assumes "total_events (stats w) = 9" "\<not> f_lt (f_lit 1000) u1" "\<not> f_lt (f_lit 1000) u2"
  shows "threads_reachable dex_access (w, [[CountTotal b1 u1], [CountTotal b2 u2]])
      (w\<lparr>stats := count_trade b2 u2 (count_trade b1 u1 (stats w))\<rparr>, [[], []])"
    and "quick_stats (count_trade b1 u1 (stats w)) \<noteq> []"
proof -
  have "fold (threads_step dex_access) [0, 1, 0, 1, 0, 1] (w, [[CountTotal b1 u1], [CountTotal b2 u2]])
      = (w\<lparr>stats := count_trade b2 u2 (count_trade b1 u1 (stats w))\<rparr>, [[], []])"
    using assms by (simp add: threads_step_def count_trade_def Let_def del: f_lit_0)
  then show "threads_reachable dex_access (w, [[CountTotal b1 u1], [CountTotal b2 u2]])
      (w\<lparr>stats := count_trade b2 u2 (count_trade b1 u1 (stats w))\<rparr>, [[], []])"
    using threads_schedule [OF threads_reachable.start [of dex_access "(w, [[CountTotal b1 u1], [CountTotal b2 u2]])"],
        of "[0, 1, 0, 1, 0, 1]"] by simp
  show "quick_stats (count_trade b1 u1 (stats w)) \<noteq> []"
    using assms by (simp add: quick_stats_def count_trade_def Let_def)
qed

section \<open>Witnesses\<close>

theorem concurrent_statistics_witness:
  "\<exists>w ths. threads_reachable dex_access
      (\<lparr>stats = \<lparr>total_events = 0, pumpfun_trades = 0, other_dex_trades = 0, large_trades = 0\<rparr>, printed_lines = []\<rparr>,
       map (dex_calls json_tree \<lparr>min_amount_usd = Fin 0, target_programs = []\<rparr>)
         [[sample_trade [(''program'', JString pumpfun_program)]], [sample_trade []]]) (w, ths)
     \<and> stats w = \<lparr>total_events = 2, pumpfun_trades = 1, other_dex_trades = 1, large_trades = 0\<rparr>"
proof -
  let ?w0 = "\<lparr>stats = \<lparr>total_events = 0, pumpfun_trades = 0, other_dex_trades = 0, large_trades = 0\<rparr>, printed_lines = []\<rparr>"
  let ?p = "\<lparr>min_amount_usd = Fin 0, target_programs = []\<rparr>"
  let ?batches = "[[sample_trade [(''program'', JString pumpfun_program)]], [sample_trade []]]"
  let ?s0 = "(?w0, map (dex_calls json_tree ?p) ?batches)"
  have wanted: "dex_should_process json_tree ?p (sample_trade ms)" for ms
    by (simp add: dex_should_process_def sample_trade_def)
  have members: "program_id json_tree (sample_trade [(''program'', JString pumpfun_program)]) = Some pumpfun_program"
    "program_id json_tree (sample_trade []) = None"
    "amount_base json_tree (sample_trade [(''program'', JString pumpfun_program)]) = None"
    "amount_base json_tree (sample_trade []) = None"
    "price json_tree (sample_trade [(''program'', JString pumpfun_program)]) = None"
    "price json_tree (sample_trade []) = None"
    by (simp_all add: sample_trade_def json_tree_def event_field_defs)
  have "\<not> ''unknown_program'' = pumpfun_program" by (simp add: pumpfun_program_def)
  then have calls: "dex_calls json_tree ?p [sample_trade [(''program'', JString pumpfun_program)]] = [CountTotal True (Fin 0)]"
    "dex_calls json_tree ?p [sample_trade []] = [CountTotal False (Fin 0)]"
    using wanted by (simp_all add: dex_calls_def dex_call_of_def members usd_value_def)
  obtain w ths where run: "fold (threads_step dex_access) [0, 1, 1, 0, 0, 1] ?s0 = (w, ths)" by fastforce
  have r: "threads_reachable dex_access ?s0 (w, ths)"
    unfolding run [symmetric] by (rule threads_schedule [OF threads_reachable.start]) simp
  have ends: "\<forall>th \<in> set ths. th = []"
    using run by (auto simp: threads_step_def calls f_lit_def rnd_numeral)
  have "stats w = stats (process_stats json_tree 0 ?p (concat ?batches) ?w0)"
    by (rule concurrent_statistics [OF r ends])
  also have "\<dots> = \<lparr>total_events = 2, pumpfun_trades = 1, other_dex_trades = 1, large_trades = 0\<rparr>"
    by (rule dex_stats.equality)
      (simp_all add: process_stats_owed dex_calls_def dex_call_of_def wanted members usd_value_def f_lit_def rnd_numeral
        \<open>\<not> ''unknown_program'' = pumpfun_program\<close>)
  finally show ?thesis using r by blast
qed

end
