(* ===== verification/Awaits.thy ===== *)
theory Awaits
  imports Calls Client
begin

text \<open>
  src/consumer.rs: \<open>next_event\<close> cut at its awaits, the points where the program can drop a call, as the
  service and the applications do when Ctrl-C comes first in their \<open>select!\<close>. A call run to its end is
  the \<open>next_event\<close> of Consumer.
\<close>

section \<open>The call and its awaits\<close>

text \<open>
  Where a call stands: in a sleep, in \<open>recv\<close>, before the lock of the signature cache or of the filter
  with a message in hand, or done.
\<close>

datatype 'j awaiting =
    Sleeping
  | Receiving
  | Deduplicating kafka_message "string option" "'j solana_event"
  | Filtering kafka_message "string option" "'j solana_event"
  | Ready "sdk_error + 'j solana_event option"

text \<open>The head of the loop, up to its first await.\<close>

definition await_top :: "'j stream_consumer \<Rightarrow> 'j stream_consumer \<times> 'j awaiting" where
  "await_top c = (case pre_receive c of Inl c1 \<Rightarrow> (c1, Sleeping) | Inr c1 \<Rightarrow> (c1, Receiving))"

text \<open>A commit, and then the result or the head of the loop again.\<close>

definition await_commit ::
  "string option \<Rightarrow> kafka_message \<Rightarrow> 'j solana_event option \<Rightarrow> 'j stream_consumer
   \<Rightarrow> 'j stream_consumer \<times> 'j awaiting" where
  "await_commit commit_error m event c =
     (case commit_kafka_offset commit_error m c of
        (c', Inl e) \<Rightarrow> (c', Ready (Inl e))
      | (c', Inr _) \<Rightarrow> (case event of Some e \<Rightarrow> (c', Ready (Inr (Some e))) | None \<Rightarrow> await_top c'))"

text \<open>A received message, up to the lock of the signature cache if it has an event.\<close>

definition await_received ::
  "'j json_ops \<Rightarrow> codecs \<Rightarrow> kafka_message \<Rightarrow> string option \<Rightarrow> 'j stream_consumer
   \<Rightarrow> 'j stream_consumer \<times> 'j awaiting" where
  "await_received J K m commit_error c =
     (case km_payload m of
        None \<Rightarrow> await_commit commit_error m None (record_event_processed (km_topic m) False c)
      | Some payload \<Rightarrow>
          (case decode_event J K (km_topic m) (decompress_safe (lz4_decode K) (gzip_decode K) payload) of
             None \<Rightarrow> await_commit commit_error m None c
           | Some (Inl e) \<Rightarrow>
               await_commit commit_error m None
                 (record_event_processed (km_topic m) False (record_event_processed (km_topic m) False c))
           | Some (Inr event) \<Rightarrow> (c, Deduplicating m commit_error event)))"

definition await_dedup ::
  "kafka_message \<Rightarrow> string option \<Rightarrow> 'j solana_event \<Rightarrow> 'j stream_consumer
   \<Rightarrow> 'j stream_consumer \<times> 'j awaiting" where
  "await_dedup m commit_error event c =
     (if signature event \<in> seen_signatures_cache c then await_commit commit_error m None c
      else
        (let seen = insert (signature event) (seen_signatures_cache c);
             seen' = (if dedup_limit c < card seen then {signature event} else seen)
         in (record_event_processed (event_type_as_str (event_type event)) True
               (c\<lparr>seen_signatures_cache := seen'\<rparr>), Filtering m commit_error event)))"

definition await_filter ::
  "'j json_ops \<Rightarrow> kafka_message \<Rightarrow> string option \<Rightarrow> 'j solana_event \<Rightarrow> 'j stream_consumer
   \<Rightarrow> 'j stream_consumer \<times> 'j awaiting" where
  "await_filter J m commit_error event c =
     (if \<not> passes_filter J (active_event_filter c) event then await_commit commit_error m None c
      else await_commit commit_error m (Some event) c)"

text \<open>What is awaited comes: the call goes on to its next await. It waits (\<open>None\<close>) while Kafka is silent.\<close>

fun resume ::
  "'j json_ops \<Rightarrow> codecs \<Rightarrow> kafka_input list \<times> 'j stream_consumer \<times> 'j awaiting
   \<Rightarrow> (kafka_input list \<times> 'j stream_consumer \<times> 'j awaiting) option" where
  "resume J K (is, c, Sleeping) = Some (is, c, Ready (Inr None))"
| "resume J K ([], c, Receiving) = None"
| "resume J K (RecvError e # is, c, Receiving) = Some (is, c, Ready (Inl (Kafka e)))"
| "resume J K (Received m commit_error meanwhile # is, c, Receiving) =
     Some (is, await_received J K m commit_error (c\<lparr>sc_resources := meanwhile (sc_resources c)\<rparr>))"
| "resume J K (is, c, Deduplicating m commit_error event) = Some (is, await_dedup m commit_error event c)"
| "resume J K (is, c, Filtering m commit_error event) = Some (is, await_filter J m commit_error event c)"
| "resume J K (is, c, Ready r) = None"

inductive awaits ::
  "'j json_ops \<Rightarrow> codecs \<Rightarrow> kafka_input list \<times> 'j stream_consumer \<times> 'j awaiting
   \<Rightarrow> kafka_input list \<times> 'j stream_consumer \<times> 'j awaiting \<Rightarrow> bool" for J K s0 where
  start: "awaits J K s0 s0"
| go_on: "awaits J K s0 s \<Longrightarrow> resume J K s = Some s' \<Longrightarrow> awaits J K s0 s'"

section \<open>A call that runs to its end\<close>

text \<open>What \<open>handle_message\<close> does in one step.\<close>

definition outcome_await ::
  "'j stream_consumer \<times> 'j solana_event message_outcome \<Rightarrow> 'j stream_consumer \<times> 'j awaiting" where
  "outcome_await p = (case p of (c, Continue) \<Rightarrow> await_top c | (c, Return r) \<Rightarrow> (c, Ready r))"

lemma await_commit_outcome:
  "await_commit commit_error m event c = outcome_await
     (commit_then commit_error m (case event of Some e \<Rightarrow> Return (Inr (Some e)) | None \<Rightarrow> Continue) c)"
  by (cases event) (auto simp: await_commit_def commit_then_def commit_kafka_offset_def outcome_await_def
      split: option.split)

text \<open>What is left to do with a message in hand.\<close>

definition filter_outcome ::
  "'j json_ops \<Rightarrow> kafka_message \<Rightarrow> string option \<Rightarrow> 'j solana_event \<Rightarrow> 'j stream_consumer
   \<Rightarrow> 'j stream_consumer \<times> 'j solana_event message_outcome" where
  "filter_outcome J m commit_error event c =
     (if \<not> passes_filter J (active_event_filter c) event then commit_then commit_error m Continue c
      else commit_then commit_error m (Return (Inr (Some event))) c)"

definition dedup_outcome ::
  "'j json_ops \<Rightarrow> kafka_message \<Rightarrow> string option \<Rightarrow> 'j solana_event \<Rightarrow> 'j stream_consumer
   \<Rightarrow> 'j stream_consumer \<times> 'j solana_event message_outcome" where
  "dedup_outcome J m commit_error event c =
     (case await_dedup m commit_error event c of
        (c1, Filtering _ _ _) \<Rightarrow> filter_outcome J m commit_error event c1
      | _ \<Rightarrow> commit_then commit_error m Continue c)"

definition finish_call ::
  "'j json_ops \<Rightarrow> codecs \<Rightarrow> kafka_input list \<Rightarrow> 'j stream_consumer \<times> 'j solana_event message_outcome
   \<Rightarrow> ('j stream_consumer \<times> kafka_input list \<times> (sdk_error + 'j solana_event option)) option" where
  "finish_call J K is p = (case p of (c, Continue) \<Rightarrow> next_event J K is c | (c, Return r) \<Rightarrow> Some (c, is, r))"

text \<open>The rest of a call from where it stands.\<close>

fun rest_of_call ::
  "'j json_ops \<Rightarrow> codecs \<Rightarrow> kafka_input list \<times> 'j stream_consumer \<times> 'j awaiting
   \<Rightarrow> ('j stream_consumer \<times> kafka_input list \<times> (sdk_error + 'j solana_event option)) option" where
  "rest_of_call J K (is, c, Sleeping) = Some (c, is, Inr None)"
| "rest_of_call J K (is, c, Ready r) = Some (c, is, r)"
| "rest_of_call J K ([], c, Receiving) = None"
| "rest_of_call J K (RecvError e # is, c, Receiving) = Some (c, is, Inl (Kafka e))"
| "rest_of_call J K (Received m commit_error meanwhile # is, c, Receiving) =
     finish_call J K is (handle_message J K m commit_error (c\<lparr>sc_resources := meanwhile (sc_resources c)\<rparr>))"
| "rest_of_call J K (is, c, Deduplicating m commit_error event) =
     finish_call J K is (dedup_outcome J m commit_error event c)"
| "rest_of_call J K (is, c, Filtering m commit_error event) =
     finish_call J K is (filter_outcome J m commit_error event c)"

lemma rest_of_top: "rest_of_call J K (is, await_top c) = next_event J K is c"
  by (cases "is") (auto simp: await_top_def finish_call_def split: sum.split kafka_input.split)

lemma rest_of_outcome: "rest_of_call J K (is, outcome_await p) = finish_call J K is p"
  by (auto simp: outcome_await_def finish_call_def rest_of_top split: prod.split message_outcome.split)

lemma await_filter_outcome: "await_filter J m err e c = outcome_await (filter_outcome J m err e c)"
  by (simp add: await_filter_def filter_outcome_def await_commit_outcome)

lemma rest_of_dedup: "rest_of_call J K (is, await_dedup m err e c) = finish_call J K is (dedup_outcome J m err e c)"
proof (cases "signature e \<in> seen_signatures_cache c")
  case True
  then have "await_dedup m err e c = outcome_await (commit_then err m Continue c)"
    by (simp add: await_dedup_def await_commit_outcome)
  moreover have "dedup_outcome J m err e c = commit_then err m Continue c"
    using True
    by (auto simp: dedup_outcome_def await_dedup_def await_commit_def commit_kafka_offset_def await_top_def
        split: option.split sum.split)
  ultimately show ?thesis by (simp add: rest_of_outcome)
next
  case False
  then show ?thesis by (simp add: await_dedup_def dedup_outcome_def Let_def)
qed

lemma rest_of_received:
  "rest_of_call J K (is, await_received J K m err c) = finish_call J K is (handle_message J K m err c)"
proof (cases "km_payload m")
  case None
  then show ?thesis
    by (simp add: await_received_def handle_message_def internal_process_kafka_message_def await_commit_outcome rest_of_outcome)
next
  case (Some payload)
  show ?thesis
  proof (cases "decode_event J K (km_topic m) (decompress_safe (lz4_decode K) (gzip_decode K) payload)")
    case None
    then show ?thesis
      using Some
      by (simp add: await_received_def handle_message_def internal_process_kafka_message_def await_commit_outcome rest_of_outcome)
  next
    case (Some r)
    show ?thesis
    proof (cases r)
      case (Inl e)
      then show ?thesis
        using Some \<open>km_payload m = _\<close>
        by (simp add: await_received_def handle_message_def internal_process_kafka_message_def await_commit_outcome rest_of_outcome)
    next
      case (Inr event)
      have "handle_message J K m err c = dedup_outcome J m err event c"
      proof (cases "signature event \<in> seen_signatures_cache c")
        case True
        then show ?thesis
          using Some Inr \<open>km_payload m = _\<close>
          by (auto simp: handle_message_def internal_process_kafka_message_def dedup_outcome_def await_dedup_def
              await_commit_def commit_kafka_offset_def await_top_def split: option.split sum.split)
      next
        case False
        then show ?thesis
          using Some Inr \<open>km_payload m = _\<close>
          by (simp add: handle_message_def internal_process_kafka_message_def dedup_outcome_def await_dedup_def
              filter_outcome_def Let_def)
      qed
      then show ?thesis
        using Some Inr \<open>km_payload m = _\<close> by (simp add: await_received_def)
    qed
  qed
qed

lemma rest_of_resume: "resume J K s = Some s' \<Longrightarrow> rest_of_call J K s' = rest_of_call J K s"
  by (cases "(J, K, s)" rule: resume.cases)
     (auto simp: rest_of_received rest_of_dedup await_filter_outcome rest_of_outcome)

lemma rest_of_awaits: "awaits J K s s' \<Longrightarrow> rest_of_call J K s' = rest_of_call J K s"
  by (induction rule: awaits.induct) (auto simp: rest_of_resume)

text \<open>Every call comes to its end, or to \<open>recv\<close> when Kafka is silent.\<close>

fun await_rank :: "'j awaiting \<Rightarrow> nat" where
  "await_rank (Ready r) = 0"
| "await_rank Sleeping = 1"
| "await_rank Receiving = 2"
| "await_rank (Filtering m err e) = 3"
| "await_rank (Deduplicating m err e) = 4"

lemma await_rank_top: "await_rank (snd (await_top c)) \<le> 2"
  by (simp add: await_top_def split: sum.split)

lemma await_rank_commit: "await_rank (snd (await_commit err m e c)) \<le> 2"
  by (auto simp: await_commit_def await_rank_top split: prod.split sum.split option.split)

lemma await_rank_less:
  "resume J K (is, c, ph) = Some (is', c', ph') \<Longrightarrow> 5 * length is' + await_rank ph' < 5 * length is + await_rank ph"
proof (cases ph)
  case (Deduplicating m err e)
  assume "resume J K (is, c, ph) = Some (is', c', ph')"
  then have "is' = is" "(c', ph') = await_dedup m err e c" using Deduplicating by simp_all
  moreover from this(2) have "await_rank ph' \<le> 3"
    using await_rank_commit [of err m None c] by (auto simp: await_dedup_def Let_def dest: arg_cong [of _ _ snd] split: if_splits)
  ultimately show ?thesis using Deduplicating by simp
next
  case (Filtering m err e)
  assume "resume J K (is, c, ph) = Some (is', c', ph')"
  then have "is' = is" "(c', ph') = await_filter J m err e c" using Filtering by simp_all
  moreover from this(2) have "await_rank ph' \<le> 2"
    using await_rank_commit [of err m _ c] by (auto simp: await_filter_def dest: arg_cong [of _ _ snd] split: if_splits)
  ultimately show ?thesis using Filtering by simp
next
  case Receiving
  assume r: "resume J K (is, c, ph) = Some (is', c', ph')"
  then obtain i where i: "is = i # is'" using Receiving by (cases "(J, K, is, c, ph)" rule: resume.cases) auto
  have "await_rank ph' \<le> 4" by (cases ph') simp_all
  then show ?thesis using Receiving i by simp
qed auto

lemma awaits_trans: "awaits J K s1 s2 \<Longrightarrow> awaits J K s0 s1 \<Longrightarrow> awaits J K s0 s2"
  by (induction rule: awaits.induct) (auto intro: awaits.go_on)

lemma awaits_end: "\<exists>s'. awaits J K (is, c, ph) s' \<and> resume J K s' = None"
proof (induction "5 * length is + await_rank ph" arbitrary: "is" c ph rule: less_induct)
  case less
  show ?case
  proof (cases "resume J K (is, c, ph)")
    case None
    then show ?thesis using awaits.start by blast
  next
    case (Some s1)
    obtain is1 c1 ph1 where s1: "s1 = (is1, c1, ph1)" by (cases s1)
    have "awaits J K (is, c, ph) (is1, c1, ph1)" using awaits.go_on [OF awaits.start Some] s1 by simp
    moreover obtain s' where "awaits J K (is1, c1, ph1) s'" "resume J K s' = None"
      using less [OF await_rank_less] Some s1 by blast
    ultimately show ?thesis using awaits_trans by blast
  qed
qed

lemma resume_none: "resume J K (is, c, ph) = None \<longleftrightarrow> (\<exists>r. ph = Ready r) \<or> is = [] \<and> ph = Receiving"
  by (cases "(J, K, is, c, ph)" rule: resume.cases) auto

lemma awaits_next_event:
  "next_event J K is c = Some (c', rest, r) \<longleftrightarrow> awaits J K (is, await_top c) (rest, c', Ready r)"
  "next_event J K is c = None \<longleftrightarrow> (\<exists>c'. awaits J K (is, await_top c) ([], c', Receiving))"
proof -
  obtain is1 c1 ph where e: "awaits J K (is, await_top c) (is1, c1, ph)" "resume J K (is1, c1, ph) = None"
    using awaits_end [of J K "is" "fst (await_top c)" "snd (await_top c)"] by auto
  have val: "awaits J K (is, await_top c) s' \<Longrightarrow> rest_of_call J K s' = next_event J K is c" for s'
    using rest_of_awaits [of J K "(is, await_top c)"] by (simp add: rest_of_top)
  have ends: "(\<exists>r. ph = Ready r) \<or> is1 = [] \<and> ph = Receiving" using e(2) by (simp add: resume_none)
  show "next_event J K is c = Some (c', rest, r) \<longleftrightarrow> awaits J K (is, await_top c) (rest, c', Ready r)"
    using e(1) val [OF e(1)] ends val [of "(rest, c', Ready r)"] by auto
  show "next_event J K is c = None \<longleftrightarrow> (\<exists>c'. awaits J K (is, await_top c) ([], c', Receiving))"
    using e(1) val [OF e(1)] ends val [of "([], _, Receiving)"] by auto
qed

section \<open>A call that is dropped\<close>

fun in_hand :: "'j awaiting \<Rightarrow> i64 list" where
  "in_hand (Deduplicating m err e) = [km_offset m]"
| "in_hand (Filtering m err e) = [km_offset m]"
| "in_hand ph = []"

lemma commits_top: "commits (fst (await_top c)) = commits c" "in_hand (snd (await_top c)) = []"
  by (auto simp: await_top_def split: sum.split dest: pre_receive_frame)

lemma commits_commit:
  "commits (fst (await_commit err m e c)) = commits c @ [km_offset m]" "in_hand (snd (await_commit err m e c)) = []"
  by (auto simp: await_commit_def commit_kafka_offset_def commits_top split: option.split)

lemma commits_received:
  "commits (fst (await_received J K m err c)) @ in_hand (snd (await_received J K m err c)) = commits c @ [km_offset m]"
  by (auto simp: await_received_def commits_commit record_frame split: option.split sum.split)

lemma commits_dedup:
  "commits (fst (await_dedup m err e c)) @ in_hand (snd (await_dedup m err e c)) = commits c @ [km_offset m]"
  by (simp add: await_dedup_def commits_commit record_frame Let_def)

lemma commits_filter:
  "commits (fst (await_filter J m err e c)) @ in_hand (snd (await_filter J m err e c)) = commits c @ [km_offset m]"
  by (simp add: await_filter_def commits_commit)

text \<open>The answers not yet taken do not matter.\<close>

lemma resume_more: "resume J K (is, p) = Some (is', p') \<Longrightarrow> resume J K (is @ later, p) = Some (is' @ later, p')"
  by (cases "(J, K, is, p)" rule: resume.cases) auto

lemma awaits_more: "awaits J K s0 s \<Longrightarrow> s0 = (is, p) \<Longrightarrow> awaits J K (is @ later, p) (fst s @ later, snd s)"
proof (induction rule: awaits.induct)
  case start
  then show ?case by (simp add: awaits.start)
next
  case (go_on s s')
  from go_on.hyps(2) have "resume J K (fst s, snd s) = Some (fst s', snd s')" by simp
  from awaits.go_on [OF go_on.IH [OF go_on.prems] resume_more [OF this]] show ?case .
qed

text \<open>
  What a call has taken when it stands at an await: each message is committed but the one in hand,
  before which the call was in \<open>recv\<close>, still without a result.
\<close>

definition taken_so_far ::
  "'j json_ops \<Rightarrow> codecs \<Rightarrow> 'j stream_consumer \<times> 'j awaiting \<Rightarrow> kafka_input list
   \<Rightarrow> 'j stream_consumer \<times> 'j awaiting \<Rightarrow> bool" where
  "taken_so_far J K p used q \<longleftrightarrow>
     awaits J K (used, p) ([], q)
     \<and> commits (fst q) @ in_hand (snd q) = commits (fst p) @ in_hand (snd p) @ offsets_of used
     \<and> (in_hand (snd q) \<noteq> [] \<longrightarrow> in_hand (snd p) \<noteq> []
          \<or> (\<exists>handled m err g c0. used = handled @ [Received m err g] \<and> in_hand (snd q) = [km_offset m]
              \<and> awaits J K (handled, p) ([], c0, Receiving)))"

lemma offsets_append [simp]: "offsets_of (xs @ ys) = offsets_of xs @ offsets_of ys"
  by (induction xs rule: offsets_of.induct) auto

lemma awaits_taken:
  "awaits J K s0 s \<Longrightarrow> \<exists>used. fst s0 = used @ fst s \<and> taken_so_far J K (snd s0) used (snd s)"
proof (induction rule: awaits.induct)
  case start
  show ?case by (intro exI [of _ "[]"]) (simp add: taken_so_far_def awaits.start)
next
  case (go_on s s')
  obtain used where used: "fst s0 = used @ fst s" "taken_so_far J K (snd s0) used (snd s)" using go_on.IH by blast
  obtain rest c ph where s: "s = (rest, c, ph)" by (cases s)
  have before: "awaits J K (used, snd s0) ([], c, ph)"
    and com: "commits c @ in_hand ph = commits (fst (snd s0)) @ in_hand (snd (snd s0)) @ offsets_of used"
    using used(2) by (simp_all add: taken_so_far_def s)
  show ?case
  proof (cases ph)
    case Sleeping
    then have "s' = (rest, c, Ready (Inr None))" using go_on.hyps(2) s by simp
    then show ?thesis
      using used(1) before com awaits.go_on [OF before] Sleeping
      by (intro exI [of _ used]) (simp add: taken_so_far_def s)
  next
    case (Ready r)
    then show ?thesis using go_on.hyps(2) s by simp
  next
    case Receiving
    then obtain i rest' where i: "rest = i # rest'" using go_on.hyps(2) s by (cases rest) auto
    have at: "awaits J K (used @ [i], snd s0) ([i], c, Receiving)"
      using awaits_more [OF before refl, of "[i]"] Receiving by simp
    show ?thesis
    proof (cases i)
      case (RecvError e)
      then have "s' = (rest', c, Ready (Inl (Kafka e)))" using go_on.hyps(2) s Receiving i by simp
      then show ?thesis
        using used(1) com awaits.go_on [OF at] Receiving RecvError i
        by (intro exI [of _ "used @ [i]"]) (simp add: taken_so_far_def s)
    next
      case (Received m err g)
      let ?q = "await_received J K m err (c\<lparr>sc_resources := g (sc_resources c)\<rparr>)"
      have s': "s' = (rest', ?q)" using go_on.hyps(2) s Receiving i Received by simp
      have "awaits J K (used @ [i], snd s0) ([], ?q)" using awaits.go_on [OF at] Received by simp
      moreover have "commits (fst ?q) @ in_hand (snd ?q) = commits (fst (snd s0)) @ in_hand (snd (snd s0)) @ offsets_of (used @ [i])"
        using com Receiving Received by (simp add: commits_received)
      moreover have "in_hand (snd ?q) = [] \<or> in_hand (snd ?q) = [km_offset m]"
        by (auto simp: await_received_def commits_commit split: option.split sum.split)
      ultimately show ?thesis
        using used(1) before Receiving Received i s s'
        by (intro exI [of _ "used @ [i]"]) (auto simp: taken_so_far_def)
    qed
  next
    case (Deduplicating m err e)
    let ?q = "await_dedup m err e c"
    have s': "s' = (rest, ?q)" using go_on.hyps(2) s Deduplicating by simp
    have "awaits J K (used, snd s0) ([], ?q)" using awaits.go_on [OF before] Deduplicating by simp
    moreover have "in_hand (snd ?q) = [] \<or> in_hand (snd ?q) = [km_offset m]"
      by (auto simp: await_dedup_def commits_commit Let_def)
    ultimately show ?thesis
      using used Deduplicating s s' com by (intro exI [of _ used]) (auto simp: taken_so_far_def commits_dedup)
  next
    case (Filtering m err e)
    let ?q = "await_filter J m err e c"
    have s': "s' = (rest, ?q)" using go_on.hyps(2) s Filtering by simp
    have "awaits J K (used, snd s0) ([], ?q)" using awaits.go_on [OF before] Filtering by simp
    moreover have "in_hand (snd ?q) = []" by (simp add: await_filter_def commits_commit)
    ultimately show ?thesis
      using used Filtering s s' com commits_filter [of J m err e c] by (intro exI [of _ used]) (auto simp: taken_so_far_def)
  qed
qed

text \<open>Calls that are complete, and then more.\<close>

lemma calls_consume_more:
  "calls J K iss c = Some (c1, rs) \<Longrightarrow>
   consume J K (replicate (length iss) id @ gs) (concat iss @ later) c =
     (let (es, c2, rest) = consume J K gs later c1 in (delivered rs @ es, c2, rest))"
proof (induction iss arbitrary: c rs)
  case (Cons i iss)
  from Cons.prems obtain c0 r where ne: "next_event J K i c = Some (c0, [], r)"
    by (auto split: option.splits prod.splits list.splits)
  then obtain rs1 where rec: "calls J K iss c0 = Some (c1, rs1)" and rs: "rs = r # rs1"
    using Cons.prems by auto
  have "next_event J K (i @ concat iss @ later) c = Some (c0, concat iss @ later, r)" using next_event_more [OF ne] by simp
  with Cons.IH [OF rec] rs show ?case by (auto simp: Let_def split: sum.split option.split prod.split)
qed simp

lemma calls_commits: "calls J K iss c = Some (c', rs) \<Longrightarrow> commits c' = commits c @ offsets_of (concat iss)"
proof (induction iss arbitrary: c rs)
  case (Cons i iss)
  from Cons.prems obtain c1 r where ne: "next_event J K i c = Some (c1, [], r)"
    by (auto split: option.splits prod.splits list.splits)
  with Cons obtain rs1 where "calls J K iss c1 = Some (c', rs1)" by auto
  from Cons.IH [OF this] next_event_commits [OF ne] show ?case by auto
qed simp

text \<open>What a call has handled when it is dropped gives no event.\<close>

lemma dropped_facts:
  assumes "awaits J K (is, await_top c) (rest, c', ph)" "\<forall>r. ph \<noteq> Ready r"
  shows "\<exists>handled pend. is = handled @ pend @ rest \<and> offsets_of pend = in_hand ph \<and> length pend \<le> 1
    \<and> commits c' = commits c @ offsets_of handled
    \<and> (case next_event J K handled c of None \<Rightarrow> True | Some (_, left, r) \<Rightarrow> r = Inr None)"
proof -
  obtain used where used: "is = used @ rest" "taken_so_far J K (await_top c) used (c', ph)"
    using awaits_taken [OF assms(1)] by auto
  have run: "awaits J K (used, await_top c) ([], c', ph)"
    and com: "commits c' @ in_hand ph = commits c @ offsets_of used"
    and hand: "in_hand ph \<noteq> [] \<longrightarrow> (\<exists>handled m err g c0. used = handled @ [Received m err g] \<and> in_hand ph = [km_offset m]
              \<and> awaits J K (handled, await_top c) ([], c0, Receiving))"
    using used(2) by (simp_all add: taken_so_far_def commits_top)
  show ?thesis
  proof (cases "in_hand ph = []")
    case True
    then have "ph = Sleeping \<or> ph = Receiving" using assms(2) by (cases ph) auto
    then have "case next_event J K used c of None \<Rightarrow> True | Some (_, left, r) \<Rightarrow> r = Inr None"
    proof
      assume "ph = Sleeping"
      then have "awaits J K (used, await_top c) ([], c', Ready (Inr None))" using awaits.go_on [OF run] by simp
      then have "next_event J K used c = Some (c', [], Inr None)" by (simp add: awaits_next_event(1))
      then show ?thesis by simp
    next
      assume "ph = Receiving"
      then have "next_event J K used c = None" using run awaits_next_event(2) by blast
      then show ?thesis by simp
    qed
    then show ?thesis using used(1) com True by (intro exI [of _ used] exI [of _ "[]"]) simp
  next
    case False
    then obtain handled m err g c0 where h: "used = handled @ [Received m err g]" "in_hand ph = [km_offset m]"
      "awaits J K (handled, await_top c) ([], c0, Receiving)" using hand by blast
    have "next_event J K handled c = None" using h(3) awaits_next_event(2) by blast
    then show ?thesis
      using used(1) com h(1,2) by (intro exI [of _ handled] exI [of _ "[Received m err g]"]) simp
  qed
qed

section \<open>Properties\<close>

text \<open>
  C6. Dropping a call of \<open>next_event\<close> at any of its awaits, as Ctrl-C does to the service and to the
  applications after any number of calls, loses no event: of the messages taken from Kafka each has
  been handed to \<open>commit\<close>, in order, but at most the one in hand; and one call more on exactly the
  committed messages delivers nothing beyond what the calls before had returned, so that no committed
  message holds an event that was not returned. The message in hand is not committed.
\<close>

theorem interruption_loses_nothing:
  assumes "calls J K iss c0 = Some (c, rs)" "awaits J K (is, await_top c) (rest, c', ph)" "\<forall>r. ph \<noteq> Ready r"
  shows "\<exists>handled pend. is = handled @ pend @ rest \<and> length pend \<le> 1 \<and> offsets_of pend = in_hand ph
    \<and> commits c' = commits c0 @ offsets_of (concat iss @ handled)
    \<and> fst (consume J K (replicate (Suc (length iss)) id) (concat iss @ handled) c0) = delivered rs"
proof -
  obtain handled pend where h: "is = handled @ pend @ rest" "offsets_of pend = in_hand ph" "length pend \<le> 1"
    "commits c' = commits c @ offsets_of handled"
    "case next_event J K handled c of None \<Rightarrow> True | Some (_, left, r) \<Rightarrow> r = Inr None"
    using dropped_facts [OF assms(2,3)] by blast
  have "commits c = commits c0 @ offsets_of (concat iss)" by (rule calls_commits [OF assms(1)])
  moreover have "fst (consume J K (replicate (Suc (length iss)) id) (concat iss @ handled) c0) = delivered rs"
  proof -
    have "replicate (Suc (length iss)) id = replicate (length iss) (id :: resource_manager \<Rightarrow> resource_manager) @ [id]"
      by (simp only: replicate_append_same replicate.simps)
    then show ?thesis
      using calls_consume_more [OF assms(1), of "[id]" handled] h(5)
      by (auto simp: Let_def split: option.splits prod.splits)
  qed
  ultimately show ?thesis using h by (intro exI [of _ handled] exI [of _ pend]) simp
qed

text \<open>
  \<open>next_event\<close> at its awaits is \<open>next_event\<close>: a call returns a result exactly if it comes to it from
  await to await, with the same consumer and the same answers of Kafka left; and otherwise it comes
  to \<open>recv\<close> with all answers taken. In particular every call ends or waits for Kafka.
\<close>

theorem next_event_at_awaits:
  "(next_event J K is c = Some (c', rest, r) \<longleftrightarrow> awaits J K (is, await_top c) (rest, c', Ready r))
    \<and> (next_event J K is c = None \<longleftrightarrow> (\<exists>c'. awaits J K (is, await_top c) ([], c', Receiving)))"
  by (simp only: awaits_next_event)

section \<open>Witness\<close>

text \<open>A call dropped with its message in hand, which is then not committed.\<close>

theorem interruption_loses_nothing_witness:
  "\<exists>c' e. awaits json_tree sample_codecs ([Received sample_message None id], await_top sample_consumer)
       ([], c', Deduplicating sample_message None e)
     \<and> commits c' = []"
proof -
  have idle: "sc_resources sample_consumer = resource_manager_new (sample_limits 10)"
    by (simp add: sample_consumer_def stream_consumer_new_def)
  obtain c1 where c1: "await_top sample_consumer = (c1, Receiving)"
    using that sample_pre_receive [OF idle] by (simp add: await_top_def)
  obtain e where e: "decode_event json_tree sample_codecs (km_topic sample_message)
      (decompress_safe (lz4_decode sample_codecs) (gzip_decode sample_codecs) [1, 2, 3]) = Some (Inr e)"
    using sample_decoded by blast
  have p: "km_payload sample_message = Some [1, 2, 3]" by (simp add: sample_message_def)
  let ?c2 = "c1\<lparr>sc_resources := id (sc_resources c1)\<rparr>"
  have "resume json_tree sample_codecs ([Received sample_message None id], c1, Receiving)
      = Some ([], ?c2, Deduplicating sample_message None e)"
    by (simp add: await_received_def p e)
  from awaits.go_on [OF awaits.start this]
  have run: "awaits json_tree sample_codecs ([Received sample_message None id], await_top sample_consumer)
      ([], ?c2, Deduplicating sample_message None e)"
    unfolding c1 .
  have none: "calls json_tree sample_codecs [] sample_consumer = Some (sample_consumer, [])" by simp
  have "\<forall>r. Deduplicating sample_message None e \<noteq> Ready r" by simp
  from interruption_loses_nothing [OF none run this] obtain handled pend where
    "[Received sample_message None id] = handled @ pend" "offsets_of pend = [km_offset sample_message]"
    "commits ?c2 = commits sample_consumer @ offsets_of handled" by auto
  moreover from this(1,2) have "handled = []" by (cases handled) auto
  moreover have "commits sample_consumer = []" by (simp add: sample_consumer_def stream_consumer_new_def)
  ultimately have "commits ?c2 = []" by simp
  with run show ?thesis by blast
qed

end
