(* ===== verification/ServiceAwaits.thy ===== *)
theory ServiceAwaits
  imports Service Awaits
begin

text \<open>
  src/main.rs: the loop of \<open>run_service\<close> cut at its awaits, where the \<open>select!\<close> of \<open>start_service\<close> drops
  it when Ctrl-C or the end of the HTTP server task comes first: those of \<open>next_event\<close>, the locks of the
  metrics registry and the sleep after an error. \<open>Service\<close> has the same loop turn by turn.
\<close>

section \<open>The loop and its awaits\<close>

text \<open>
  A counter is looked up under the read lock and, when it is new, inserted under the write lock. So is a
  histogram; when it is there, the sample is pushed under its own lock, with the map still locked.
\<close>

datatype 'j service_await =
    InNextEvent "'j awaiting"
  | CountingEvent | InsertingEvent
  | RecordingDuration | SamplingDuration | InsertingDuration
  | CountingError | InsertingError
  | SleepingAfterError

text \<open>The task: the answers Kafka will give, the service, its await, and the events it got, a history.\<close>

record ('j, 'ec, 'bc, 'w) service_task =
  st_inputs :: "kafka_input list"
  st_service :: "('j, 'ec, 'bc, 'w) service"
  st_await :: "'j service_await"
  st_received :: "'j solana_event list"

abbreviation st_consumer :: "('j, 'ec, 'bc, 'w) service_task \<Rightarrow> 'j stream_consumer" where
  "st_consumer u \<equiv> cl_consumer (sv_client (st_service u))"

definition st_put :: "'j stream_consumer \<Rightarrow> ('j, 'ec, 'bc, 'w) service_task \<Rightarrow> ('j, 'ec, 'bc, 'w) service_task" where
  "st_put c u = u\<lparr>st_service := (st_service u)\<lparr>sv_client := put_consumer c (sv_client (st_service u))\<rparr>\<rparr>"

definition st_registry ::
  "(metrics_registry \<Rightarrow> metrics_registry) \<Rightarrow> ('j, 'ec, 'bc, 'w) service_task \<Rightarrow> ('j, 'ec, 'bc, 'w) service_task" where
  "st_registry f u = u\<lparr>st_service := (st_service u)\<lparr>sv_registry := f (sv_registry (st_service u))\<rparr>\<rparr>"

text \<open>The head of the loop, up to the first await of \<open>next_event\<close>.\<close>

definition service_top :: "('j, 'ec, 'bc, 'w) service_task \<Rightarrow> ('j, 'ec, 'bc, 'w) service_task" where
  "service_top u = (case await_top (st_consumer u) of (c, ph) \<Rightarrow> (st_put c u)\<lparr>st_await := InNextEvent ph\<rparr>)"

definition service_got ::
  "sdk_error + 'j solana_event option \<Rightarrow> ('j, 'ec, 'bc, 'w) service_task \<Rightarrow> ('j, 'ec, 'bc, 'w) service_task" where
  "service_got r u =
     (case r of
        Inr (Some event) \<Rightarrow> u\<lparr>st_await := CountingEvent, st_received := st_received u @ [event]\<rparr>
      | Inr None \<Rightarrow> service_top u
      | Inl e \<Rightarrow> u\<lparr>st_await := CountingError\<rparr>)"

definition service_count ::
  "string \<Rightarrow> 'j service_await \<Rightarrow> 'j service_await \<Rightarrow> ('j, 'ec, 'bc, 'w) service_task \<Rightarrow> ('j, 'ec, 'bc, 'w) service_task" where
  "service_count name missing found u =
     (case increment_read name 1 (sv_registry (st_service u)) of
        Some r \<Rightarrow> (st_registry (\<lambda>_. r) u)\<lparr>st_await := found\<rparr>
      | None \<Rightarrow> u\<lparr>st_await := missing\<rparr>)"

definition start_error_sleep :: "('j, 'ec, 'bc, 'w) service_task \<Rightarrow> ('j, 'ec, 'bc, 'w) service_task" where
  "start_error_sleep u =
     (if st_await u = SleepingAfterError
      then u\<lparr>st_service := (st_service u)\<lparr>sv_slept := sv_slept (st_service u) @ [from_secs 1]\<rparr>\<rparr> else u)"

definition service_resume ::
  "'j json_ops \<Rightarrow> codecs \<Rightarrow> ('j, 'ec, 'bc, 'w) service_task \<Rightarrow> ('j, 'ec, 'bc, 'w) service_task option" where
  "service_resume J K u =
     (case st_await u of
        InNextEvent ph \<Rightarrow>
          (case resume J K (st_inputs u, st_consumer u, ph) of
             None \<Rightarrow> None
           | Some (is, c, Ready r) \<Rightarrow> Some (service_got r (st_put c (u\<lparr>st_inputs := is\<rparr>)))
           | Some (is, c, ph') \<Rightarrow> Some ((st_put c (u\<lparr>st_inputs := is\<rparr>))\<lparr>st_await := InNextEvent ph'\<rparr>))
      | CountingEvent \<Rightarrow> Some (service_count ''events_processed'' InsertingEvent RecordingDuration u)
      | InsertingEvent \<Rightarrow>
          Some ((st_registry (increment_insert ''events_processed'' 1) u)\<lparr>st_await := RecordingDuration\<rparr>)
      | RecordingDuration \<Rightarrow>
          Some (u\<lparr>st_await :=
            (case histograms (sv_registry (st_service u)) ''event_processing_duration'' of
               Some _ \<Rightarrow> SamplingDuration | None \<Rightarrow> InsertingDuration)\<rparr>)
      | SamplingDuration \<Rightarrow>
          map_option (\<lambda>r. service_top (st_registry (\<lambda>_. r) u))
            (histogram_push ''event_processing_duration'' (f_lit (1 / 10)) (sv_registry (st_service u)))
      | InsertingDuration \<Rightarrow>
          Some (service_top (st_registry (histogram_insert ''event_processing_duration'' (f_lit (1 / 10))) u))
      | CountingError \<Rightarrow>
          Some (start_error_sleep (service_count ''processing_errors'' InsertingError SleepingAfterError u))
      | InsertingError \<Rightarrow>
          Some (start_error_sleep
            ((st_registry (increment_insert ''processing_errors'' 1) u)\<lparr>st_await := SleepingAfterError\<rparr>))
      | SleepingAfterError \<Rightarrow> Some (service_top u))"

text \<open>The loop of a service that has begun.\<close>

definition service_loop_start ::
  "kafka_input list \<Rightarrow> ('j, 'ec, 'bc, 'w) service \<Rightarrow> ('j, 'ec, 'bc, 'w) service_task" where
  "service_loop_start is s =
     service_top \<lparr>st_inputs = is, st_service = s, st_await = InNextEvent Sleeping, st_received = []\<rparr>"

inductive service_awaits ::
  "'j json_ops \<Rightarrow> codecs \<Rightarrow> ('j, 'ec, 'bc, 'w) service_task \<Rightarrow> ('j, 'ec, 'bc, 'w) service_task \<Rightarrow> bool" for J K u0 where
  at_start: "service_awaits J K u0 u0"
| goes_on: "service_awaits J K u0 u \<Longrightarrow> service_resume J K u = Some u' \<Longrightarrow> service_awaits J K u0 u'"

section \<open>What the loop has done\<close>

text \<open>Completed calls, and where the one after them stands.\<close>

definition calls_then ::
  "'j json_ops \<Rightarrow> codecs \<Rightarrow> kafka_input list \<Rightarrow> 'j stream_consumer \<Rightarrow> (sdk_error + 'j solana_event option) list
   \<Rightarrow> ('j, 'ec, 'bc, 'w) service_task \<Rightarrow> bool" where
  "calls_then J K is0 c0 rs u \<longleftrightarrow>
     (\<exists>iss is c. is0 = concat iss @ is \<and> calls J K iss c0 = Some (c, rs)
       \<and> (case st_await u of
            InNextEvent ph \<Rightarrow> awaits J K (is, await_top c) (st_inputs u, st_consumer u, ph) \<and> (\<forall>r. ph \<noteq> Ready r)
          | _ \<Rightarrow> st_inputs u = is \<and> st_consumer u = c))"

lemma st_put_simps [simp]:
  "st_consumer (st_put c u) = c" "st_inputs (st_put c u) = st_inputs u" "st_await (st_put c u) = st_await u"
  "st_received (st_put c u) = st_received u" "sv_registry (st_service (st_put c u)) = sv_registry (st_service u)"
  by (simp_all add: st_put_def put_consumer_def)

lemma st_registry_simps [simp]:
  "st_consumer (st_registry f u) = st_consumer u" "st_inputs (st_registry f u) = st_inputs u"
  "st_received (st_registry f u) = st_received u" "sv_registry (st_service (st_registry f u)) = f (sv_registry (st_service u))"
  by (simp_all add: st_registry_def)

lemma start_error_sleep_simps [simp]:
  "st_consumer (start_error_sleep u) = st_consumer u" "st_inputs (start_error_sleep u) = st_inputs u"
  "st_await (start_error_sleep u) = st_await u" "st_received (start_error_sleep u) = st_received u"
  "sv_registry (st_service (start_error_sleep u)) = sv_registry (st_service u)"
  by (simp_all add: start_error_sleep_def)

lemma service_top_simps [simp]:
  "st_inputs (service_top u) = st_inputs u" "st_received (service_top u) = st_received u"
  "sv_registry (st_service (service_top u)) = sv_registry (st_service u)"
  by (simp_all add: service_top_def split: prod.split)

lemma await_top_unready: "await_top c = (c', ph) \<Longrightarrow> ph \<noteq> Ready r"
  by (auto simp: await_top_def split: sum.splits)

lemma calls_then_top:
  assumes "is0 = concat iss @ st_inputs u" "calls J K iss c0 = Some (st_consumer u, rs)"
  shows "calls_then J K is0 c0 rs (service_top u)"
proof -
  obtain c ph where top: "await_top (st_consumer u) = (c, ph)" by fastforce
  then have "awaits J K (st_inputs u, await_top (st_consumer u)) (st_inputs u, c, ph)"
    by (simp add: awaits.start)
  then show ?thesis
    using assms top await_top_unready [OF top] unfolding calls_then_def service_top_def
    by (intro exI [of _ iss] exI [of _ "st_inputs u"] exI [of _ "st_consumer u"]) simp
qed

text \<open>A call that returns has taken a prefix of the answers.\<close>

lemma awaits_returned:
  assumes "awaits J K (is, await_top c) (rest, c', Ready r)"
  obtains used where "is = used @ rest" "next_event J K used c = Some (c', [], r)"
proof -
  from awaits_taken [OF assms] obtain used where "is = used @ rest" "awaits J K (used, await_top c) ([], c', Ready r)"
    by (auto simp: taken_so_far_def)
  then show ?thesis using that by (simp add: awaits_next_event(1))
qed

lemma calls_then_got:
  assumes "is0 = concat iss @ is" "calls J K iss c0 = Some (c, rs)"
    and "awaits J K (is, await_top c) (st_inputs u, st_consumer u, Ready r)"
  shows "calls_then J K is0 c0 (rs @ [r]) (service_got r u)"
proof -
  obtain used where used: "is = used @ st_inputs u" "next_event J K used c = Some (st_consumer u, [], r)"
    using assms(3) by (rule awaits_returned)
  have all: "is0 = concat (iss @ [used]) @ st_inputs u" "calls J K (iss @ [used]) c0 = Some (st_consumer u, rs @ [r])"
    using assms(1) used(1) calls_snoc [OF assms(2) used(2)] by simp_all
  show ?thesis
  proof (cases "r = Inr None")
    case True
    then show ?thesis using calls_then_top [OF all] by (simp add: service_got_def)
  next
    case False
    then have "\<exists>ph. st_await (service_got r u) = ph \<and> (\<forall>q. ph \<noteq> InNextEvent q)"
      "st_inputs (service_got r u) = st_inputs u" "st_consumer (service_got r u) = st_consumer u"
      by (auto simp: service_got_def split: sum.split option.split)
    then show ?thesis
      using all unfolding calls_then_def
      by (intro exI [of _ "iss @ [used]"] exI [of _ "st_inputs u"] exI [of _ "st_consumer u"])
         (auto split: service_await.split)
  qed
qed

lemma calls_then_idle:
  assumes "calls_then J K is0 c0 rs u" "\<And>ph. st_await u \<noteq> InNextEvent ph"
    and "st_inputs u' = st_inputs u" "st_consumer u' = st_consumer u"
  shows "calls_then J K is0 c0 rs (service_top u')"
    and "(\<And>ph. st_await u' \<noteq> InNextEvent ph) \<Longrightarrow> calls_then J K is0 c0 rs u'"
proof -
  obtain iss where c: "is0 = concat iss @ st_inputs u'" "calls J K iss c0 = Some (st_consumer u', rs)"
    using assms unfolding calls_then_def by (cases "st_await u") auto
  show "calls_then J K is0 c0 rs (service_top u')" by (rule calls_then_top [OF c])
  show "(\<And>ph. st_await u' \<noteq> InNextEvent ph) \<Longrightarrow> calls_then J K is0 c0 rs u'"
    using c unfolding calls_then_def by (cases "st_await u'") auto
qed

text \<open>
  What is counted and sampled at each await: an event is counted after it is received, an error after
  its call, and a sample is taken after the count. Before the insertion of a counter or a histogram there
  is none.
\<close>

fun uncounted_event :: "'j service_await \<Rightarrow> nat" where
  "uncounted_event CountingEvent = 1"
| "uncounted_event InsertingEvent = 1"
| "uncounted_event _ = 0"

fun unsampled_event :: "'j service_await \<Rightarrow> nat" where
  "unsampled_event CountingEvent = 1"
| "unsampled_event InsertingEvent = 1"
| "unsampled_event RecordingDuration = 1"
| "unsampled_event SamplingDuration = 1"
| "unsampled_event InsertingDuration = 1"
| "unsampled_event _ = 0"

fun uncounted_error :: "'j service_await \<Rightarrow> nat" where
  "uncounted_error CountingError = 1"
| "uncounted_error InsertingError = 1"
| "uncounted_error _ = 0"

definition samples :: "string \<Rightarrow> metrics_registry \<Rightarrow> nat" where
  "samples name r = (case histograms r name of Some d \<Rightarrow> length (hd_values d) | None \<Rightarrow> 0)"

definition books ::
  "(sdk_error + 'j solana_event option) list \<Rightarrow> 'j service_await \<Rightarrow> metrics_registry \<Rightarrow> bool" where
  "books rs ph r \<longleftrightarrow>
     get_counter ''events_processed'' r + of_nat (uncounted_event ph) = of_nat (length (delivered rs))
     \<and> get_counter ''processing_errors'' r + of_nat (uncounted_error ph) = of_nat (length (errors rs))
     \<and> samples ''event_processing_duration'' r + unsampled_event ph = length (delivered rs)
     \<and> (ph = InsertingEvent \<longrightarrow> counters r ''events_processed'' = None)
     \<and> (ph = InsertingDuration \<longrightarrow> histograms r ''event_processing_duration'' = None)
     \<and> (ph = InsertingError \<longrightarrow> counters r ''processing_errors'' = None)"

lemma increment_read_some:
  "increment_read name v r = Some r' \<Longrightarrow>
     get_counter n r' = (if n = name then get_counter n r + v else get_counter n r) \<and> samples n r' = samples n r"
  by (auto simp: increment_read_def get_counter_def samples_def split: option.splits)

lemma increment_insert_new:
  "counters r name = None \<Longrightarrow>
     get_counter n (increment_insert name v r) = (if n = name then get_counter n r + v else get_counter n r)
     \<and> samples n (increment_insert name v r) = samples n r"
  by (simp add: increment_insert_def get_counter_def samples_def)

lemma histogram_push_some:
  "histogram_push name x r = Some r' \<Longrightarrow>
     get_counter n r' = get_counter n r \<and> samples n r' = (if n = name then samples n r + 1 else samples n r)"
  by (auto simp: histogram_push_def get_counter_def samples_def split: option.splits)

lemma histogram_insert_new:
  "histograms r name = None \<Longrightarrow>
     get_counter n (histogram_insert name x r) = get_counter n r
     \<and> samples n (histogram_insert name x r) = (if n = name then samples n r + 1 else samples n r)"
  by (simp add: histogram_insert_def get_counter_def samples_def)

definition service_inv ::
  "'j json_ops \<Rightarrow> codecs \<Rightarrow> kafka_input list \<Rightarrow> 'j stream_consumer \<Rightarrow> ('j, 'ec, 'bc, 'w) service_task \<Rightarrow> bool" where
  "service_inv J K is0 c0 u \<longleftrightarrow>
     (\<exists>rs. calls_then J K is0 c0 rs u \<and> st_received u = delivered rs
       \<and> books rs (st_await u) (sv_registry (st_service u)))"

lemma top_await: "\<exists>ph. st_await (service_top u) = InNextEvent ph"
  by (simp add: service_top_def split: prod.split)

lemma books_got:
  assumes "books rs (InNextEvent ph) r"
  shows "books (rs @ [Inr (Some e)]) CountingEvent r" "books (rs @ [Inl x]) CountingError r"
    "books (rs @ [Inr None]) (InNextEvent ph') r"
  using assms by (simp_all add: books_def)

lemma books_next: "books rs (InNextEvent ph) r \<Longrightarrow> books rs (InNextEvent ph') r"
  by (simp add: books_def)

lemma inv_next_event:
  assumes "service_inv J K is0 c0 u" "st_await u = InNextEvent ph" "service_resume J K u = Some u'"
  shows "service_inv J K is0 c0 u'"
proof -
  obtain rs iss "is" c where rs: "is0 = concat iss @ is" "calls J K iss c0 = Some (c, rs)"
    "awaits J K (is, await_top c) (st_inputs u, st_consumer u, ph)" "st_received u = delivered rs"
    "books rs (InNextEvent ph) (sv_registry (st_service u))"
    using assms(1,2) by (auto simp: service_inv_def calls_then_def)
  obtain is1 c1 ph1 where r: "resume J K (st_inputs u, st_consumer u, ph) = Some (is1, c1, ph1)"
    using assms(2,3) by (cases "resume J K (st_inputs u, st_consumer u, ph)") (auto simp: service_resume_def)
  note run = awaits.go_on [OF rs(3) r]
  let ?u = "st_put c1 (u\<lparr>st_inputs := is1\<rparr>)"
  show ?thesis
  proof (cases "\<exists>x. ph1 = Ready x")
    case True
    then obtain x where x: "ph1 = Ready x" by blast
    then have u': "u' = service_got x ?u" using assms(2,3) r by (simp add: service_resume_def)
    have "calls_then J K is0 c0 (rs @ [x]) u'"
      unfolding u' by (rule calls_then_got [OF rs(1,2)]) (use run x in simp)
    moreover have "st_received u' = delivered (rs @ [x])"
      by (auto simp: u' service_got_def rs(4) split: sum.split option.split)
    moreover have "books (rs @ [x]) (st_await u') (sv_registry (st_service u'))"
      using books_got [OF rs(5)] top_await [of ?u]
      by (auto simp: u' service_got_def split: sum.split option.split)
    ultimately show ?thesis unfolding service_inv_def by blast
  next
    case False
    then have u': "u' = ?u\<lparr>st_await := InNextEvent ph1\<rparr>"
      using assms(2,3) r by (auto simp: service_resume_def split: awaiting.splits)
    then have "calls_then J K is0 c0 rs u'"
      using rs(1,2) run False unfolding calls_then_def
      by (intro exI [of _ iss] exI [of _ "is"] exI [of _ c]) simp
    then show ?thesis
      using rs(4) books_next [OF rs(5)] u' unfolding service_inv_def by (intro exI [of _ rs]) simp
  qed
qed

text \<open>The steps of the loop's body touch neither the consumer nor the answers.\<close>

lemma service_count_frame:
  "st_inputs (service_count name missing found u) = st_inputs u" "st_consumer (service_count name missing found u) = st_consumer u"
  "st_received (service_count name missing found u) = st_received u"
  by (simp_all add: service_count_def split: option.split)

lemma service_count_cases:
  obtains r where "increment_read name 1 (sv_registry (st_service u)) = Some r"
    "sv_registry (st_service (service_count name missing found u)) = r" "st_await (service_count name missing found u) = found"
  | "counters (sv_registry (st_service u)) name = None" "sv_registry (st_service (service_count name missing found u)) = sv_registry (st_service u)"
    "st_await (service_count name missing found u) = missing"
proof (cases "increment_read name 1 (sv_registry (st_service u))")
  case None
  then have "counters (sv_registry (st_service u)) name = None" by (simp add: increment_read_def split: option.splits)
  with None that(2) show ?thesis by (simp add: service_count_def)
next
  case (Some r)
  with that(1) show ?thesis by (simp add: service_count_def)
qed

lemma inv_body:
  assumes "calls_then J K is0 c0 rs u" "st_received u = delivered rs" "\<And>ph. st_await u \<noteq> InNextEvent ph"
    and "st_inputs u' = st_inputs u" "st_consumer u' = st_consumer u" "st_received u' = st_received u"
  shows "(\<And>ph. st_await u' \<noteq> InNextEvent ph) \<Longrightarrow> books rs (st_await u') (sv_registry (st_service u')) \<Longrightarrow> service_inv J K is0 c0 u'"
    and "(\<And>ph. books rs (InNextEvent ph) (sv_registry (st_service u'))) \<Longrightarrow> service_inv J K is0 c0 (service_top u')"
proof -
  show "service_inv J K is0 c0 u'" if "\<And>ph. st_await u' \<noteq> InNextEvent ph" "books rs (st_await u') (sv_registry (st_service u'))"
    using calls_then_idle(2) [OF assms(1,3,4,5) that(1)] that(2) assms(2,6) unfolding service_inv_def by auto
  show "service_inv J K is0 c0 (service_top u')" if "\<And>ph. books rs (InNextEvent ph) (sv_registry (st_service u'))"
    using calls_then_idle(1) [OF assms(1,3,4,5)] that top_await [of u'] assms(2,6) unfolding service_inv_def by auto
qed

lemma books_steps:
  "books rs CountingEvent r \<Longrightarrow> increment_read ''events_processed'' 1 r = Some r' \<Longrightarrow> books rs RecordingDuration r'"
  "books rs CountingEvent r \<Longrightarrow> counters r ''events_processed'' = None \<Longrightarrow> books rs InsertingEvent r"
  "books rs InsertingEvent r \<Longrightarrow> books rs RecordingDuration (increment_insert ''events_processed'' 1 r)"
  "books rs RecordingDuration r \<Longrightarrow> books rs SamplingDuration r"
  "books rs RecordingDuration r \<Longrightarrow> histograms r ''event_processing_duration'' = None \<Longrightarrow> books rs InsertingDuration r"
  "books rs SamplingDuration r \<Longrightarrow> histogram_push ''event_processing_duration'' x r = Some r' \<Longrightarrow> books rs (InNextEvent ph) r'"
  "books rs InsertingDuration r \<Longrightarrow> books rs (InNextEvent ph) (histogram_insert ''event_processing_duration'' x r)"
  "books rs CountingError r \<Longrightarrow> increment_read ''processing_errors'' 1 r = Some r' \<Longrightarrow> books rs SleepingAfterError r'"
  "books rs CountingError r \<Longrightarrow> counters r ''processing_errors'' = None \<Longrightarrow> books rs InsertingError r"
  "books rs InsertingError r \<Longrightarrow> books rs SleepingAfterError (increment_insert ''processing_errors'' 1 r)"
  "books rs SleepingAfterError r \<Longrightarrow> books rs (InNextEvent ph) r"
  by (simp_all add: books_def increment_read_some increment_insert_new histogram_push_some histogram_insert_new)

lemma inv_resume:
  assumes "service_inv J K is0 c0 u" "service_resume J K u = Some u'"
  shows "service_inv J K is0 c0 u'"
proof (cases "\<exists>ph. st_await u = InNextEvent ph")
  case True
  then show ?thesis using assms inv_next_event by blast
next
  case False
  then have outside: "\<And>ph. st_await u \<noteq> InNextEvent ph" by blast
  obtain rs where rs: "calls_then J K is0 c0 rs u" "st_received u = delivered rs"
    "books rs (st_await u) (sv_registry (st_service u))"
    using assms(1) unfolding service_inv_def by blast
  note body = inv_body [OF rs(1,2) outside]
  show ?thesis
  proof (cases "st_await u")
    case (InNextEvent ph)
    then show ?thesis using outside by blast
  next
    case CountingEvent
    then have u': "u' = service_count ''events_processed'' InsertingEvent RecordingDuration u"
      using assms(2) by (simp add: service_resume_def)
    show ?thesis
      unfolding u'
      by (rule service_count_cases [of "''events_processed''" u InsertingEvent RecordingDuration];
          rule body(1); use rs(3) CountingEvent books_steps(1,2) in \<open>simp add: service_count_frame\<close>)
  next
    case InsertingEvent
    then have u': "u' = (st_registry (increment_insert ''events_processed'' 1) u)\<lparr>st_await := RecordingDuration\<rparr>"
      using assms(2) by (simp add: service_resume_def)
    show ?thesis unfolding u' by (rule body(1)) (use rs(3) InsertingEvent books_steps(3) in simp_all)
  next
    case RecordingDuration
    then have u': "u' = u\<lparr>st_await := (case histograms (sv_registry (st_service u)) ''event_processing_duration'' of
        Some _ \<Rightarrow> SamplingDuration | None \<Rightarrow> InsertingDuration)\<rparr>"
      using assms(2) by (simp add: service_resume_def)
    show ?thesis
      unfolding u' by (rule body(1)) (use rs(3) RecordingDuration in \<open>auto intro: books_steps(4,5) split: option.split\<close>)
  next
    case SamplingDuration
    then obtain r where u': "u' = service_top (st_registry (\<lambda>_. r) u)"
      and r: "histogram_push ''event_processing_duration'' (f_lit (1 / 10)) (sv_registry (st_service u)) = Some r"
      using assms(2) by (auto simp: service_resume_def)
    show ?thesis unfolding u' by (rule body(2)) (use rs(3) SamplingDuration books_steps(6) r in simp_all)
  next
    case InsertingDuration
    then have u': "u' = service_top (st_registry (histogram_insert ''event_processing_duration'' (f_lit (1 / 10))) u)"
      using assms(2) by (simp add: service_resume_def)
    show ?thesis unfolding u' by (rule body(2)) (use rs(3) InsertingDuration books_steps(7) in simp_all)
  next
    case CountingError
    then have u': "u' = start_error_sleep (service_count ''processing_errors'' InsertingError SleepingAfterError u)"
      using assms(2) by (simp add: service_resume_def)
    show ?thesis
      unfolding u'
      by (rule service_count_cases [of "''processing_errors''" u InsertingError SleepingAfterError];
          rule body(1); use rs(3) CountingError books_steps(8,9) in \<open>simp add: service_count_frame\<close>)
  next
    case InsertingError
    then have u': "u' = start_error_sleep
        ((st_registry (increment_insert ''processing_errors'' 1) u)\<lparr>st_await := SleepingAfterError\<rparr>)"
      using assms(2) by (simp add: service_resume_def)
    show ?thesis unfolding u' by (rule body(1)) (use rs(3) InsertingError books_steps(10) in simp_all)
  next
    case SleepingAfterError
    then have u': "u' = service_top u" using assms(2) by (simp add: service_resume_def)
    show ?thesis unfolding u' by (rule body(2)) (use rs(3) SleepingAfterError books_steps(11) in simp_all)
  qed
qed

lemma inv_start:
  assumes "get_counter ''events_processed'' (sv_registry s) = 0" "get_counter ''processing_errors'' (sv_registry s) = 0"
    and "histograms (sv_registry s) ''event_processing_duration'' = None"
  shows "service_inv J K is (cl_consumer (sv_client s)) (service_loop_start is s)"
proof -
  let ?u = "\<lparr>st_inputs = is, st_service = s, st_await = InNextEvent Sleeping, st_received = []\<rparr>"
  have "calls_then J K is (cl_consumer (sv_client s)) [] (service_top ?u)"
    by (rule calls_then_top [of _ "[]"]) simp_all
  then show ?thesis
    using assms top_await [of ?u] unfolding service_inv_def service_loop_start_def
    by (intro exI [of _ "[]"]) (auto simp: books_def samples_def)
qed

lemma inv_awaits: "service_awaits J K u0 u \<Longrightarrow> service_inv J K is0 c0 u0 \<Longrightarrow> service_inv J K is0 c0 u"
  by (induction rule: service_awaits.induct) (auto intro: inv_resume)

section \<open>Whole turns\<close>

text \<open>A call of \<open>next_event\<close>, lifted to the task.\<close>

lemma st_put_put [simp]: "st_put c (st_put c' u) = st_put c u"
  by (cases "cl_batch (sv_client (st_service u))") (auto simp: st_put_def put_consumer_def)

lemma st_put_more [simp]: "st_put c (u\<lparr>st_inputs := is\<rparr>) = (st_put c u)\<lparr>st_inputs := is\<rparr>"
  "st_put c (u\<lparr>st_await := ph\<rparr>) = (st_put c u)\<lparr>st_await := ph\<rparr>"
  by (simp_all add: st_put_def)

lemma unready_back: "resume J K s = Some s' \<Longrightarrow> snd (snd s) \<noteq> Ready r"
  by (cases "(J, K, s)" rule: resume.cases) auto

lemma awaits_lifted:
  "awaits J K p q \<Longrightarrow> p = (st_inputs u, await_top (st_consumer u)) \<Longrightarrow> (\<And>r. snd (snd q) \<noteq> Ready r) \<Longrightarrow>
   service_awaits J K (service_top u)
     ((st_put (fst (snd q)) u)\<lparr>st_inputs := fst q, st_await := InNextEvent (snd (snd q))\<rparr>)"
proof (induction rule: awaits.induct)
  case start
  then show ?case
    using service_awaits.at_start [of J K "service_top u"]
    by (cases "await_top (st_consumer u)") (simp add: service_top_def, metis st_put_simps(2) service_task.surjective service_task.update_convs(1))
next
  case (go_on q q')
  obtain "is" c ph where q: "q = (is, c, ph)" by (cases q)
  obtain is' c' ph' where q': "q' = (is', c', ph')" by (cases q')
  let ?v = "(st_put c u)\<lparr>st_inputs := is, st_await := InNextEvent ph\<rparr>"
  have "service_awaits J K (service_top u) ?v"
    using go_on.IH [OF go_on.prems(1)] unready_back [OF go_on.hyps(2)] q by simp
  moreover have "service_resume J K ?v = Some ((st_put c' u)\<lparr>st_inputs := is', st_await := InNextEvent ph'\<rparr>)"
  proof -
    have "\<nexists>r. ph' = Ready r" using go_on.prems(2) q' by simp
    then show ?thesis using go_on.hyps(2) q q' by (cases ph') (simp_all add: service_resume_def)
  qed
  ultimately show ?case using service_awaits.goes_on q' by fastforce
qed

lemma awaits_trans_service:
  "service_awaits J K u1 u2 \<Longrightarrow> service_awaits J K u0 u1 \<Longrightarrow> service_awaits J K u0 u2"
  by (induction rule: service_awaits.induct) (auto intro: service_awaits.goes_on)

lemma await_top_last:
  assumes "awaits J K s0 (rest, c', Ready r)" "snd (snd s0) \<noteq> Ready r"
  obtains s where "awaits J K s0 s" "resume J K s = Some (rest, c', Ready r)"
  using assms by (cases rule: awaits.cases) auto

text \<open>A call that returns, and what the body does with its result.\<close>

lemma call_lifted:
  assumes "next_event J K (st_inputs u) (st_consumer u) = Some (c', rest, r)"
  shows "service_awaits J K (service_top u) (service_got r ((st_put c' u)\<lparr>st_inputs := rest, st_await := InNextEvent ph\<rparr>))"
proof -
  have run: "awaits J K (st_inputs u, await_top (st_consumer u)) (rest, c', Ready r)"
    using assms by (simp add: awaits_next_event(1))
  have unready: "snd (snd (st_inputs u, await_top (st_consumer u))) \<noteq> Ready r"
    using await_top_unready by (metis prod.collapse snd_conv)
  obtain q where q: "awaits J K (st_inputs u, await_top (st_consumer u)) q" "resume J K q = Some (rest, c', Ready r)"
    by (rule await_top_last [OF run unready])
  obtain "is" c qh where q_is: "q = (is, c, qh)" by (cases q)
  let ?v = "(st_put c u)\<lparr>st_inputs := is, st_await := InNextEvent qh\<rparr>"
  have "service_awaits J K (service_top u) ?v"
    using awaits_lifted [OF q(1) refl] unready_back [OF q(2)] q_is by simp
  moreover have "service_resume J K ?v = Some (service_got r ((st_put c' u)\<lparr>st_inputs := rest, st_await := InNextEvent qh\<rparr>))"
    using q(2) q_is by (simp add: service_resume_def) (rule arg_cong [where f = "service_got r"], simp)
  moreover have "service_got r ((st_put c' u)\<lparr>st_inputs := rest, st_await := InNextEvent qh\<rparr>)
      = service_got r ((st_put c' u)\<lparr>st_inputs := rest, st_await := InNextEvent ph\<rparr>)"
    by (auto simp: service_got_def service_top_def st_put_def split: sum.split option.split prod.split)
  ultimately show ?thesis using service_awaits.goes_on by metis
qed

lemma counted:
  assumes "st_await u = CountingEvent"
  shows "service_awaits J K u ((st_registry (increment_counter ''events_processed'' 1) u)\<lparr>st_await := RecordingDuration\<rparr>)"
proof -
  have first: "service_awaits J K u (service_count ''events_processed'' InsertingEvent RecordingDuration u)"
    using assms by (intro service_awaits.goes_on [OF service_awaits.at_start]) (simp add: service_resume_def)
  show ?thesis
  proof (cases "increment_read ''events_processed'' 1 (sv_registry (st_service u))")
    case None
    then show ?thesis
      using first service_awaits.goes_on [OF first]
      by (simp add: service_count_def increment_counter_def service_resume_def st_registry_def)
  next
    case (Some r)
    then show ?thesis using first by (simp add: service_count_def increment_counter_def st_registry_def)
  qed
qed

lemma error_counted:
  assumes "st_await u = CountingError"
  shows "service_awaits J K u (start_error_sleep
    ((st_registry (increment_counter ''processing_errors'' 1) u)\<lparr>st_await := SleepingAfterError\<rparr>))"
proof -
  let ?m = "service_count ''processing_errors'' InsertingError SleepingAfterError u"
  have first: "service_awaits J K u (start_error_sleep ?m)"
    using assms by (intro service_awaits.goes_on [OF service_awaits.at_start]) (simp add: service_resume_def)
  show ?thesis
  proof (cases "increment_read ''processing_errors'' 1 (sv_registry (st_service u))")
    case None
    then show ?thesis
      using first service_awaits.goes_on [OF first]
      by (simp add: service_count_def increment_counter_def service_resume_def st_registry_def start_error_sleep_def)
  next
    case (Some r)
    then show ?thesis using first by (simp add: service_count_def increment_counter_def st_registry_def)
  qed
qed

lemma sampled:
  assumes "st_await u = RecordingDuration"
  shows "service_awaits J K u (service_top (st_registry (record_histogram ''event_processing_duration'' (f_lit (1 / 10))) u))"
proof (cases "histograms (sv_registry (st_service u)) ''event_processing_duration''")
  case None
  have "service_awaits J K u (u\<lparr>st_await := InsertingDuration\<rparr>)"
    using assms None by (intro service_awaits.goes_on [OF service_awaits.at_start]) (simp add: service_resume_def)
  from service_awaits.goes_on [OF this] show ?thesis
    using None by (simp add: service_resume_def service_top_def st_registry_def st_put_def histogram_defs split: prod.split)
next
  case (Some d)
  have "service_awaits J K u (u\<lparr>st_await := SamplingDuration\<rparr>)"
    using assms Some by (intro service_awaits.goes_on [OF service_awaits.at_start]) (simp add: service_resume_def)
  from service_awaits.goes_on [OF this] show ?thesis
    using Some by (simp add: service_resume_def service_top_def st_registry_def st_put_def histogram_defs split: prod.split)
qed

lemma body_lifted:
  assumes "st_await u = InNextEvent ph"
  shows "service_awaits J K (service_got r u)
    (service_top (u\<lparr>st_service := service_result r (st_service u), st_received := st_received u @ delivered [r]\<rparr>))"
proof (cases r)
  case (Inl e)
  let ?u = "service_got r u"
  let ?w = "start_error_sleep ((st_registry (increment_counter ''processing_errors'' 1) ?u)\<lparr>st_await := SleepingAfterError\<rparr>)"
  have "service_awaits J K ?u ?w" by (rule error_counted) (simp add: Inl service_got_def)
  moreover have "service_resume J K ?w = Some (service_top ?w)" by (simp add: service_resume_def)
  moreover have "service_top ?w
      = service_top (u\<lparr>st_service := service_result r (st_service u), st_received := st_received u @ delivered [r]\<rparr>)"
    by (simp add: Inl service_got_def service_top_def start_error_sleep_def st_registry_def service_result_def st_put_def
        split: prod.split)
  ultimately show ?thesis using service_awaits.goes_on by metis
next
  case (Inr o_event)
  show ?thesis
  proof (cases o_event)
    case None
    then show ?thesis by (simp add: Inr service_got_def service_result_def service_awaits.at_start)
  next
    case (Some e)
    let ?u = "service_got r u"
    let ?w = "(st_registry (increment_counter ''events_processed'' 1) ?u)\<lparr>st_await := RecordingDuration\<rparr>"
    have "service_awaits J K ?u ?w" by (rule counted) (simp add: Inr Some service_got_def)
    from awaits_trans_service [OF sampled this]
    have "service_awaits J K ?u (service_top (st_registry (record_histogram ''event_processing_duration'' (f_lit (1 / 10))) ?w))"
      by simp
    moreover have "service_top (st_registry (record_histogram ''event_processing_duration'' (f_lit (1 / 10))) ?w)
      = service_top (u\<lparr>st_service := service_result r (st_service u), st_received := st_received u @ delivered [r]\<rparr>)"
      by (simp add: Inr Some service_got_def service_top_def st_registry_def service_result_def st_put_def
          split: prod.split)
    ultimately show ?thesis by metis
  qed
qed

text \<open>The turns of \<open>Service\<close> are runs of the loop at its awaits.\<close>

theorem service_turns_at_awaits:
  assumes "service_run J K n (st_inputs u) (st_service u) = (s', rest, rs, False)"
  shows "service_awaits J K (service_top u)
    (service_top (u\<lparr>st_inputs := rest, st_service := s', st_received := st_received u @ delivered rs\<rparr>))"
  using assms
proof (induction n arbitrary: u rs)
  case 0
  then have "u\<lparr>st_inputs := rest, st_service := s', st_received := st_received u @ delivered rs\<rparr> = u" by auto
  then show ?case by (simp add: service_awaits.at_start)
next
  case (Suc n)
  show ?case
  proof (cases "next_event J K (st_inputs u) (st_consumer u)")
    case None
    then show ?thesis using Suc.prems by (simp add: client_next_event_def)
  next
    case (Some p)
    then obtain c1 rest1 r where ne: "next_event J K (st_inputs u) (st_consumer u) = Some (c1, rest1, r)"
      by (cases p) simp
    let ?s1 = "service_result r (st_service (st_put c1 u))"
    obtain rs1 where rec: "service_run J K n rest1 ?s1 = (s', rest, rs1, False)" and rs: "rs = r # rs1"
      using Suc.prems ne by (auto simp: client_next_event_def st_put_def split: prod.splits)
    define v where "v = (st_put c1 u)\<lparr>st_inputs := rest1, st_await := InNextEvent Sleeping\<rparr>"
    define w where "w = v\<lparr>st_service := service_result r (st_service v), st_received := st_received v @ delivered [r]\<rparr>"
    have "service_awaits J K (service_top u) (service_top w)"
      unfolding w_def v_def by (rule awaits_trans_service [OF body_lifted call_lifted [OF ne]]) simp
    moreover have "st_inputs w = rest1" "st_service w = ?s1" by (simp_all add: w_def v_def)
    with Suc.IH [of w rs1] rec have "service_awaits J K (service_top w)
        (service_top (w\<lparr>st_inputs := rest, st_service := s', st_received := st_received w @ delivered rs1\<rparr>))"
      by metis
    moreover have "service_top (w\<lparr>st_inputs := rest, st_service := s', st_received := st_received w @ delivered rs1\<rparr>)
      = service_top (u\<lparr>st_inputs := rest, st_service := s', st_received := st_received u @ delivered rs\<rparr>)"
    proof -
      have "st_received w @ delivered rs1 = st_received u @ delivered rs" by (simp add: w_def v_def rs)
      then show ?thesis by (simp add: service_top_def st_put_def w_def v_def split: prod.split)
    qed
    ultimately show ?thesis using awaits_trans_service by metis
  qed
qed

section \<open>Property\<close>

lemma service_interrupted_facts:
  assumes "start_service J ex create subscribe env t cfg = Inr s0"
    and "service_awaits J K (service_loop_start is (service_begin J version clocks now text s0)) u"
  obtains iss handled pend c rs where "is = concat iss @ handled @ pend @ st_inputs u" "length pend \<le> 1"
    "calls J K iss (cl_consumer (sv_client s0)) = Some (c, rs)"
    "\<forall>c' left r. next_event J K handled c = Some (c', left, r) \<longrightarrow> r = Inr None"
    "commits (st_consumer u) = offsets_of (concat iss @ handled)"
    "fst (consume J K (replicate (Suc (length iss)) id) (concat iss @ handled) (cl_consumer (sv_client s0))) = st_received u"
    "st_received u = delivered rs" "books rs (st_await u) (sv_registry (st_service u))"
proof -
  let ?s = "service_begin J version clocks now text s0"
  let ?c0 = "cl_consumer (sv_client s0)"
  have c0: "cl_consumer (sv_client ?s) = ?c0" "commits ?c0 = []"
    using started(1) [OF assms(1)] by (simp_all add: service_begin_def stream_consumer_new_def)
  have new: "get_counter ''events_processed'' (sv_registry ?s) = 0" "get_counter ''processing_errors'' (sv_registry ?s) = 0"
    "histograms (sv_registry ?s) ''event_processing_duration'' = None"
    using started(3) [OF assms(1)]
    by (simp_all add: service_begin_def increment_counter_def increment_read_def increment_insert_def registry_new_def
        get_counter_def)
  have "service_inv J K is ?c0 u" using inv_awaits [OF assms(2)] inv_start [OF new] c0(1) by metis
  then obtain rs iss cur c where inv: "is = concat iss @ cur" "calls J K iss ?c0 = Some (c, rs)"
    "st_received u = delivered rs" "books rs (st_await u) (sv_registry (st_service u))"
    and at: "case st_await u of
        InNextEvent ph \<Rightarrow> awaits J K (cur, await_top c) (st_inputs u, st_consumer u, ph) \<and> (\<forall>r. ph \<noteq> Ready r)
      | _ \<Rightarrow> st_inputs u = cur \<and> st_consumer u = c"
    unfolding service_inv_def calls_then_def by blast
  have com: "commits c = offsets_of (concat iss)" using calls_commits [OF inv(2)] c0(2) by simp
  have "\<exists>handled pend. cur = handled @ pend @ st_inputs u \<and> length pend \<le> 1
      \<and> commits (st_consumer u) = commits c @ offsets_of handled
      \<and> (case next_event J K handled c of None \<Rightarrow> True | Some (_, left, r) \<Rightarrow> r = Inr None)"
  proof (cases "\<exists>ph. st_await u = InNextEvent ph")
    case True
    then obtain ph where "awaits J K (cur, await_top c) (st_inputs u, st_consumer u, ph)" "\<forall>r. ph \<noteq> Ready r"
      using at by auto
    from dropped_facts [OF this] show ?thesis by blast
  next
    case False
    then have "st_inputs u = cur" "st_consumer u = c" using at by (auto split: service_await.splits)
    then show ?thesis
      by (intro exI [of _ "[]"]) (auto split: sum.split)
  qed
  then obtain handled pend where h: "cur = handled @ pend @ st_inputs u" "length pend \<le> 1"
    "commits (st_consumer u) = commits c @ offsets_of handled"
    "case next_event J K handled c of None \<Rightarrow> True | Some (_, left, r) \<Rightarrow> r = Inr None"
    by blast
  have "fst (consume J K (replicate (length iss) id @ [id]) (concat iss @ handled) ?c0) = delivered rs"
    using calls_consume_more [OF inv(2), of "[id]" handled] h(4)
    by (auto simp: Let_def split: option.splits prod.splits)
  then have "fst (consume J K (replicate (Suc (length iss)) id) (concat iss @ handled) ?c0) = st_received u"
    by (simp only: replicate_append_same [symmetric] replicate.simps inv(3))
  then show ?thesis
    using that [of iss handled pend c rs] inv h com by (auto split: option.splits)
qed

text \<open>
  C11. The service can be interrupted at any await of its loop, those within \<open>next_event\<close> and those of the
  registry included, and loses no event: the messages taken from Kafka are committed, in order, but at
  most the one in hand, and calls on exactly the committed messages deliver exactly the events the loop
  got. The metrics it leaves are exact but for what the loop was busy with: the results of the completed
  calls of \<open>next_event\<close>, on the answers that each of them consumed, are the events and the errors to be
  counted, the call under way has nothing to return but a pause, and the counters of events and of errors
  and the samples taken fall short of those results by one at most, at the awaits before the count or the
  sample.
\<close>

theorem service_interrupted:
  assumes "start_service J ex create subscribe env t cfg = Inr s0"
    and "service_awaits J K (service_loop_start is (service_begin J version clocks now text s0)) u"
  shows "\<exists>iss handled pend c rs. is = concat iss @ handled @ pend @ st_inputs u \<and> length pend \<le> 1
    \<and> commits (st_consumer u) = offsets_of (concat iss @ handled)
    \<and> fst (consume J K (replicate (Suc (length iss)) id) (concat iss @ handled) (cl_consumer (sv_client s0))) = st_received u
    \<and> calls J K iss (cl_consumer (sv_client s0)) = Some (c, rs) \<and> st_received u = delivered rs
    \<and> (\<forall>c' left r. next_event J K handled c = Some (c', left, r) \<longrightarrow> r = Inr None)
    \<and> get_counter ''events_processed'' (sv_registry (st_service u)) + of_nat (uncounted_event (st_await u))
        = of_nat (length (st_received u))
    \<and> get_counter ''processing_errors'' (sv_registry (st_service u)) + of_nat (uncounted_error (st_await u))
        = of_nat (length (errors rs))
    \<and> samples ''event_processing_duration'' (sv_registry (st_service u)) + unsampled_event (st_await u)
        = length (st_received u)"
proof -
  obtain iss handled pend c rs where r: "is = concat iss @ handled @ pend @ st_inputs u" "length pend \<le> 1"
    "calls J K iss (cl_consumer (sv_client s0)) = Some (c, rs)"
    "\<forall>c' left r. next_event J K handled c = Some (c', left, r) \<longrightarrow> r = Inr None"
    "commits (st_consumer u) = offsets_of (concat iss @ handled)"
    "fst (consume J K (replicate (Suc (length iss)) id) (concat iss @ handled) (cl_consumer (sv_client s0))) = st_received u"
    "st_received u = delivered rs" "books rs (st_await u) (sv_registry (st_service u))"
    by (rule service_interrupted_facts [OF assms])
  from r(8) have "get_counter ''events_processed'' (sv_registry (st_service u)) + of_nat (uncounted_event (st_await u))
        = of_nat (length (st_received u))"
    "get_counter ''processing_errors'' (sv_registry (st_service u)) + of_nat (uncounted_error (st_await u))
        = of_nat (length (errors rs))"
    "samples ''event_processing_duration'' (sv_registry (st_service u)) + unsampled_event (st_await u)
        = length (st_received u)"
    by (simp_all only: books_def r(7))
  with r(1-7) show ?thesis by blast
qed

section \<open>Witness\<close>

text \<open>Interrupted after an event is received and before it is counted.\<close>

lemma sample_call:
  "\<exists>c' e. next_event json_tree sample_codecs [Received sample_message None id] sample_consumer
     = Some (c', [], Inr (Some e))"
proof -
  have rm: "sc_resources sample_consumer = resource_manager_new (sample_limits 10)"
    and f: "active_event_filter sample_consumer = None"
    by (simp_all add: sample_consumer_def stream_consumer_new_def)
  obtain c1 e where c1: "internal_process_kafka_message json_tree sample_codecs sample_message sample_consumer
     = (c1, Inr (Some e))"
    using sample_internal by blast
  then have "active_event_filter c1 = None" using internal_frame(2) [OF c1] f by simp
  with c1 have h: "handle_message json_tree sample_codecs sample_message None sample_consumer
      = (fst (commit_kafka_offset None sample_message c1), Return (Inr (Some e)))"
    by (simp add: handle_message_def commit_then_def commit_kafka_offset_def)
  have same: "sample_consumer\<lparr>sc_resources := id (sc_resources sample_consumer)\<rparr> = sample_consumer" by simp
  show ?thesis by (simp add: sample_pre_receive [OF rm] h same del: id_apply)
qed

theorem service_interrupted_witness:
  "\<exists>(s0 :: sample_service) u e.
     service_awaits json_tree sample_codecs (service_loop_start [Received sample_message None id]
       (service_begin json_tree ''0.1.0'' (replicate 3 (0, 0)) 0 ''now'' s0)) u
     \<and> st_received u = [e] \<and> get_counter ''events_processed'' (sv_registry (st_service u)) = 0"
proof -
  obtain s0 :: sample_service where s0: "start_service json_tree (\<lambda>_. False) (\<lambda>_. Inr ()) (\<lambda>_. Inr ()) Map.empty 0 sample_config = Inr s0"
    using sample_start_service by blast
  let ?s = "service_begin json_tree ''0.1.0'' (replicate 3 (0, 0)) 0 ''now'' s0"
  let ?u = "\<lparr>st_inputs = [Received sample_message None id], st_service = ?s, st_await = InNextEvent Sleeping, st_received = []\<rparr>"
  have "start_overrides Map.empty sample_config = sample_config"
    by (simp add: start_overrides_def override_defs override_def)
  then have "cl_consumer (sv_client ?s) = sample_consumer"
    using started(1) [OF s0] by (simp add: service_begin_def sample_consumer_def sample_config_def)
  then obtain c' e where "next_event json_tree sample_codecs (st_inputs ?u) (st_consumer ?u) = Some (c', [], Inr (Some e))"
    using sample_call by auto
  from call_lifted [OF this, of Sleeping] obtain u where
    u: "service_awaits json_tree sample_codecs (service_loop_start [Received sample_message None id] ?s) u"
    "st_received u = [e]" "st_await u = CountingEvent"
    by (auto simp: service_loop_start_def service_got_def)
  from service_interrupted [OF s0 u(1)] have "get_counter ''events_processed'' (sv_registry (st_service u)) = 0"
    using u(2,3) by auto
  with u(1,2) show ?thesis by blast
qed

end
