(* ===== verification/Shutdown.thy ===== *)
theory Shutdown
  imports Client Pipeline "HOL-Library.Sublist" "HOL-Library.Multiset"
begin

text \<open>
  The end of the batch pipeline of src/batch_processor.rs and src/client.rs: what is still under way in
  it and how much that can be, that it drains once the event channel is closed, also around workers that
  have died, and the ledger of a client's run: every event that was committed and handed to the loop is
  processed, left behind by a panic, or at risk.
\<close>

section \<open>What is under way\<close>

fun worker_rest :: "'e worker \<Rightarrow> 'e list" where
  "worker_rest (Working n rest ok fail) = rest"
| "worker_rest _ = []"

definition unprocessed ::
  "('ec \<Rightarrow> 'e list) \<Rightarrow> ('bc \<Rightarrow> 'e list list) \<Rightarrow> ('e, 'ec, 'bc, 'w) batch_processor \<Rightarrow> 'e list" where
  "unprocessed econt bcont b =
     concat (map worker_rest (workers b)) @ concat (bcont (batch_channel b))
       @ pending_batch (collector_mode (collector b)) @ current_batch (collector b) @ econt (event_channel b)"

lemma length_concat_le: "(\<And>x. x \<in> set xs \<Longrightarrow> length (f x) \<le> n) \<Longrightarrow> length (concat (map f xs)) \<le> length xs * n"
proof (induction xs)
  case (Cons x xs)
  then have "length (f x) \<le> n" "length (concat (map f xs)) \<le> length xs * n" by simp_all
  then show ?case by simp
qed simp

section \<open>Room in the channels\<close>

definition batch_queue_capacity :: "processing_config \<Rightarrow> nat" where
  "batch_queue_capacity cfg = unat (max (parallel_workers cfg * 2) 10)"

lemma queue_capacity_pos: "0 < batch_queue_capacity cfg"
proof -
  have "(10 :: usize) \<le> max (parallel_workers cfg * 2) 10" by (rule max.cobounded2)
  then show ?thesis by (simp add: batch_queue_capacity_def word_le_nat_alt)
qed

context batch_channels
begin

text \<open>
  The channels keep their capacity, a worker has no more to do than its batch, and a collector that
  is about to stop, or has, finds nothing more to receive, unless the workers have died.
\<close>

definition roomy :: "nat \<Rightarrow> nat \<Rightarrow> ('j, 'ec, 'bc, 'w) bp \<Rightarrow> bool" where
  "roomy Q C s \<longleftrightarrow>
     ecap (event_channel s) = Q \<and> length (econt (event_channel s)) \<le> Q
     \<and> bcap (batch_channel s) = C \<and> length (bcont (batch_channel s)) \<le> C
     \<and> (\<forall>w \<in> set (workers s). length (worker_rest w) \<le> worker_load w)
     \<and> (collector_mode (collector s) = Stopped \<or> (\<exists>b. collector_mode (collector s) = Sending FinalBatch b) \<longrightarrow>
          ch_closed E (event_channel s) \<and> (econt (event_channel s) = [] \<or> list_all is_dead (workers s)))"

lemma roomy_new:
  assumes "queue_size \<noteq> 0"
  shows "roomy (unat queue_size) (batch_queue_capacity cfg) (batch_processor_new E B cfg rm queue_size now w)"
proof -
  have q: "0 < unat queue_size" using assms by (simp add: unat_gt_0)
  show ?thesis
    using ev.bounded [OF q] bt.bounded [OF queue_capacity_pos [of cfg]] bt.close_effect
    by (auto simp: roomy_def batch_processor_new_def batch_queue_capacity_def Let_def)
qed

lemma roomy_add:
  assumes "roomy Q C s" "add_event E e s = Some (s', r)"
  shows "roomy Q C s'"
proof (cases "ch_closed E (event_channel s)")
  case True
  then show ?thesis using assms by (simp add: add_event_def)
next
  case False
  then obtain c where c: "ch_send E e (event_channel s) = Some c"
    and s': "s' = s\<lparr>event_channel := c, accepted := accepted s @ [e]\<rparr>"
    using assms(2) by (auto simp: add_event_def split: option.splits)
  show ?thesis
    using assms(1) False ev.send_effect [OF c] unfolding s' roomy_def by auto
qed

lemma roomy_recv:
  assumes "roomy Q C s" "collector_recv E now nx s = Some s'"
  shows "roomy Q C s'"
proof -
  have mode: "collector_mode (collector s) = Collecting"
    using assms(2) by (simp add: collector_recv_def split: if_splits)
  show ?thesis
  proof (cases "ch_recv E (event_channel s)")
    case None
    then have "econt (event_channel s) = []" by (simp add: ev.recv_none)
    moreover have "s' = set_collector E (collector_on_closed (collector s)) s" "ch_closed E (event_channel s)"
      using assms(2) mode None by (simp_all add: collector_recv_def split: if_splits)
    ultimately show ?thesis
      using assms(1) ev.close_effect [of "event_channel s"]
      by (auto simp: roomy_def set_collector_def collector_on_closed_def)
  next
    case (Some p)
    then obtain e c where p: "ch_recv E (event_channel s) = Some (e, c)" by (cases p) simp
    then have s': "s' = s\<lparr>event_channel := c,
        collector := collector_on_event (unat (bp_batch_size s)) now nx e (collector s)\<rparr>"
      using assms(2) mode by (simp add: collector_recv_def set_collector_def collector_on_event_modes split: if_splits)
    show ?thesis
      using assms(1) mode ev.recv_effect [OF p] unfolding s' roomy_def
      by (auto simp: collector_on_event_modes split: if_splits)
  qed
qed

lemma roomy_send:
  assumes "bp_inv s" "roomy Q C s" "collector_send E B now nx s = Some s'"
  shows "roomy Q C s'"
proof -
  obtain reason batch where mode: "collector_mode (collector s) = Sending reason batch"
    using assms(3) by (auto simp: collector_send_def split: collector_mode.splits)
  note close = ev.close_effect [of "event_channel s"]
  show ?thesis
  proof (cases "ch_closed B (batch_channel s)")
    case True
    then have "list_all is_dead (workers s)" using assms(1) by (simp add: bp_inv_defs)
    moreover have "s' = set_collector E ((collector s)\<lparr>collector_mode := Stopped\<rparr>) (s\<lparr>lost := lost s @ batch\<rparr>)"
      using assms(3) mode True by (simp add: collector_send_def)
    ultimately show ?thesis
      using assms(2) close by (auto simp: roomy_def set_collector_def)
  next
    case False
    then obtain c where c: "ch_send B batch (batch_channel s) = Some c"
      and s': "s' = set_collector E (collector_sent now nx reason (collector s)) (s\<lparr>batch_channel := c\<rparr>)"
      using assms(3) mode by (auto simp: collector_send_def split: option.splits)
    show ?thesis
      using assms(2) mode bt.send_effect [OF c] close unfolding s'
      by (cases reason) (auto simp: roomy_def set_collector_def)
  qed
qed

lemma roomy_workers:
  assumes "roomy Q C s" "i < length (workers s)" "length (worker_rest wk) \<le> worker_load wk"
    and "\<not> is_dead (workers s ! i)"
  shows "roomy Q C (s\<lparr>workers := (workers s)[i := wk], bp_world := w, bp_resources := rm, taken := t\<rparr>)"
proof -
  have "\<not> list_all is_dead (workers s)" using assms(2,4) by (metis list_all_length)
  then show ?thesis
    using assms(1,3) by (auto simp: roomy_def dest!: set_update_subset_insert [THEN subsetD])
qed

lemma roomy_take:
  assumes "roomy Q C s" "worker_take B i s = Some s'"
  shows "roomy Q C s'"
proof -
  have i: "i < length (workers s)" "\<not> is_dead (workers s ! i)"
    using assms(2) by (auto simp: worker_take_def split: if_splits)
  show ?thesis
  proof (cases "ch_recv B (batch_channel s)")
    case None
    then have "s' = s\<lparr>workers := (workers s)[i := WorkerStopped]\<rparr>"
      using assms(2) by (simp add: worker_take_def split: if_splits)
    then show ?thesis
      using roomy_workers [OF assms(1) i(1) _ i(2), where wk = WorkerStopped and w = "bp_world s" and rm = "bp_resources s" and t = "taken s"] by simp
  next
    case (Some p)
    then obtain b c where p: "ch_recv B (batch_channel s) = Some (b, c)" by (cases p) simp
    obtain wk rm where start: "worker_start b (bp_resources s) = (wk, rm)" by fastforce
    then have fits: "length (worker_rest wk) \<le> worker_load wk" by (auto simp: worker_start_def split: if_splits)
    have "s' = s\<lparr>batch_channel := c, workers := (workers s)[i := wk], bp_resources := rm, taken := taken s @ [b]\<rparr>"
      using assms(2) p start by (simp add: worker_take_def split: if_splits)
    then show ?thesis
      using roomy_workers [OF assms(1) i(1) fits i(2), where w = "bp_world s" and rm = rm and t = "taken s @ [b]"] bt.recv_effect [OF p]
      by (simp add: roomy_def)
  qed
qed

lemma roomy_step:
  assumes "roomy Q C s" "worker_step B P i s = Some s'"
  shows "roomy Q C s'"
proof -
  obtain n es ok fail where w: "i < length (workers s)" "workers s ! i = Working n es ok fail"
    using assms(2) by (auto simp: worker_step_def split: if_splits worker.splits)
  have len: "length es \<le> n" using assms(1) w by (fastforce simp: roomy_def dest: nth_mem)
  show ?thesis
  proof (cases es)
    case Nil
    then show ?thesis
      using roomy_workers [OF assms(1) w(1), where wk = Idle and w = "bp_world s" and rm = "snd (worker_finish n (bp_resources s))" and t = "taken s"]
        assms(2) w by (simp add: worker_step_def worker_finish_def)
  next
    case (Cons e rest)
    obtain wk x where ev: "worker_event P n e rest ok fail (bp_world s) = (wk, x)" by fastforce
    then have fits: "length (worker_rest wk) \<le> worker_load wk"
      using len Cons by (auto simp: worker_event_def split: if_splits prod.splits completion.splits sum.splits)
    have "roomy Q C (s\<lparr>workers := (workers s)[i := wk], bp_world := x\<rparr>)"
      using roomy_workers [OF assms(1) w(1) fits, where w = x and rm = "bp_resources s" and t = "taken s"] w(2) by simp
    then show ?thesis
      using assms(2) w Cons ev bt.close_effect [of "batch_channel s"]
      by (auto simp: worker_step_def Let_def roomy_def split: if_splits)
  qed
qed

lemma roomy_exec:
  assumes "bp_inv s" "roomy Q C s" "bp_exec E B P op s = Some s'"
  shows "roomy Q C s'"
proof (cases op)
  case (CollectorTimeout now)
  then show ?thesis
    using assms(2,3) by (auto simp: collector_timeout_def collector_on_timeout_def roomy_def split: if_splits)
next
  case Shutdown
  then show ?thesis
    using assms(2,3) ev.close_effect [of "event_channel s"] by (auto simp: bp_shutdown_def roomy_def)
next
  case CheckResources
  then show ?thesis using assms(2,3) by (auto simp: roomy_def)
qed (use assms in \<open>auto intro: roomy_add roomy_recv roomy_send roomy_take roomy_step\<close>)

lemma roomy_reachable:
  assumes "bp_reachable E B P s0 s" "bp_inv s0" "roomy Q C s0"
  shows "roomy Q C s"
  using assms(1)
proof (induction rule: bp_reachable.induct)
  case (step s op s')
  then show ?case using roomy_exec inv_reachable [OF step.hyps(1) assms(2)] by blast
qed (rule assms(3))

text \<open>How much can be under way.\<close>

lemma unprocessed_bound:
  assumes "bp_inv s" "roomy Q C s"
  shows "length (unprocessed econt bcont s) \<le> Q + (length (workers s) + C + 1) * max 1 (unat (bp_batch_size s))"
proof -
  let ?M = "max 1 (unat (bp_batch_size s))"
  have load: "\<forall>w \<in> set (workers s). worker_load w \<le> ?M" using assms(1) by (simp add: bp_inv_defs)
  have "\<And>w. w \<in> set (workers s) \<Longrightarrow> length (worker_rest w) \<le> ?M"
    using assms(2) load by (fastforce simp: roomy_def)
  then have rest: "length (concat (map worker_rest (workers s))) \<le> length (workers s) * ?M" by (rule length_concat_le)
  have "\<And>b. b \<in> set (bcont (batch_channel s)) \<Longrightarrow> length (id b) \<le> ?M" using assms(1) by (simp add: bp_inv_defs)
  then have one: "length (concat (bcont (batch_channel s))) \<le> length (bcont (batch_channel s)) * ?M"
    using length_concat_le [of "bcont (batch_channel s)" id ?M] by (simp only: list.map_id)
  have two: "length (bcont (batch_channel s)) * ?M \<le> C * ?M"
    using assms(2) unfolding roomy_def by (intro mult_le_mono1) blast
  note waiting = le_trans [OF one two]
  have form: "length (pending_batch (collector_mode (collector s))) + length (current_batch (collector s)) \<le> ?M"
  proof (cases "collector_mode (collector s)")
    case (Sending r b)
    then show ?thesis using assms(1) by (auto simp: bp_inv_defs)
  qed (use assms(1) in \<open>auto simp: bp_inv_defs\<close>)
  have "length (econt (event_channel s)) \<le> Q" using assms(2) by (simp add: roomy_def)
  with rest waiting form show ?thesis
    unfolding unprocessed_def by (simp only: length_append add_mult_distrib mult_1)
qed

end

section \<open>Draining\<close>

fun is_work :: "'e bp_op \<Rightarrow> bool" where
  "is_work (CollectorRecv _ _) = True"
| "is_work (CollectorSend _ _) = True"
| "is_work (WorkerTake _) = True"
| "is_work (WorkerStep _) = True"
| "is_work _ = False"

text \<open>
  The steps that are left: an event is received, sent with its batch, taken with it, and processed; the
  collector stops, and a worker completes its batch.
\<close>

fun worker_todo :: "'e worker \<Rightarrow> nat" where
  "worker_todo (Working n rest ok fail) = length rest + 1"
| "worker_todo _ = 0"

definition work_left ::
  "('ec \<Rightarrow> 'e list) \<Rightarrow> ('bc \<Rightarrow> 'e list list) \<Rightarrow> ('e, 'ec, 'bc, 'w) batch_processor \<Rightarrow> nat" where
  "work_left econt bcont b =
     7 * length (econt (event_channel b)) + 6 * length (current_batch (collector b))
     + 5 * length (pending_batch (collector_mode (collector b)))
     + of_bool (collector_mode (collector b) = Collecting)
     + 3 * length (concat (bcont (batch_channel b))) + sum_list (map worker_todo (workers b))"

lemma todo_update:
  "i < length ws \<Longrightarrow>
   sum_list (map worker_todo (ws[i := x])) + worker_todo (ws ! i) = sum_list (map worker_todo ws) + worker_todo x"
proof (induction ws arbitrary: i)
  case (Cons y ws)
  then show ?case by (cases i) auto
qed simp

context batch_channels
begin

lemma work_recv:
  assumes "bp_inv s" "collector_recv E now nx s = Some s'"
  shows "work_left econt bcont s' < work_left econt bcont s"
proof -
  have mode: "collector_mode (collector s) = Collecting"
    using assms(2) by (simp add: collector_recv_def split: if_splits)
  show ?thesis
  proof (cases "ch_recv E (event_channel s)")
    case None
    then have "s' = set_collector E (collector_on_closed (collector s)) s"
      using assms(2) mode by (simp add: collector_recv_def split: if_splits)
    then show ?thesis
      using mode ev.close_effect [of "event_channel s"]
      by (auto simp: work_left_def set_collector_def collector_on_closed_def)
  next
    case (Some p)
    then obtain e c where p: "ch_recv E (event_channel s) = Some (e, c)" by (cases p) simp
    then have s': "s' = s\<lparr>event_channel := c,
        collector := collector_on_event (unat (bp_batch_size s)) now nx e (collector s)\<rparr>"
      using assms(2) mode by (simp add: collector_recv_def set_collector_def collector_on_event_modes split: if_splits)
    show ?thesis
      using mode ev.recv_effect [OF p] unfolding s' by (auto simp: work_left_def collector_on_event_modes)
  qed
qed

lemma work_send:
  assumes "bp_inv s" "collector_send E B now nx s = Some s'"
  shows "work_left econt bcont s' < work_left econt bcont s"
proof -
  obtain reason batch where mode: "collector_mode (collector s) = Sending reason batch"
    using assms(2) by (auto simp: collector_send_def split: collector_mode.splits)
  then have "batch \<noteq> []" using assms(1) by (auto simp: bp_inv_defs)
  then obtain e es where some: "batch = e # es" by (cases batch) simp_all
  note close = ev.close_effect [of "event_channel s"]
  show ?thesis
  proof (cases "ch_closed B (batch_channel s)")
    case True
    then have "s' = set_collector E ((collector s)\<lparr>collector_mode := Stopped\<rparr>) (s\<lparr>lost := lost s @ batch\<rparr>)"
      using assms(2) mode by (simp add: collector_send_def)
    then show ?thesis using mode some close by (simp add: work_left_def set_collector_def)
  next
    case False
    then obtain c where c: "ch_send B batch (batch_channel s) = Some c"
      and s': "s' = set_collector E (collector_sent now nx reason (collector s)) (s\<lparr>batch_channel := c\<rparr>)"
      using assms(2) mode by (auto simp: collector_send_def split: option.splits)
    show ?thesis
      using mode some bt.send_effect [OF c] close unfolding s'
      by (cases reason) (simp_all add: work_left_def set_collector_def)
  qed
qed

lemma work_take:
  assumes "bp_inv s" "worker_take B i s = Some s'"
  shows "work_left econt bcont s' < work_left econt bcont s"
proof -
  have i: "i < length (workers s)" "workers s ! i = Idle"
    using assms(2) by (auto simp: worker_take_def split: if_splits)
  then have "\<not> list_all is_dead (workers s)" by (metis is_dead.simps(2) list_all_length)
  then have "\<not> ch_closed B (batch_channel s)" using assms(1) by (auto simp: bp_inv_defs)
  then obtain b c where p: "ch_recv B (batch_channel s) = Some (b, c)"
    using assms(2) i by (auto simp: worker_take_def split: option.splits)
  then have b: "bcont (batch_channel s) = b # bcont c" "b \<noteq> []"
    using bt.recv_effect [OF p] assms(1) by (auto simp: bp_inv_defs)
  have s': "s' = s\<lparr>batch_channel := c, workers := (workers s)[i := Working (length b) b 0 0],
      bp_resources := start_processing (of_nat (length b)) (bp_resources s), taken := taken s @ [b]\<rparr>"
    using assms(2) i p b(2) by (simp add: worker_take_def worker_start_def)
  obtain e es where "b = e # es" using b(2) by (cases b) simp_all
  then show ?thesis
    using todo_update [OF i(1), of "Working (length b) b 0 0"] i(2) b(1) unfolding s' by (simp add: work_left_def)
qed

lemma work_step:
  assumes "worker_step B P i s = Some s'"
  shows "work_left econt bcont s' < work_left econt bcont s"
proof -
  obtain n es ok fail where w: "i < length (workers s)" "workers s ! i = Working n es ok fail"
    using assms by (auto simp: worker_step_def split: if_splits worker.splits)
  show ?thesis
  proof (cases es)
    case Nil
    then have "s' = s\<lparr>workers := (workers s)[i := Idle], bp_resources := complete_processing (of_nat n) (bp_resources s)\<rparr>"
      using assms w by (simp add: worker_step_def worker_finish_def)
    then show ?thesis using todo_update [OF w(1), of Idle] w(2) Nil by (simp add: work_left_def)
  next
    case (Cons e rest)
    obtain wk x where ev: "worker_event P n e rest ok fail (bp_world s) = (wk, x)" by fastforce
    then have less: "worker_todo wk < worker_todo (workers s ! i)"
      using w(2) Cons by (auto simp: worker_event_def split: if_splits prod.splits completion.splits sum.splits)
    have "workers s' = (workers s)[i := wk]" "event_channel s' = event_channel s" "collector s' = collector s"
      "bcont (batch_channel s') = bcont (batch_channel s)"
      using assms w Cons ev bt.close_effect [of "batch_channel s"]
      by (auto simp: worker_step_def Let_def split: if_splits)
    then show ?thesis using todo_update [OF w(1), of wk] less by (simp add: work_left_def)
  qed
qed

lemma work_exec:
  "bp_inv s \<Longrightarrow> is_work op \<Longrightarrow> bp_exec E B P op s = Some s' \<Longrightarrow> work_left econt bcont s' < work_left econt bcont s"
  by (cases op) (auto intro: work_recv work_send work_take work_step)

text \<open>What is closed stays closed.\<close>

lemma closed_exec:
  assumes "is_work op" "bp_exec E B P op s = Some s'" "ch_closed E (event_channel s)"
  shows "ch_closed E (event_channel s') \<and> accepted s' = accepted s"
proof (cases op)
  case (CollectorRecv t u)
  then have r: "collector_recv E t u s = Some s'" using assms(2) by simp
  show ?thesis
  proof (cases "ch_recv E (event_channel s)")
    case None
    then show ?thesis
      using r assms(3) ev.close_effect [of "event_channel s"]
      by (auto simp: collector_recv_def set_collector_def split: if_splits)
  next
    case (Some p)
    then obtain e c where p: "ch_recv E (event_channel s) = Some (e, c)" by (cases p) simp
    then show ?thesis
      using r assms(3) ev.recv_effect [OF p] ev.close_effect [of c]
      by (auto simp: collector_recv_def set_collector_def split: if_splits)
  qed
next
  case (CollectorSend t u)
  then show ?thesis
    using assms(2,3) ev.close_effect [of "event_channel s"]
    by (auto simp: collector_send_def set_collector_def split: if_splits option.splits collector_mode.splits)
next
  case (WorkerTake i)
  then show ?thesis using assms(2,3) by (auto simp: worker_take_def split: if_splits option.splits prod.splits)
next
  case (WorkerStep i)
  then show ?thesis
    using assms(2,3) by (auto simp: worker_step_def Let_def split: if_splits worker.splits list.splits prod.splits)
qed (use assms(1) in simp_all)

text \<open>
  At rest a worker waits idle or has died of a panic. While the channel is closed, a worker lives and
  something is left, some task can go on.
\<close>

lemma rest_worker:
  assumes "bp_inv s" "\<And>op. is_work op \<Longrightarrow> bp_exec E B P op s = None" "w \<in> set (workers s)"
  shows "w = Idle \<or> is_dead w"
proof -
  obtain i where i: "i < length (workers s)" "workers s ! i = w" using assms(3) by (auto simp: in_set_conv_nth)
  have "w \<noteq> WorkerStopped" using assms(1,3) by (auto simp: bp_inv_defs)
  moreover have "w \<noteq> Working n es ok fail" for n es ok fail
    using assms(2) [of "WorkerStep i"] i by (auto simp: worker_step_def Let_def split: list.splits prod.splits if_splits)
  ultimately show ?thesis by (cases w) auto
qed

lemma stuck_drained:
  assumes "bp_inv s" "roomy Q C s" "0 < C" "ch_closed E (event_channel s)" "\<not> list_all is_dead (workers s)"
    and stuck: "\<And>op. is_work op \<Longrightarrow> bp_exec E B P op s = None"
  shows "unprocessed econt bcont s = [] \<and> concat (taken s) = accepted s"
proof -
  note living = assms(5)
  have open_: "\<not> ch_closed B (batch_channel s)" and lost: "lost s = []"
    using assms(1) living by (auto simp: bp_inv_defs)
  note rest = rest_worker [OF assms(1) stuck]
  obtain i where i: "i < length (workers s)" "workers s ! i = Idle"
    using living rest by (metis list_all_iff in_set_conv_nth)
  have batches: "bcont (batch_channel s) = []"
    using stuck [of "WorkerTake i"] i bt.recv_none [of "batch_channel s"]
    by (auto simp: worker_take_def split: option.splits prod.splits)
  have "collector_mode (collector s) \<noteq> Collecting"
    using stuck [of "CollectorRecv 0 0"] assms(4) by (auto simp: collector_recv_def split: option.splits prod.splits)
  moreover have "collector_mode (collector s) \<noteq> Sending reason b" for reason b
  proof
    assume mode: "collector_mode (collector s) = Sending reason b"
    have "length (bcont (batch_channel s)) < bcap (batch_channel s)" using batches assms(2,3) by (simp add: roomy_def)
    then obtain c where "ch_send B b (batch_channel s) = Some c" using bt.send_room [OF open_] by blast
    then show False using stuck [of "CollectorSend 0 0"] mode open_ by (simp add: collector_send_def)
  qed
  ultimately have mode: "collector_mode (collector s) = Stopped" by (cases "collector_mode (collector s)") auto
  then have "econt (event_channel s) = []" "current_batch (collector s) = []"
    using assms(1,2) living by (auto simp: roomy_def bp_inv_defs)
  moreover have "worker_rest w = []" if "w \<in> set (workers s)" for w using rest [OF _ that] by (cases w) auto
  then have "concat (map worker_rest (workers s)) = []" by (simp add: concat_eq_Nil_conv)
  ultimately have "unprocessed econt bcont s = []" using batches mode by (simp add: unprocessed_def)
  moreover have "concat (taken s) = accepted s"
    using assms(1) batches lost mode \<open>econt _ = []\<close> \<open>current_batch _ = []\<close> by (simp add: bp_inv_defs)
  ultimately show ?thesis by blast
qed

lemma run_exec:
  assumes "bp_run E B P ops s = Some s'" "list_all is_work ops" "bp_inv s" "roomy Q C s"
    and "ch_closed E (event_channel s)"
  shows "length ops + work_left econt bcont s' \<le> work_left econt bcont s
    \<and> bp_inv s' \<and> roomy Q C s' \<and> ch_closed E (event_channel s') \<and> accepted s' = accepted s"
  using assms
proof (induction ops arbitrary: s)
  case (Cons op ops)
  then obtain s1 where s1: "bp_exec E B P op s = Some s1" "bp_run E B P ops s1 = Some s'"
    by (auto simp: bind_eq_Some_conv simp del: bp_exec.simps)
  have op: "is_work op" using Cons.prems(2) by simp
  note step = inv_exec [OF Cons.prems(3) s1(1)] roomy_exec [OF Cons.prems(3,4) s1(1)]
    closed_exec [OF op s1(1) Cons.prems(5)]
  have "work_left econt bcont s1 < work_left econt bcont s" by (rule work_exec [OF Cons.prems(3) op s1(1)])
  moreover have "length ops + work_left econt bcont s' \<le> work_left econt bcont s1
      \<and> bp_inv s' \<and> roomy Q C s' \<and> ch_closed E (event_channel s') \<and> accepted s' = accepted s1"
    by (rule Cons.IH [OF s1(2)]) (use Cons.prems(2) step in simp_all)
  ultimately show ?case using step by simp
qed simp

end

section \<open>Properties\<close>

lemma batch_roomy:
  assumes "batch_channels E econt ecap B bcont bcap" "queue_size \<noteq> 0" "messages_in_flight rm = 0"
    and "bp_reachable E B P (batch_processor_new E B cfg rm queue_size now w) s"
  shows "batch_channels.roomy E econt ecap bcont bcap (unat queue_size) (batch_queue_capacity cfg) s"
  by (rule batch_channels.roomy_reachable [OF assms(1,4) batch_channels.inv_new [OF assms(1-3)]
        batch_channels.roomy_new [OF assms(1,2)]])

section \<open>The ledger of a run\<close>

text \<open>
  What the steps of a run do: the events that the loop receives, with the offsets of their messages; those
  that the workers process, be it with success, with an error, with a panic or because they are not
  wanted; and those that a panic leaves behind in its batch.
\<close>

fun history :: "('op \<Rightarrow> 's \<Rightarrow> 'a list) \<Rightarrow> ('op \<Rightarrow> 's \<Rightarrow> 's option) \<Rightarrow> 'op list \<Rightarrow> 's \<Rightarrow> 'a list" where
  "history f exec [] s = []"
| "history f exec (op # ops) s = f op s @ (case exec op s of Some s' \<Rightarrow> history f exec ops s' | None \<Rightarrow> [])"

fun bp_processed :: "'e bp_op \<Rightarrow> ('e, 'ec, 'bc, 'w) batch_processor \<Rightarrow> 'e list" where
  "bp_processed (WorkerStep i) b = (case workers b ! i of Working n (e # rest) ok fail \<Rightarrow> [e] | _ \<Rightarrow> [])"
| "bp_processed _ b = []"

fun bp_abandoned :: "('j, 'w) event_processor \<Rightarrow> 'j solana_event bp_op \<Rightarrow> ('j, 'ec, 'bc, 'w) bp \<Rightarrow> 'j solana_event list" where
  "bp_abandoned P (WorkerStep i) b =
     (case workers b ! i of
        Working n (e # rest) ok fail \<Rightarrow>
          if is_dead (fst (worker_event P n e rest ok fail (bp_world b))) then rest else []
      | _ \<Rightarrow> [])"
| "bp_abandoned P _ b = []"

fun step_received ::
  "'j json_ops \<Rightarrow> codecs \<Rightarrow> 'j solana_event client_op \<Rightarrow> ('j, 'ec, 'bc, 'w, 'h) event_loop
   \<Rightarrow> (i64 \<times> 'j solana_event) list" where
  "step_received J K (LoopMessage m err) s =
     (case handle_message J K m err (cl_consumer (el_client s)) of
        (_, Return (Inr (Some e))) \<Rightarrow> [(km_offset m, e)] | _ \<Rightarrow> [])"
| "step_received J K _ s = []"

fun step_processed :: "'j solana_event client_op \<Rightarrow> ('j, 'ec, 'bc, 'w, 'h) event_loop \<Rightarrow> 'j solana_event list" where
  "step_processed (Task op) s = (case cl_batch (el_client s) of Some (P, b) \<Rightarrow> bp_processed op b | None \<Rightarrow> [])"
| "step_processed _ s = []"

fun step_abandoned :: "'j solana_event client_op \<Rightarrow> ('j, 'ec, 'bc, 'w, 'h) event_loop \<Rightarrow> 'j solana_event list" where
  "step_abandoned (Task op) s = (case cl_batch (el_client s) of Some (P, b) \<Rightarrow> bp_abandoned P op b | None \<Rightarrow> [])"
| "step_abandoned _ s = []"

fun message_offsets :: "'e client_op list \<Rightarrow> i64 list" where
  "message_offsets [] = []"
| "message_offsets (LoopMessage m err # ops) = km_offset m # message_offsets ops"
| "message_offsets (_ # ops) = message_offsets ops"

text \<open>
  What is lost if the program ends now: the event that waits in \<open>add_event\<close>, those that \<open>add_event\<close>
  refused, those of batches dropped with their channel, and what is under way.
\<close>

definition at_risk ::
  "('ec \<Rightarrow> 'j solana_event list) \<Rightarrow> ('bc \<Rightarrow> 'j solana_event list list) \<Rightarrow> ('j, 'ec, 'bc, 'w, 'h) event_loop
   \<Rightarrow> 'j solana_event list" where
  "at_risk econt bcont s =
     pending (el_phase s) @ map fst (filter (Not \<circ> snd) (offered s))
     @ (case cl_batch (el_client s) of Some (P, b) \<Rightarrow> lost b @ unprocessed econt bcont b | None \<Rightarrow> [])"

lemma rest_update:
  "i < length ws \<Longrightarrow>
   mset (concat (map worker_rest (ws[i := x]))) + mset (worker_rest (ws ! i))
     = mset (concat (map worker_rest ws)) + mset (worker_rest x)"
proof (induction ws arbitrary: i)
  case (Cons y ws)
  then show ?case by (cases i) (auto simp: ac_simps)
qed simp

context batch_channels
begin

definition ledger :: "('j, 'ec, 'bc, 'w) bp \<Rightarrow> 'j solana_event multiset" where
  "ledger s = mset (lost s @ unprocessed econt bcont s)"

lemma ledger_add:
  assumes "add_event E e s = Some (s', r)"
  shows "ledger s' = (if is_ok r then {#e#} else {#}) + ledger s"
proof (cases "ch_closed E (event_channel s)")
  case True
  then show ?thesis using assms by (auto simp: add_event_def)
next
  case False
  then obtain c where c: "ch_send E e (event_channel s) = Some c"
    and s': "s' = s\<lparr>event_channel := c, accepted := accepted s @ [e]\<rparr>" "r = Inr ()"
    using assms by (auto simp: add_event_def split: option.splits)
  show ?thesis using ev.send_effect [OF c] by (simp add: s' ledger_def unprocessed_def)
qed

lemma ledger_recv:
  assumes "collector_recv E now nx s = Some s'"
  shows "ledger s' = ledger s"
proof -
  have mode: "collector_mode (collector s) = Collecting"
    using assms by (simp add: collector_recv_def split: if_splits)
  show ?thesis
  proof (cases "ch_recv E (event_channel s)")
    case None
    then have "s' = set_collector E (collector_on_closed (collector s)) s"
      using assms mode by (simp add: collector_recv_def split: if_splits)
    then show ?thesis
      using mode ev.close_effect [of "event_channel s"]
      by (auto simp: ledger_def unprocessed_def set_collector_def collector_on_closed_def)
  next
    case (Some p)
    then obtain e c where p: "ch_recv E (event_channel s) = Some (e, c)" by (cases p) simp
    then have s': "s' = s\<lparr>event_channel := c,
        collector := collector_on_event (unat (bp_batch_size s)) now nx e (collector s)\<rparr>"
      using assms mode by (simp add: collector_recv_def set_collector_def collector_on_event_modes split: if_splits)
    show ?thesis
      using mode ev.recv_effect [OF p] unfolding s' by (auto simp: ledger_def unprocessed_def collector_on_event_modes)
  qed
qed

lemma ledger_timeout:
  assumes "collector_timeout E now s = Some s'"
  shows "ledger s' = ledger s"
  using assms ev.close_effect [of "event_channel s"]
  by (auto simp: collector_timeout_def collector_on_timeout_def ledger_def unprocessed_def split: if_splits)

lemma ledger_send:
  assumes "collector_send E B now nx s = Some s'"
  shows "ledger s' = ledger s"
proof -
  obtain reason batch where mode: "collector_mode (collector s) = Sending reason batch"
    using assms by (auto simp: collector_send_def split: collector_mode.splits)
  note close = ev.close_effect [of "event_channel s"]
  show ?thesis
  proof (cases "ch_closed B (batch_channel s)")
    case True
    then have "s' = set_collector E ((collector s)\<lparr>collector_mode := Stopped\<rparr>) (s\<lparr>lost := lost s @ batch\<rparr>)"
      using assms mode by (simp add: collector_send_def)
    then show ?thesis using mode close by (simp add: ledger_def unprocessed_def set_collector_def)
  next
    case False
    then obtain c where c: "ch_send B batch (batch_channel s) = Some c"
      and s': "s' = set_collector E (collector_sent now nx reason (collector s)) (s\<lparr>batch_channel := c\<rparr>)"
      using assms mode by (auto simp: collector_send_def split: option.splits)
    show ?thesis
      using mode bt.send_effect [OF c] close unfolding s'
      by (cases reason) (simp_all add: ledger_def unprocessed_def set_collector_def)
  qed
qed

lemma ledger_take:
  assumes "bp_inv s" "worker_take B i s = Some s'"
  shows "ledger s' = ledger s"
proof -
  have i: "i < length (workers s)" "workers s ! i = Idle"
    using assms(2) by (auto simp: worker_take_def split: if_splits)
  then have "\<not> list_all is_dead (workers s)" by (metis is_dead.simps(2) list_all_length)
  then have "\<not> ch_closed B (batch_channel s)" using assms(1) by (auto simp: bp_inv_defs)
  then obtain b c where p: "ch_recv B (batch_channel s) = Some (b, c)"
    using assms(2) i by (auto simp: worker_take_def split: option.splits)
  then have b: "bcont (batch_channel s) = b # bcont c" "b \<noteq> []"
    using bt.recv_effect [OF p] assms(1) by (auto simp: bp_inv_defs)
  have s': "s' = s\<lparr>batch_channel := c, workers := (workers s)[i := Working (length b) b 0 0],
      bp_resources := start_processing (of_nat (length b)) (bp_resources s), taken := taken s @ [b]\<rparr>"
    using assms(2) i p b(2) by (simp add: worker_take_def worker_start_def)
  show ?thesis
    using rest_update [OF i(1), of "Working (length b) b 0 0"] i(2) b(1)
    unfolding s' by (simp add: ledger_def unprocessed_def ac_simps)
qed

lemma ledger_step:
  assumes "worker_step B P i s = Some s'"
  shows "ledger s' + mset (bp_processed (WorkerStep i) s) + mset (bp_abandoned P (WorkerStep i) s) = ledger s"
proof -
  obtain n es ok fail where w: "i < length (workers s)" "workers s ! i = Working n es ok fail"
    using assms by (auto simp: worker_step_def split: if_splits worker.splits)
  show ?thesis
  proof (cases es)
    case Nil
    then have "s' = s\<lparr>workers := (workers s)[i := Idle], bp_resources := complete_processing (of_nat n) (bp_resources s)\<rparr>"
      using assms w by (simp add: worker_step_def worker_finish_def)
    then show ?thesis
      using rest_update [OF w(1), of Idle] w(2) Nil by (simp add: ledger_def unprocessed_def)
  next
    case (Cons e rest)
    obtain wk x where ev: "worker_event P n e rest ok fail (bp_world s) = (wk, x)" by fastforce
    then have wk: "(if is_dead wk then rest else []) @ worker_rest wk = rest"
      by (auto simp: worker_event_def split: if_splits prod.splits completion.splits sum.splits)
    have "workers s' = (workers s)[i := wk]" "event_channel s' = event_channel s" "collector s' = collector s"
      "bcont (batch_channel s') = bcont (batch_channel s)" "lost s' = lost s"
      using assms w Cons ev bt.close_effect [of "batch_channel s"]
      by (auto simp: worker_step_def Let_def split: if_splits)
    then have "ledger s' + mset (worker_rest (workers s ! i)) = ledger s + mset (worker_rest wk)"
      using rest_update [OF w(1), of wk] by (simp add: ledger_def unprocessed_def ac_simps)
    moreover have "mset (worker_rest (workers s ! i))
        = mset (bp_processed (WorkerStep i) s) + mset (bp_abandoned P (WorkerStep i) s) + mset (worker_rest wk)"
      using wk w(2) Cons ev by (auto split: if_splits)
    ultimately show ?thesis by (simp add: ac_simps)
  qed
qed

lemma ledger_exec:
  assumes "bp_inv s" "bp_exec E B P op s = Some s'" "is_task op"
  shows "ledger s' + mset (bp_processed op s) + mset (bp_abandoned P op s) = ledger s"
proof (cases op)
  case (WorkerStep i)
  then show ?thesis using ledger_step assms(2) by simp
next
  case Shutdown
  then show ?thesis
    using assms(2) ev.close_effect [of "event_channel s"] by (auto simp: bp_shutdown_def ledger_def unprocessed_def)
qed (use assms ledger_recv ledger_timeout ledger_send ledger_take in auto)

end

text \<open>The ledger of the client: what a step receives is at risk until it is processed or abandoned.\<close>

lemma at_risk_batch:
  "cl_batch (el_client s) = Some (P, b) \<Longrightarrow>
   mset (at_risk econt bcont s) =
     mset (pending (el_phase s)) + mset (map fst (filter (Not \<circ> snd) (offered s))) + mset (lost b @ unprocessed econt bcont b)"
  by (simp add: at_risk_def)

lemma unprocessed_resources [simp]: "unprocessed econt bcont (b\<lparr>bp_resources := rm\<rparr>) = unprocessed econt bcont b"
  by (simp add: unprocessed_def)

lemma at_risk_put_consumer:
  assumes "cl_batch (el_client s) = Some (P, b)" "el_client s' = put_consumer c (el_client s)" "offered s' = offered s"
  shows "mset (at_risk econt bcont s') + mset (pending (el_phase s)) = mset (at_risk econt bcont s) + mset (pending (el_phase s'))"
  using assms by (simp add: at_risk_def put_consumer_def)

lemma loop_result_batch:
  assumes "cl_batch (el_client s) = Some (P, b)" "pending (el_phase s) = []"
  shows "offered (loop_result H r s) = offered s"
    and "pending (el_phase (loop_result H r s)) = (case r of Inr (Some e) \<Rightarrow> [e] | _ \<Rightarrow> [])"
  using assms by (auto simp: loop_result_def split: sum.split option.split)

lemma at_risk_message:
  assumes "cl_batch (el_client s) = Some (P, b)" "el_phase s = Receiving"
  shows "mset (at_risk econt bcont (loop_message J K H m err s))
    = mset (at_risk econt bcont s) + mset (map snd (step_received J K (LoopMessage m err) s))"
proof -
  obtain c oc where hm: "handle_message J K m err (cl_consumer (el_client s)) = (c, oc)" by fastforce
  let ?s' = "loop_message J K H m err s" and ?s1 = "s\<lparr>el_client := put_consumer c (el_client s)\<rparr>"
  have b1: "cl_batch (el_client ?s1) = Some (P, b\<lparr>bp_resources := sc_resources c\<rparr>)" "pending (el_phase ?s1) = []"
    using assms by (simp_all add: put_consumer_def)
  have cl: "el_client ?s' = put_consumer c (el_client s)"
    by (simp add: loop_message_def hm split: message_outcome.split)
  have "offered ?s' = offered s
    \<and> pending (el_phase ?s') = map snd (step_received J K (LoopMessage m err) s)"
    using loop_result_batch [OF b1, of H]
    by (auto simp: loop_message_def hm split: message_outcome.split sum.split option.split)
  with at_risk_put_consumer [OF assms(1) cl, of econt bcont] assms(2) show ?thesis by simp
qed

lemma at_risk_step:
  assumes "batch_channels E econt ecap B bcont bcap" "cl_batch (el_client s) = Some (P, b)"
    and "batch_channels.bp_inv econt B bcont b" "client_exec E B J K H op s = Some s'"
  shows "mset (at_risk econt bcont s') + mset (step_processed op s) + mset (step_abandoned op s)
    = mset (at_risk econt bcont s) + mset (map snd (step_received J K op s))"
proof (cases op)
  case LoopTop
  then show ?thesis using assms(4) by (auto simp: at_risk_def loop_top_def split: if_splits)
next
  case LoopFetch
  then have ph: "el_phase s = Fetching" and s': "s' = loop_fetch H s" using assms(4) by (auto split: if_splits)
  obtain c where "el_client s' = put_consumer c (el_client s)" "offered s' = offered s" "pending (el_phase s') = []"
    unfolding s' loop_fetch_def using ph assms(2)
    by (cases "pre_receive (cl_consumer (el_client s))") (auto simp: loop_result_def)
  from at_risk_put_consumer [OF assms(2) this(1,2), of econt bcont] this(3) show ?thesis by (simp add: LoopFetch ph)
next
  case (LoopMessage m err)
  then have "el_phase s = Receiving" "s' = loop_message J K H m err s" using assms(4) by (auto split: if_splits)
  with at_risk_message [OF assms(2)] show ?thesis by (simp add: LoopMessage)
next
  case (LoopRecvError t)
  then show ?thesis using assms(4) by (auto simp: at_risk_def loop_recv_error_def loop_result_def split: if_splits)
next
  case LoopAdd
  then obtain e b' r where e: "el_phase s = Adding e" "add_event E e b = Some (b', r)"
      "s' = s\<lparr>el_client := put_batch P b' (el_client s), el_phase := AtTop, offered := offered s @ [(e, is_ok r)]\<rparr>"
    using assms(2,4) by (auto simp: loop_add_def split: loop_phase.splits option.splits)
  have "mset (lost b' @ unprocessed econt bcont b') = (if is_ok r then {#e#} else {#}) + mset (lost b @ unprocessed econt bcont b)"
    using batch_channels.ledger_add [OF assms(1) e(2)] by (simp only: batch_channels.ledger_def [OF assms(1)])
  then show ?thesis using assms(2) e(1) by (simp add: LoopAdd e(3) at_risk_def put_batch_def)
next
  case (Task bop)
  then obtain b' where b': "is_task bop" "bp_exec E B P bop b = Some b'"
      "s' = s\<lparr>el_client := put_batch P b' (el_client s)\<rparr>"
    using assms(2,4) by (auto split: if_splits)
  have "mset (lost b' @ unprocessed econt bcont b') + mset (bp_processed bop b) + mset (bp_abandoned P bop b)
      = mset (lost b @ unprocessed econt bcont b)"
    using batch_channels.ledger_exec [OF assms(1,3) b'(2,1)] by (simp only: batch_channels.ledger_def [OF assms(1)])
  then show ?thesis using assms(2) by (simp add: Task b'(3) at_risk_def put_batch_def ac_simps)
qed

text \<open>What a step commits, and in which order it receives.\<close>

lemma handle_message_commits: "handle_message J K m err c = (c', oc) \<Longrightarrow> commits c' = commits c @ [km_offset m]"
  by (rule handle_message_cases)

lemma commits_step:
  assumes "client_exec E B J K H op s = Some s'"
  shows "commits (cl_consumer (el_client s')) = commits (cl_consumer (el_client s)) @ message_offsets [op]"
    and "subseq (map fst (step_received J K op s)) (message_offsets [op])"
proof -
  show "subseq (map fst (step_received J K op s)) (message_offsets [op])"
    by (cases op) (auto split: prod.split message_outcome.split sum.split option.split)
  show "commits (cl_consumer (el_client s')) = commits (cl_consumer (el_client s)) @ message_offsets [op]"
  proof (cases op)
    case LoopFetch
    then have s': "s' = loop_fetch H s" using assms by (simp split: if_splits)
    show ?thesis
    proof (cases "pre_receive (cl_consumer (el_client s))")
      case (Inl c)
      then show ?thesis using pre_receive_frame(1) [OF Inl] by (simp add: LoopFetch s' loop_fetch_def)
    next
      case (Inr c)
      then show ?thesis using pre_receive_frame(2) [OF Inr] by (simp add: LoopFetch s' loop_fetch_def)
    qed
  next
    case (LoopMessage m err)
    then have s': "s' = loop_message J K H m err s" using assms by (simp split: if_splits)
    obtain c oc where hm: "handle_message J K m err (cl_consumer (el_client s)) = (c, oc)" by fastforce
    have "el_client s' = put_consumer c (el_client s)" by (simp add: s' loop_message_def hm split: message_outcome.split)
    then show ?thesis by (simp add: LoopMessage handle_message_commits [OF hm])
  next
    case LoopAdd
    then obtain e P b' where "s' = s\<lparr>el_client := put_batch P b' (el_client s), el_phase := AtTop, offered := offered s @ [e]\<rparr>"
      using assms by (auto simp: loop_add_def split: loop_phase.splits option.splits prod.splits)
    then show ?thesis by (simp add: LoopAdd put_batch_def)
  next
    case (Task bop)
    then obtain P b' where "s' = s\<lparr>el_client := put_batch P b' (el_client s)\<rparr>"
      using assms by (auto split: option.splits prod.splits if_splits)
    then show ?thesis by (simp add: Task put_batch_def)
  qed (use assms in \<open>auto simp: loop_recv_error_def split: if_splits\<close>)
qed

lemma message_offsets_Cons: "message_offsets (op # ops) = message_offsets [op] @ message_offsets ops"
  by (cases op) simp_all

text \<open>Only a panic abandons events, and it leaves a dead worker behind.\<close>

lemma abandoned_dies:
  assumes "bp_exec E B P op b = Some b'" "bp_abandoned P op b \<noteq> []"
  shows "\<exists>i n. i < length (workers b') \<and> workers b' ! i = Dead n"
proof -
  obtain i where op: "op = WorkerStep i" using assms(2) by (cases op) simp_all
  obtain n e rest ok fail where w: "i < length (workers b)" "workers b ! i = Working n (e # rest) ok fail"
    using assms op by (auto simp: worker_step_def split: if_splits worker.splits list.splits)
  obtain wk x where ev: "worker_event P n e rest ok fail (bp_world b) = (wk, x)" by fastforce
  then have dead: "is_dead wk" using assms(2) w by (simp add: op split: if_splits)
  have "workers b' = (workers b)[i := wk]"
    using assms(1) w ev by (auto simp: op worker_step_def Let_def split: if_splits)
  moreover obtain k where "wk = Dead k" using dead by (cases wk) simp_all
  ultimately show ?thesis using w(1) by (intro exI [of _ i] exI [of _ k]) simp
qed

lemma step_abandoned_dies:
  assumes "cl_batch (el_client s) = Some (P, b)" "client_exec E B J K H op s = Some s'" "step_abandoned op s \<noteq> []"
    and "cl_batch (el_client s') = Some (P, b')"
  shows "\<exists>i n. i < length (workers b') \<and> workers b' ! i = Dead n"
proof -
  obtain bop where op: "op = Task bop" using assms(3) by (cases op) simp_all
  then have "bp_exec E B P bop b = Some b'"
    using assms(1,2,4) by (auto simp: put_batch_def split: if_splits)
  then show ?thesis using abandoned_dies [of E B P bop b b'] assms(1,3) op by simp
qed

text \<open>A new batch processor has nothing under way; a client that was made has workers.\<close>

lemma batch_new_empty:
  assumes "batch_channels E econt ecap B bcont bcap" "queue_size \<noteq> 0"
  shows "lost (batch_processor_new E B cfg rm queue_size now w) = []"
    and "unprocessed econt bcont (batch_processor_new E B cfg rm queue_size now w) = []"
proof -
  have "0 < unat queue_size" using assms(2) by (simp add: unat_gt_0)
  then have "econt (ch_bounded E (unat queue_size)) = []"
    using channel.bounded [OF batch_channels.axioms(1) [OF assms(1)]] by blast
  moreover have "bcont (ch_bounded B (batch_queue_capacity cfg)) = []"
    using channel.bounded [OF batch_channels.axioms(2) [OF assms(1)] queue_capacity_pos] by blast
  ultimately show "lost (batch_processor_new E B cfg rm queue_size now w) = []"
    "unprocessed econt bcont (batch_processor_new E B cfg rm queue_size now w) = []"
    using channel.close_effect [OF batch_channels.axioms(2) [OF assms(1)]]
    by (auto simp: unprocessed_def batch_processor_new_def batch_queue_capacity_def Let_def)
qed

lemma client_new_workers:
  assumes "client_new ex create cfg = Inr (cl :: ('j, 'ec, 'bc, 'w) client)"
  shows "0 < unat (parallel_workers (cfg_processing cfg))"
proof -
  have "config_validate ex cfg = Inr ()" using assms by (auto simp: client_new_def)
  then show ?thesis by (auto simp: config_validate_def part_accepts processing_ok_def)
qed

text \<open>The ledger of a run.\<close>

lemma ledger_run:
  assumes "batch_channels E econt ecap B bcont bcap" "client_run E B J K H ops s = Some s'"
    and "cl_batch (el_client s) = Some (P, b)" "batch_channels.bp_inv econt B bcont b" "shared (el_client s)"
  shows "mset (at_risk econt bcont s') + mset (history step_processed (client_exec E B J K H) ops s)
        + mset (history step_abandoned (client_exec E B J K H) ops s)
      = mset (at_risk econt bcont s) + mset (map snd (history (step_received J K) (client_exec E B J K H) ops s))
    \<and> commits (cl_consumer (el_client s')) = commits (cl_consumer (el_client s)) @ message_offsets ops
    \<and> subseq (map fst (history (step_received J K) (client_exec E B J K H) ops s)) (message_offsets ops)
    \<and> (\<exists>b'. cl_batch (el_client s') = Some (P, b') \<and> bp_reachable E B P b b'
         \<and> (history step_abandoned (client_exec E B J K H) ops s \<noteq> [] \<longrightarrow>
              (\<exists>i n. i < length (workers b') \<and> workers b' ! i = Dead n)))"
  using assms(2-)
proof (induction ops arbitrary: s b)
  case Nil
  then show ?case by (auto intro: bp_reachable.init)
next
  case (Cons op ops)
  then obtain s1 where s1: "client_exec E B J K H op s = Some s1" "client_run E B J K H ops s1 = Some s'"
    by (auto simp: bind_eq_Some_conv simp del: client_exec.simps)
  have follow: "shared (el_client s1)" "bp_follows E B (el_client s) (el_client s1)"
    using client_step_follows [OF s1(1) Cons.prems(4)] by blast+
  then obtain b1 where b1: "cl_batch (el_client s1) = Some (P, b1)" "bp_reachable E B P b b1"
    unfolding bp_follows_def by (auto simp: Cons.prems(2))
  note inv1 = batch_channels.inv_reachable [OF assms(1) b1(2) Cons.prems(3)]
  note here = at_risk_step [OF assms(1) Cons.prems(2,3) s1(1)] commits_step [OF s1(1)]
    and rest = Cons.IH [OF s1(2) b1(1) inv1 follow(1)]
  have seq: "subseq (map fst (history (step_received J K) (client_exec E B J K H) ops s1)) (message_offsets ops)"
    using rest by blast
  obtain b' where b': "cl_batch (el_client s') = Some (P, b')" "bp_reachable E B P b1 b'"
    "history step_abandoned (client_exec E B J K H) ops s1 \<noteq> [] \<longrightarrow>
       (\<exists>i n. i < length (workers b') \<and> workers b' ! i = Dead n)"
    using rest by blast
  have "\<exists>i n. i < length (workers b') \<and> workers b' ! i = Dead n" if "step_abandoned op s \<noteq> []"
    using step_abandoned_dies [OF Cons.prems(2) s1(1) that b1(1)] dead_for_ever [OF b'(2)] reachable_kept [OF b'(2)]
    by fastforce
  then have last: "\<exists>b'. cl_batch (el_client s') = Some (P, b') \<and> bp_reachable E B P b b'
       \<and> (history step_abandoned (client_exec E B J K H) (op # ops) s \<noteq> [] \<longrightarrow>
            (\<exists>i n. i < length (workers b') \<and> workers b' ! i = Dead n))"
    using b' reachable_on [OF b'(2) b1(2)] s1(1) by (intro exI [of _ b']) auto
  have "mset (at_risk econt bcont s') + mset (history step_processed (client_exec E B J K H) (op # ops) s)
        + mset (history step_abandoned (client_exec E B J K H) (op # ops) s)
      = mset (at_risk econt bcont s) + mset (map snd (history (step_received J K) (client_exec E B J K H) (op # ops) s))"
    using here(1) rest s1(1) by (simp add: ac_simps del: client_exec.simps)
  moreover have "commits (cl_consumer (el_client s')) = commits (cl_consumer (el_client s)) @ message_offsets (op # ops)"
    using rest here(2) message_offsets_Cons [of op ops] by simp
  moreover have "subseq (map fst (history (step_received J K) (client_exec E B J K H) (op # ops) s)) (message_offsets (op # ops))"
    using list_emb_append_mono [OF here(3) seq] s1(1) message_offsets_Cons [of op ops] by (simp del: client_exec.simps)
  ultimately show ?case using last by blast
qed

text \<open>
  C7. What a client in batch mode can lose when the program ends, as the high-volume application does
  right after the error that ends \<open>process_events\<close>. In a run of \<open>process_events\<close> interleaved with the
  batch processor, the consumer commits the messages in the order of their receipt, and each event that it
  hands to the loop is that of a message committed before, so that none comes again. At every moment the
  events handed to the loop are, counted with their repetitions, those that a worker has processed, those
  that a panic left in the batch of a dead worker, and those at risk: the event that waits in
  \<open>add_event\<close>, those that \<open>add_event\<close> refused, those of a batch dropped with its channel, and those under
  way in the channels, in the collector and with the workers. While no worker has died and \<open>add_event\<close>
  has refused nothing, at most one event waiting in \<open>add_event\<close>, \<open>max_queue_size\<close> queued ones and, for
  each worker, each place of the batch channel and the batch being formed, a full batch of them are
  committed and not processed.
\<close>

theorem events_at_risk:
  assumes "batch_channels E econt ecap B bcont bcap" "client_new ex create cfg = Inr (cl0 :: ('j, 'ec, 'bc, 'w) client)"
    and "s0 = process_events (enable_batch_processing E B P now w (client_set_filter f cl0)) h"
    and "client_run E B J K H ops s0 = Some s"
    and "received = history (step_received J K) (client_exec E B J K H) ops s0"
    and "processed = history step_processed (client_exec E B J K H) ops s0"
    and "abandoned = history step_abandoned (client_exec E B J K H) ops s0"
  shows "\<exists>b. cl_batch (el_client s) = Some (P, b)
    \<and> commits (cl_consumer (el_client s)) = message_offsets ops
    \<and> subseq (map fst received) (message_offsets ops)
    \<and> mset (map snd received) = mset processed + mset abandoned + mset (at_risk econt bcont s)
    \<and> (list_all (Not \<circ> is_dead) (workers b) \<and> list_all snd (offered s) \<longrightarrow>
         length received \<le> length processed + 1 + unat (max_queue_size (cfg_resources cfg))
           + (unat (parallel_workers (cfg_processing cfg)) + batch_queue_capacity (cfg_processing cfg) + 1)
             * max 1 (unat (batch_size (cfg_processing cfg))))"
proof -
  let ?b0 = "batch_processor_new E B (cfg_processing cfg) (resource_manager_new (cfg_resources cfg))
      (max_queue_size (cfg_resources cfg)) now w"
  have rm: "messages_in_flight (resource_manager_new (cfg_resources cfg)) = 0" by (simp add: resource_manager_new_def)
  have start: "cl_batch (el_client s0) = Some (P, ?b0)" "shared (el_client s0)" "el_phase s0 = AtTop" "offered s0 = []"
    "commits (cl_consumer (el_client s0)) = []"
    using started_inv(3) [OF assms(2), where E = E and B = B and P = P and f = f] unfolding assms(3) client_new_ok(1) [OF assms(2)]
    by (simp_all add: process_events_def enable_batch_processing_def client_set_filter_def set_filter_def stream_consumer_new_def)
  have none: "at_risk econt bcont s0 = []"
    using start by (simp add: at_risk_def batch_new_empty [OF assms(1) client_new_ok(2) [OF assms(2)]])
  note fresh = batch_channels.inv_new [OF assms(1) client_new_ok(2) [OF assms(2)] rm]
  note run = ledger_run [OF assms(1,4) start(1) fresh start(2), folded assms(5-7), unfolded none start(5)]
  obtain b where b: "cl_batch (el_client s) = Some (P, b)" "bp_reachable E B P ?b0 b"
    "abandoned \<noteq> [] \<longrightarrow> (\<exists>i n. i < length (workers b) \<and> workers b ! i = Dead n)"
    using run by blast
  have books: "mset (map snd received) = mset processed + mset abandoned + mset (at_risk econt bcont s)"
    using run by (simp add: ac_simps)
  have bound: "length received \<le> length processed + 1 + unat (max_queue_size (cfg_resources cfg))
      + (unat (parallel_workers (cfg_processing cfg)) + batch_queue_capacity (cfg_processing cfg) + 1)
        * max 1 (unat (batch_size (cfg_processing cfg)))"
    if "list_all (Not \<circ> is_dead) (workers b)" "list_all snd (offered s)"
  proof -
    note reach = assms(1) client_new_ok(2) [OF assms(2)] rm b(2)
    have "abandoned = []" using that(1) b(3) by (auto simp: list_all_length)
    moreover have "lost b = []"
      using batch_inv [OF reach] that(1) client_new_workers [OF assms(2)]
      by (cases "workers b") (auto simp: batch_inv_defs [OF assms(1)])
    moreover have "filter (Not \<circ> snd) (offered s) = []" using that(2) by (auto simp: filter_empty_conv list_all_iff)
    ultimately have "length received = length processed + length (pending (el_phase s)) + length (unprocessed econt bcont b)"
      using arg_cong [OF books, of size] by (simp add: at_risk_def b(1))
    moreover have "length (pending (el_phase s)) \<le> 1" by (cases "el_phase s") simp_all
    ultimately show ?thesis
      using batch_channels.unprocessed_bound [OF assms(1) batch_inv(1) [OF reach] batch_roomy [OF reach]]
      by (simp add: batch_inv(2,3) [OF reach])
  qed
  show ?thesis using b(1) run books bound by (intro exI [of _ b]) simp
qed

text \<open>
  C3. Given time, the batch processor drains. After \<open>shutdown\<close> its tasks cannot go on for more than
  \<open>work_left\<close> steps, in whatever order, processors that panic included. When no task can go on, every
  worker waits idle or has died of a panic; and if at least one of them lives, nothing is under way and
  every accepted event has been taken by a worker, in order: no order of the steps is a deadlock or
  keeps an event from the workers. A worker that dies takes the rest of its batch with it, and when all
  have died, what waits behind them stays. The workers wait, they do not end.
\<close>

theorem shutdown_drains:
  assumes "batch_channels E econt ecap B bcont bcap" "queue_size \<noteq> 0" "messages_in_flight rm = 0"
    and "bp_reachable E B P (batch_processor_new E B cfg rm queue_size now w) s"
    and "bp_run E B P ops (bp_shutdown E s) = Some s'" "list_all is_work ops"
  shows "length ops \<le> work_left econt bcont s
    \<and> ((\<forall>op. is_work op \<longrightarrow> bp_exec E B P op s' = None) \<longrightarrow>
         (\<forall>w \<in> set (workers s'). w = Idle \<or> is_dead w)
         \<and> (\<not> list_all is_dead (workers s') \<longrightarrow>
              unprocessed econt bcont s' = [] \<and> concat (taken s') = accepted s))"
proof -
  note start = assms(1-4)
  have close: "econt (event_channel (bp_shutdown E s)) = econt (event_channel s)" "ch_closed E (event_channel (bp_shutdown E s))"
    using channel.close_effect [OF batch_channels.axioms(1) [OF assms(1)]] by (auto simp: bp_shutdown_def)
  then have left: "work_left econt bcont (bp_shutdown E s) = work_left econt bcont s"
    by (simp add: work_left_def bp_shutdown_def)
  have inv: "batch_channels.bp_inv econt B bcont (bp_shutdown E s)"
    by (rule batch_channels.inv_shutdown [OF assms(1) batch_inv(1) [OF start]])
  have step: "bp_exec E B P Shutdown s = Some (bp_shutdown E s)" by simp
  have roomy: "batch_channels.roomy E econt ecap bcont bcap (unat queue_size) (batch_queue_capacity cfg) (bp_shutdown E s)"
    by (rule batch_channels.roomy_exec [OF assms(1) batch_inv(1) [OF start] batch_roomy [OF start] step])
  note run = batch_channels.run_exec [OF assms(1,5,6) inv roomy close(2)]
  have "accepted (bp_shutdown E s) = accepted s" by (simp add: bp_shutdown_def)
  then show ?thesis
    using run left batch_channels.stuck_drained [OF assms(1), of s' "unat queue_size" "batch_queue_capacity cfg" P]
      batch_channels.rest_worker [OF assms(1), of s' P] queue_capacity_pos [of cfg] by auto
qed

section \<open>Witnesses\<close>

text \<open>A client that waits in \<open>add_event\<close> with the event of its first message.\<close>

theorem events_at_risk_witness:
  "\<exists>s b e. client_run list_channel list_channel json_tree sample_codecs (\<lambda>_ h. (h, Inr ()))
        [LoopTop, LoopFetch, LoopMessage sample_message None] sample_loop = Some s
     \<and> cl_batch (el_client s) = Some (tx_event_processor json_tree, b)
     \<and> commits (cl_consumer (el_client s)) = [km_offset sample_message]
     \<and> {#e#} = mset (at_risk lc_items lc_items s) \<and> signature e = ''00000000''"
proof -
  let ?H = "\<lambda>_ h. (h, Inr ())"
  let ?ops = "[LoopTop, LoopFetch, LoopMessage sample_message None] :: json solana_event client_op list"
  let ?exec = "client_exec list_channel list_channel json_tree sample_codecs ?H"
  obtain s1 where s1: "client_run list_channel list_channel json_tree sample_codecs ?H [LoopTop, LoopFetch] sample_loop = Some s1"
    "el_phase s1 = Receiving" "el_client s1 = el_client sample_loop" "offered s1 = []"
    by (rule sample_receiving)
  then obtain sa where sa: "?exec LoopTop sample_loop = Some sa" "?exec LoopFetch sa = Some s1"
    by (auto simp: bind_eq_Some_conv simp del: client_exec.simps)
  obtain s2 where s2: "?exec (LoopMessage sample_message None) s1 = Some s2"
    using sample_message_step [OF s1(2-4), of ?H None] by auto
  obtain c e where "handle_message json_tree sample_codecs sample_message None (cl_consumer (el_client s1)) = (c, Return (Inr (Some e)))"
    and e: "signature e = ''00000000''"
    using sample_handle [OF sample_consumer_fields(1,2), of None] unfolding s1(3) by auto
  then have received: "history (step_received json_tree sample_codecs) ?exec ?ops sample_loop = [(km_offset sample_message, e)]"
    "history step_processed ?exec ?ops sample_loop = []" "history step_abandoned ?exec ?ops sample_loop = []"
    using sa s2 by (simp_all del: client_exec.simps)
  have run: "client_run list_channel list_channel json_tree sample_codecs ?H ?ops sample_loop = Some s2"
    using sa s2 by (simp del: client_exec.simps)
  from events_at_risk [OF list_bp.batch_channels_axioms sample_client_new sample_loop_def run refl refl refl, unfolded received]
  obtain b where "cl_batch (el_client s2) = Some (tx_event_processor json_tree, b)"
    "commits (cl_consumer (el_client s2)) = message_offsets ?ops"
    "mset (map snd [(km_offset sample_message, e)]) = mset [] + mset [] + mset (at_risk lc_items lc_items s2)"
    by blast
  with run e show ?thesis
    by (intro exI [of _ s2] exI [of _ b] exI [of _ e]) (simp del: client_run.simps client_exec.simps)
qed

text \<open>A worker in the middle of its batch when the processor is shut down.\<close>

lemma sample_drain_run:
  "\<exists>s s'. bp_run list_channel list_channel (tx_event_processor json_tree) sample_ops sample_start = Some s
     \<and> bp_run list_channel list_channel (tx_event_processor json_tree) [WorkerStep 0, CollectorRecv 5 5, WorkerStep 0]
         (bp_shutdown list_channel s) = Some s'
     \<and> accepted s = [sample_event ''a'', sample_event ''b''] \<and> workers s' = [Idle]
     \<and> collector_mode (collector s') = Stopped \<and> lc_items (batch_channel s') = [] \<and> \<not> lc_closed (batch_channel s')"
  by (simp add: sample_ops_def sample_start_def batch_processor_new_def sample_fields list_channel_def
      add_event_def collector_recv_def collector_on_event_def set_collector_def collector_send_def
      worker_take_def worker_start_def worker_step_def worker_event_def worker_finish_def tx_event_processor_def
      tx_should_process_def tx_process_def sample_event_def resource_manager_new_def bp_shutdown_def
      collector_on_closed_def start_processing_def Let_def)

theorem shutdown_drains_witness:
  "\<exists>s'. bp_reachable list_channel list_channel (tx_event_processor json_tree) sample_start s'
     \<and> concat (taken s') = [sample_event ''a'', sample_event ''b''] \<and> unprocessed lc_items lc_items s' = []"
proof -
  obtain s s' where run: "bp_run list_channel list_channel (tx_event_processor json_tree) sample_ops sample_start = Some s"
    "bp_run list_channel list_channel (tx_event_processor json_tree) [WorkerStep 0, CollectorRecv 5 5, WorkerStep 0]
         (bp_shutdown list_channel s) = Some s'"
    and s: "accepted s = [sample_event ''a'', sample_event ''b'']" "workers s' = [Idle]"
      "collector_mode (collector s') = Stopped" "lc_items (batch_channel s') = []" "\<not> lc_closed (batch_channel s')"
    using sample_drain_run by blast
  have r: "bp_reachable list_channel list_channel (tx_event_processor json_tree) sample_start s"
    by (rule reachable_run [OF run(1)])
  have q: "(5 :: usize) \<noteq> 0" and fresh: "messages_in_flight (resource_manager_new resource_limits_default) = 0"
    by (simp_all add: resource_manager_new_def)
  have work: "list_all is_work [WorkerStep 0, CollectorRecv 5 5, WorkerStep 0 :: json solana_event bp_op]" by simp
  have stop: "bp_exec list_channel list_channel (tx_event_processor json_tree) op s' = None" if "is_work op" for op
    using that s(2-5)
    by (cases op) (auto simp: collector_recv_def collector_send_def worker_take_def worker_step_def list_channel_def)
  have living: "\<not> list_all is_dead (workers s')" by (simp add: s(2))
  from shutdown_drains [OF list_bp.batch_channels_axioms q fresh r [unfolded sample_start_def] run(2) work] stop living s(1)
  have "concat (taken s') = [sample_event ''a'', sample_event ''b''] \<and> unprocessed lc_items lc_items s' = []" by simp
  moreover have "bp_reachable list_channel list_channel (tx_event_processor json_tree) sample_start s'"
    by (rule reachable_from [OF run(2) bp_reachable.step [OF r, of Shutdown]]) simp
  ultimately show ?thesis by blast
qed

end
