(* ===== verification/Facade.thy ===== *)
theory Facade
  imports Client
begin

text \<open>
  src/utils/metrics.rs and src/core/utils/metrics.rs: the wrappers of the metrics crate. What they hand
  to the facade of that crate is a list of operations; whether they do is decided when the program is
  compiled, by the feature "metrics", which is an argument here. Both files declare the field \<open>_name\<close> of
  \<open>Timer\<close> and read \<open>name\<close> in its \<open>drop\<close> (and the core one reads \<open>duration\<close> where it declares
  \<open>_duration\<close>), so with the feature neither compiles as it stands: the model reads what was declared, and
  without the feature, the only configuration that builds, the wrappers hand on nothing. The property is
  about the calls that the consumer makes of them, which both configurations share.
\<close>

section \<open>The facade\<close>

datatype facade_op =
    CounterAdd string u64 "(string \<times> string) list"
  | HistogramRecord string f64 "(string \<times> string) list"
  | GaugeSet string f64 "(string \<times> string) list"

text \<open>The value of a counter with given labels after a sequence of operations.\<close>

fun counter_value :: "string \<Rightarrow> (string \<times> string) list \<Rightarrow> facade_op list \<Rightarrow> u64" where
  "counter_value name labels [] = 0"
| "counter_value name labels (CounterAdd n v ls # ops) =
     (if n = name \<and> ls = labels then v else 0) + counter_value name labels ops"
| "counter_value name labels (_ # ops) = counter_value name labels ops"

lemma counter_value_append [simp]:
  "counter_value name labels (ops @ ops') = counter_value name labels ops + counter_value name labels ops'"
  by (induction ops rule: counter_value.induct) simp_all

section \<open>The wrappers\<close>

record sdk_timer =
  tm_start :: instant
  tm_name :: string

definition sdk_timer_new :: "string \<Rightarrow> instant \<Rightarrow> sdk_timer" where
  "sdk_timer_new name now = \<lparr>tm_start = now, tm_name = name\<rparr>"

definition sdk_timer_drop :: "bool \<Rightarrow> instant \<Rightarrow> sdk_timer \<Rightarrow> facade_op list" where
  "sdk_timer_drop metrics_feature now t =
     (let d = now - tm_start t
      in if metrics_feature
         then [HistogramRecord (''bitquery_sdk_'' @ tm_name t @ ''_duration_seconds'') (as_secs_f64 d) []]
         else [])"

definition event_labels :: "string \<Rightarrow> bool \<Rightarrow> (string \<times> string) list" where
  "event_labels kind success =
     [(''type'', kind), (''status'', if success then ''success'' else ''failure'')]"

definition emit_event_processed :: "bool \<Rightarrow> string \<Rightarrow> bool \<Rightarrow> facade_op list" where
  "emit_event_processed metrics_feature kind success =
     (if metrics_feature then [CounterAdd ''bitquery_sdk_events_processed_total'' 1 (event_labels kind success)]
      else [])"

definition emit_batch_processed :: "bool \<Rightarrow> usize \<Rightarrow> f64 \<Rightarrow> facade_op list" where
  "emit_batch_processed metrics_feature batch_events duration_ms =
     (if metrics_feature then
        [HistogramRecord ''bitquery_sdk_batch_size'' (f_of_nat (unat batch_events)) [],
         HistogramRecord ''bitquery_sdk_batch_duration_ms'' duration_ms []]
      else [])"

definition emit_dex_trade :: "bool \<Rightarrow> string \<Rightarrow> string \<Rightarrow> f64 \<Rightarrow> u64 \<Rightarrow> string \<Rightarrow> 32 word \<Rightarrow> facade_op list" where
  "emit_dex_trade metrics_feature exchange_name pair trade_amount_usd lag_messages topic kafka_partition =
     (if metrics_feature then
        [CounterAdd ''dex_trades_processed_total'' 1 [(''exchange'', exchange_name), (''token_pair'', pair)],
         HistogramRecord ''trade_value_usd'' trade_amount_usd [],
         GaugeSet ''kafka_consumer_lag'' (f_of_nat (unat lag_messages))
           [(''topic'', topic), (''partition'', i64_string (scast kafka_partition))]]
      else [])"

text \<open>The copies of core/utils/metrics.rs.\<close>

definition core_timer_new :: "string \<Rightarrow> instant \<Rightarrow> sdk_timer" where
  "core_timer_new name now = \<lparr>tm_start = now, tm_name = name\<rparr>"

definition core_timer_drop :: "bool \<Rightarrow> instant \<Rightarrow> sdk_timer \<Rightarrow> facade_op list" where
  "core_timer_drop metrics_feature now t =
     (let d = now - tm_start t
      in if metrics_feature
         then [HistogramRecord (''bitquery_sdk_'' @ tm_name t @ ''_duration_seconds'') (as_secs_f64 d) []]
         else [])"

definition core_event_processed :: "bool \<Rightarrow> string \<Rightarrow> bool \<Rightarrow> facade_op list" where
  "core_event_processed metrics_feature kind success =
     (if metrics_feature then
        [CounterAdd ''bitquery_sdk_events_processed_total'' 1
           [(''type'', kind), (''status'', if success then ''success'' else ''failure'')]]
      else [])"

definition core_batch_processed :: "bool \<Rightarrow> usize \<Rightarrow> f64 \<Rightarrow> facade_op list" where
  "core_batch_processed metrics_feature batch_events duration_ms =
     (if metrics_feature then
        [HistogramRecord ''bitquery_sdk_batch_size'' (f_of_nat (unat batch_events)) [],
         HistogramRecord ''bitquery_sdk_batch_duration_ms'' duration_ms []]
      else [])"

lemma core_copies:
  "core_timer_new = sdk_timer_new" "core_timer_drop = sdk_timer_drop"
  "core_event_processed = emit_event_processed" "core_batch_processed = emit_batch_processed"
  by (intro ext; simp add: core_timer_new_def sdk_timer_new_def core_timer_drop_def sdk_timer_drop_def
      core_event_processed_def emit_event_processed_def event_labels_def core_batch_processed_def
      emit_batch_processed_def)+

section \<open>What the consumer reports\<close>

text \<open>The consumer's calls are its history \<open>processed_log\<close>; this is what they emit.\<close>

definition emitted_by :: "bool \<Rightarrow> 'j stream_consumer \<Rightarrow> facade_op list" where
  "emitted_by metrics_feature c =
     concat (map (\<lambda>(kind, success). emit_event_processed metrics_feature kind success) (processed_log c))"

definition processed_total :: "string \<Rightarrow> bool \<Rightarrow> 'j stream_consumer \<Rightarrow> u64" where
  "processed_total kind success c =
     counter_value ''bitquery_sdk_events_processed_total'' (event_labels kind success) (emitted_by True c)"

text \<open>What one message adds to the log.\<close>

definition message_log :: "'j json_ops \<Rightarrow> codecs \<Rightarrow> kafka_message \<Rightarrow> 'j stream_consumer \<Rightarrow> (string \<times> bool) list" where
  "message_log J K m c =
     (case km_payload m of
        None \<Rightarrow> [(km_topic m, False)]
      | Some payload \<Rightarrow>
          (case decode_event J K (km_topic m) (decompress_safe (lz4_decode K) (gzip_decode K) payload) of
             None \<Rightarrow> []
           | Some (Inl e) \<Rightarrow> [(km_topic m, False), (km_topic m, False)]
           | Some (Inr event) \<Rightarrow>
               if signature event \<in> seen_signatures_cache c then []
               else [(event_type_as_str (event_type event), True)]))"

lemma commit_then_log: "processed_log (fst (commit_then err m oc c)) = processed_log c"
  by (simp add: commit_then_def commit_kafka_offset_def split: option.split)

lemma handle_message_log:
  "processed_log (fst (handle_message J K m err c)) = processed_log c @ message_log J K m c"
proof (cases "km_payload m")
  case None
  then show ?thesis
    by (simp add: handle_message_def internal_process_kafka_message_def message_log_def commit_then_log
        record_event_processed_def)
next
  case (Some payload)
  then show ?thesis
    by (auto simp: handle_message_def internal_process_kafka_message_def message_log_def commit_then_log
        record_event_processed_def Let_def split: option.split sum.split)
qed

text \<open>
  Everything the feature lets a message emit, from its arrival to its commit; the timer of
  \<open>internal_process_kafka_message\<close> is dropped when that returns, before the failure of the caller.
\<close>

definition message_ops ::
  "bool \<Rightarrow> 'j json_ops \<Rightarrow> codecs \<Rightarrow> instant \<Rightarrow> instant \<Rightarrow> kafka_message \<Rightarrow> 'j stream_consumer \<Rightarrow> facade_op list" where
  "message_ops metrics_feature J K started returned m c =
     (let timer = sdk_timer_new ''consumer_internal_process_kafka_message'' started;
          topic = km_topic m;
          drop_timer = sdk_timer_drop metrics_feature returned timer;
          failure = emit_event_processed metrics_feature topic False
      in case km_payload m of
           None \<Rightarrow> drop_timer @ failure
         | Some payload \<Rightarrow>
             (if metrics_feature then
                [CounterAdd ''bitquery_sdk_kafka_messages_raw_total'' 1 [(''topic'', topic)],
                 HistogramRecord ''bitquery_sdk_kafka_message_raw_size_bytes'' (f_of_nat (length payload))
                   [(''topic'', topic)]]
              else [])
             @ (case decode_event J K topic (decompress_safe (lz4_decode K) (gzip_decode K) payload) of
                  None \<Rightarrow> drop_timer
                | Some (Inl e) \<Rightarrow> failure @ drop_timer @ failure
                | Some (Inr event) \<Rightarrow>
                    if signature event \<in> seen_signatures_cache c then
                      (if metrics_feature then
                         [CounterAdd ''bitquery_sdk_duplicate_events_filtered_total'' 1
                            [(''event_type'', event_type_as_str (event_type event))]]
                       else []) @ drop_timer
                    else emit_event_processed metrics_feature (event_type_as_str (event_type event)) True @ drop_timer))"

text \<open>Of these, the calls of \<open>record_event_processed\<close> are the log.\<close>

fun counts_processed :: "facade_op \<Rightarrow> bool" where
  "counts_processed (CounterAdd n v ls) \<longleftrightarrow> n = ''bitquery_sdk_events_processed_total''"
| "counts_processed _ \<longleftrightarrow> False"

lemma message_ops_log:
  "filter counts_processed (message_ops F J K t0 t1 m c)
     = concat (map (\<lambda>(kind, success). emit_event_processed F kind success) (message_log J K m c))"
  by (cases "km_payload m")
     (auto simp: message_ops_def message_log_def sdk_timer_drop_def emit_event_processed_def Let_def
       split: option.split sum.split)

lemma message_ops_off: "message_ops False J K t0 t1 m c = []"
  by (simp add: message_ops_def sdk_timer_drop_def emit_event_processed_def Let_def split: option.split sum.split)

section \<open>What the calls mean\<close>

text \<open>What an answer of Kafka is worth: failures of a topic, events of a type.\<close>

fun input_failures :: "'j json_ops \<Rightarrow> codecs \<Rightarrow> string \<Rightarrow> kafka_input \<Rightarrow> nat" where
  "input_failures J K t (RecvError e) = 0"
| "input_failures J K t (Received m err meanwhile) =
     (if km_topic m \<noteq> t then 0
      else case km_payload m of
             None \<Rightarrow> 1
           | Some payload \<Rightarrow>
               (case decode_event J K t (decompress_safe (lz4_decode K) (gzip_decode K) payload) of
                  Some (Inl e) \<Rightarrow> 2 | _ \<Rightarrow> 0))"

fun input_events :: "'j json_ops \<Rightarrow> codecs \<Rightarrow> string \<Rightarrow> kafka_input \<Rightarrow> nat" where
  "input_events J K kind (RecvError e) = 0"
| "input_events J K kind (Received m err meanwhile) =
     (case km_payload m of
        None \<Rightarrow> 0
      | Some payload \<Rightarrow>
          (case decode_event J K (km_topic m) (decompress_safe (lz4_decode K) (gzip_decode K) payload) of
             Some (Inr event) \<Rightarrow> of_bool (event_type_as_str (event_type event) = kind) | _ \<Rightarrow> 0))"

fun returned_events :: "string \<Rightarrow> sdk_error + 'j solana_event option \<Rightarrow> nat" where
  "returned_events kind (Inr (Some e)) = of_bool (event_type_as_str (event_type e) = kind)"
| "returned_events kind _ = 0"

abbreviation logged :: "string \<Rightarrow> bool \<Rightarrow> 'j stream_consumer \<Rightarrow> nat" where
  "logged kind success c \<equiv> count_list (processed_log c) (kind, success)"

lemma event_labels_eq [simp]: "event_labels k b = event_labels k' b' \<longleftrightarrow> k = k' \<and> b = b'"
  by (auto simp: event_labels_def split: if_splits)

lemma processed_total_logged: "processed_total kind success c = of_nat (logged kind success c)"
proof -
  have "counter_value ''bitquery_sdk_events_processed_total'' (event_labels kind success)
      (concat (map (\<lambda>(kind, success). emit_event_processed True kind success) l)) = of_nat (count_list l (kind, success))"
    for l
    by (induction l) (auto simp: emit_event_processed_def split: if_splits)
  then show ?thesis by (simp add: processed_total_def emitted_by_def)
qed

lemma emitted_by_off: "emitted_by False c = []"
  by (auto simp: emitted_by_def emit_event_processed_def)

lemma message_counts:
  "count_list (message_log J K m c) (t, False) = input_failures J K t (Received m err g)"
  "count_list (message_log J K m c) (t, True) \<le> input_events J K t (Received m err g)"
  by (auto simp: message_log_def split: option.split sum.split)

lemma handle_message_counts:
  assumes "handle_message J K m err c = (c', oc)"
  shows "logged t False c' = logged t False c + input_failures J K t (Received m err g)"
    and "logged k True c' \<le> logged k True c + input_events J K k (Received m err g)"
    and "logged k True c + (case oc of Continue \<Rightarrow> 0 | Return r \<Rightarrow> returned_events k r) \<le> logged k True c'"
proof -
  have log: "processed_log c' = processed_log c @ message_log J K m c"
    using handle_message_log [of J K m err c] assms by simp
  show "logged t False c' = logged t False c + input_failures J K t (Received m err g)"
    "logged k True c' \<le> logged k True c + input_events J K k (Received m err g)"
    using message_counts(1) [of J K m c t err g] message_counts(2) [of J K m c k err g]
    by (simp_all only: log count_list_append)
  have "(case oc of Continue \<Rightarrow> 0 | Return r \<Rightarrow> returned_events k r) \<le> count_list (message_log J K m c) (k, True)"
    using assms
    by (cases "km_payload m")
       (auto simp: handle_message_def internal_process_kafka_message_def message_log_def commit_then_def
         commit_kafka_offset_def Let_def split: option.splits sum.splits if_splits)
  then show "logged k True c + (case oc of Continue \<Rightarrow> 0 | Return r \<Rightarrow> returned_events k r) \<le> logged k True c'"
    by (simp add: log)
qed

text \<open>What a run may add to the calls between two consumers.\<close>

definition counts_between ::
  "'j json_ops \<Rightarrow> codecs \<Rightarrow> kafka_input list \<Rightarrow> (string \<Rightarrow> nat) \<Rightarrow> 'j stream_consumer \<Rightarrow> 'j stream_consumer \<Rightarrow> bool" where
  "counts_between J K used returned c c' \<longleftrightarrow>
     (\<forall>t. logged t False c' = logged t False c + sum_list (map (input_failures J K t) used))
     \<and> (\<forall>k. logged k True c + returned k \<le> logged k True c'
           \<and> logged k True c' \<le> logged k True c + sum_list (map (input_events J K k) used))"

lemma counts_between_trans:
  assumes "counts_between J K u1 r1 c c1" "counts_between J K u2 r2 c1 c2"
    and "\<And>k. r k = r1 k + r2 k"
  shows "counts_between J K (u1 @ u2) r c c2"
proof -
  have f: "logged t False c1 = logged t False c + sum_list (map (input_failures J K t) u1)"
    "logged t False c2 = logged t False c1 + sum_list (map (input_failures J K t) u2)" for t
    using assms(1,2) by (simp_all add: counts_between_def)
  have k: "logged k True c + r1 k \<le> logged k True c1" "logged k True c1 + r2 k \<le> logged k True c2"
    "logged k True c1 \<le> logged k True c + sum_list (map (input_events J K k) u1)"
    "logged k True c2 \<le> logged k True c1 + sum_list (map (input_events J K k) u2)" for k
    using assms(1,2) by (simp_all add: counts_between_def)
  have "logged k True c + r k \<le> logged k True c2
      \<and> logged k True c2 \<le> logged k True c + sum_list (map (input_events J K k) (u1 @ u2))" for k
    using k [of k] assms(3) [of k] by simp
  with f show ?thesis by (simp add: counts_between_def)
qed

lemma counts_between_refl: "processed_log c' = processed_log c \<Longrightarrow> counts_between J K [] (\<lambda>_. 0) c c'"
  by (simp add: counts_between_def)

lemma pre_receive_log:
  "pre_receive c = Inl c1 \<Longrightarrow> processed_log c1 = processed_log c"
  "pre_receive c = Inr c1 \<Longrightarrow> processed_log c1 = processed_log c"
  by (auto simp: pre_receive_def Let_def split: if_splits prod.splits sum.splits)

lemma next_event_counts:
  "next_event J K is c = Some (c', rest, r) \<Longrightarrow>
     \<exists>used. is = used @ rest \<and> counts_between J K used (\<lambda>k. returned_events k r) c c'"
proof (induction "is" arbitrary: c)
  case Nil
  then show ?case
    by (auto split: sum.splits simp: counts_between_def dest!: pre_receive_log)
next
  case (Cons i "is")
  show ?case
  proof (cases "pre_receive c")
    case (Inl c1)
    then show ?thesis
      using Cons.prems pre_receive_log(1) [OF Inl] by (intro exI [of _ "[]"]) (auto simp: counts_between_def)
  next
    case (Inr c1)
    note pre = pre_receive_log(2) [OF Inr]
    show ?thesis
    proof (cases i)
      case (RecvError e)
      then show ?thesis
        using Cons.prems Inr pre by (intro exI [of _ "[i]"]) (auto simp: counts_between_def)
    next
      case (Received m err g)
      obtain c2 oc where hm: "handle_message J K m err (c1\<lparr>sc_resources := g (sc_resources c1)\<rparr>) = (c2, oc)"
        by fastforce
      have step: "counts_between J K [i] (\<lambda>k. case oc of Continue \<Rightarrow> 0 | Return r \<Rightarrow> returned_events k r) c c2"
        using handle_message_counts [OF hm] pre Received by (simp add: counts_between_def)
      show ?thesis
      proof (cases oc)
        case Continue
        then have "next_event J K is c2 = Some (c', rest, r)" using Cons.prems Inr Received hm by simp
        then obtain used where u: "is = used @ rest" "counts_between J K used (\<lambda>k. returned_events k r) c2 c'"
          using Cons.IH by blast
        have "counts_between J K ([i] @ used) (\<lambda>k. returned_events k r) c c'"
          by (rule counts_between_trans [OF step u(2)]) (simp add: Continue)
        then show ?thesis using u(1) by (intro exI [of _ "[i] @ used"]) simp
      next
        case (Return r')
        then have "c' = c2" "rest = is" "r = r'" using Cons.prems Inr Received hm by simp_all
        with step Return show ?thesis by (intro exI [of _ "[i]"]) simp
      qed
    qed
  qed
qed

definition delivered_of :: "string \<Rightarrow> 'j solana_event list \<Rightarrow> nat" where
  "delivered_of kind es = length (filter (\<lambda>e. event_type_as_str (event_type e) = kind) es)"

lemma consume_counts:
  "consume J K gs is c = (es, c', rest) \<Longrightarrow>
     \<exists>used. is = used @ rest \<and> counts_between J K used (\<lambda>k. delivered_of k es) c c'"
proof (induction gs arbitrary: "is" c es)
  case Nil
  then show ?case by (auto simp: counts_between_def delivered_of_def)
next
  case (Cons g gs)
  let ?c = "c\<lparr>sc_resources := g (sc_resources c)\<rparr>"
  show ?case
  proof (cases "next_event J K is ?c")
    case None
    then show ?thesis using Cons.prems by (auto simp: counts_between_def delivered_of_def)
  next
    case (Some p)
    then obtain c1 rest1 r where ne: "next_event J K is ?c = Some (c1, rest1, r)" by (cases p) auto
    obtain es1 where rec: "consume J K gs rest1 c1 = (es1, c', rest)"
      and es: "es = (case r of Inr (Some e) \<Rightarrow> e # es1 | _ \<Rightarrow> es1)"
      using Cons.prems ne by (auto split: prod.splits)
    obtain u1 where u1: "is = u1 @ rest1" "counts_between J K u1 (\<lambda>k. returned_events k r) c c1"
      using next_event_counts [OF ne] by (auto simp: counts_between_def)
    obtain u2 where u2: "rest1 = u2 @ rest" "counts_between J K u2 (\<lambda>k. delivered_of k es1) c1 c'"
      using Cons.IH [OF rec] by blast
    have "counts_between J K (u1 @ u2) (\<lambda>k. delivered_of k es) c c'"
      by (rule counts_between_trans [OF u1(2) u2(2)]) (auto simp: es delivered_of_def split: sum.split option.split)
    then show ?thesis using u1(1) u2(1) by (intro exI [of _ "u1 @ u2"]) simp
  qed
qed

section \<open>Property\<close>

text \<open>
  C38. What the consumer reports to the metrics wrapper, over any number of calls of \<open>next_event\<close> on any
  answers of Kafka: of the messages the calls consume, \<open>record_event_processed\<close> is called with the topic and
  a failure exactly twice for each one that does not decode and once for each one without payload, and
  for no other; it is called with a type and a success at least once for each event of that type that the
  calls deliver, and at most once for each message that decodes to one, so that a filtered event and one
  whose commit fails are reported as successes too.
\<close>

theorem processed_calls:
  assumes "consume J K gs is c = (es, c', rest)"
  shows "\<exists>used. is = used @ rest
    \<and> (\<forall>t. count_list (processed_log c') (t, False)
          = count_list (processed_log c) (t, False) + sum_list (map (input_failures J K t) used))
    \<and> (\<forall>k. count_list (processed_log c) (k, True) + delivered_of k es \<le> count_list (processed_log c') (k, True)
         \<and> count_list (processed_log c') (k, True)
             \<le> count_list (processed_log c) (k, True) + sum_list (map (input_events J K k) used))"
  using consume_counts [OF assms] unfolding counts_between_def .

text \<open>A message that does not decode, then an error of Kafka: two failures of its topic.\<close>

definition undecodable :: kafka_message where
  "undecodable = \<lparr>km_topic = ''solana.tokens.proto'', km_offset = 1, km_payload = Some [9]\<rparr>"

lemma undecodable_consumed:
  obtains c' where "consume json_tree sample_codecs [id] [Received undecodable None id, RecvError ''down''] sample_consumer
    = ([], c', [])"
proof -
  have rm: "sc_resources sample_consumer = resource_manager_new (sample_limits 10)"
    by (simp add: sample_consumer_def stream_consumer_new_def)
  have p: "km_payload undecodable = Some [9]" "km_topic undecodable = ''solana.tokens.proto''"
    by (simp_all add: undecodable_def)
  obtain e where "decode_event json_tree sample_codecs (km_topic undecodable) b = Some (Inl e)" for b
    by (auto simp: p decode_event_def sample_codecs_def)
  then have h: "handle_message json_tree sample_codecs undecodable None sample_consumer
      = (fst (commit_kafka_offset None undecodable (record_event_processed (km_topic undecodable) False
          (record_event_processed (km_topic undecodable) False sample_consumer))), Continue)"
    by (simp add: handle_message_def internal_process_kafka_message_def p(1) commit_then_def
        commit_kafka_offset_def)
  let ?c = "fst (handle_message json_tree sample_codecs undecodable None sample_consumer)"
  have "sc_resources ?c = resource_manager_new (sample_limits 10)"
    by (simp add: h commit_kafka_offset_def record_event_processed_def rm)
  note pre = sample_pre_receive [OF rm] sample_pre_receive [OF this]
  have "sample_consumer\<lparr>sc_resources := sc_resources sample_consumer\<rparr> = sample_consumer" by simp
  then show ?thesis
    using that [of ?c] pre h by simp
qed

theorem processed_calls_witness:
  "\<exists>c'. consume json_tree sample_codecs [id] [Received undecodable None id, RecvError ''down''] sample_consumer
      = ([], c', [])
    \<and> count_list (processed_log c') (''solana.tokens.proto'', False) = 2"
proof -
  obtain c' where run: "consume json_tree sample_codecs [id]
      [Received undecodable None id, RecvError ''down''] sample_consumer = ([], c', [])"
    by (rule undecodable_consumed)
  have "processed_log sample_consumer = []" by (simp add: sample_consumer_def stream_consumer_new_def)
  moreover have "input_failures json_tree sample_codecs ''solana.tokens.proto'' (Received undecodable None id) = 2"
    by (simp add: undecodable_def decode_event_def sample_codecs_def)
  ultimately show ?thesis using processed_calls [OF run] run by auto
qed

end
