(* ===== verification/TopicTest.thy ===== *)
theory TopicTest
  imports Float64
begin

text \<open>
  tools/src/bin: the endpoint tests, which subscribe to one topic after the other and count what
  arrives. \<open>focused_test.rs\<close> (of which \<open>comprehensive_test.rs\<close> is a copy) and \<open>extended_test.rs\<close> differ in the
  loop that polls the consumer. rdkafka, the environment and the clock are arguments: an answer of a
  poll comes with the instant at which the code has it. Logging is left out.
\<close>

section \<open>The polling loops\<close>

datatype poll = PollMessage i64 usize | PollError string | PollTimeout

record topic_stats =
  message_count :: u32
  total_message_size :: u64
  first_offset :: "i64 option"
  last_offset :: "i64 option"

definition no_messages :: topic_stats where
  "no_messages = \<lparr>message_count = 0, total_message_size = 0, first_offset = None, last_offset = None\<rparr>"

definition count_message :: "i64 \<Rightarrow> usize \<Rightarrow> topic_stats \<Rightarrow> topic_stats" where
  "count_message offset payload_size st =
     st\<lparr>message_count := message_count st + 1,
        first_offset := (if first_offset st = None then Some offset else first_offset st),
        last_offset := Some offset,
        total_message_size := total_message_size st + payload_size\<rparr>"

text \<open>
  The loops on the answers that will come: the statistics at the break with its instant, or \<open>None\<close> when
  the answers do not end the loop.
\<close>

fun focused_loop ::
  "instant \<Rightarrow> duration \<Rightarrow> topic_stats \<Rightarrow> (poll \<times> instant) list \<Rightarrow> (topic_stats \<times> instant) option" where
  "focused_loop start timeout st [] = None"
| "focused_loop start timeout st ((PollMessage offset payload_size, now) # ps) =
     focused_loop start timeout (count_message offset payload_size st) ps"
| "focused_loop start timeout st ((PollError e, now) # ps) = focused_loop start timeout st ps"
| "focused_loop start timeout st ((PollTimeout, now) # ps) =
     (if timeout \<le> now - start then Some (st, now) else focused_loop start timeout st ps)"

fun extended_loop ::
  "instant \<Rightarrow> duration \<Rightarrow> instant \<Rightarrow> topic_stats \<Rightarrow> (poll \<times> instant) list \<Rightarrow> (topic_stats \<times> instant) option" where
  "extended_loop start timeout last_message_time st [] = None"
| "extended_loop start timeout last_message_time st ((PollMessage offset payload_size, now) # ps) =
     extended_loop start timeout now (count_message offset payload_size st) ps"
| "extended_loop start timeout last_message_time st ((PollError e, now) # ps) =
     extended_loop start timeout last_message_time st ps"
| "extended_loop start timeout last_message_time st ((PollTimeout, now) # ps) =
     (if timeout \<le> now - last_message_time then Some (st, now)
      else if timeout \<le> now - start then Some (st, now)
      else extended_loop start timeout last_message_time st ps)"

section \<open>The test of an endpoint\<close>

record topic_result =
  tr_success :: bool
  tr_message_count :: u32
  tr_avg_message_size :: "u64 option"
  tr_first_message_offset :: "i64 option"
  tr_last_message_offset :: "i64 option"
  tr_error_message :: "string option"
  tr_test_duration_seconds :: u64

record extended_result = topic_result +
  er_topic :: string

definition replace_dots :: "string \<Rightarrow> string" where
  "replace_dots = map (\<lambda>c. if c = CHR ''.'' then CHR ''-'' else c)"

definition elapsed_secs :: "instant \<Rightarrow> instant \<Rightarrow> u64" where
  "elapsed_secs start now = of_nat ((now - start) div 1000000000)"

definition failed_result :: "string \<Rightarrow> u64 \<Rightarrow> topic_result" where
  "failed_result message secs =
     \<lparr>tr_success = False, tr_message_count = 0, tr_avg_message_size = None, tr_first_message_offset = None,
      tr_last_message_offset = None, tr_error_message = Some message, tr_test_duration_seconds = secs\<rparr>"

definition average_size :: "topic_stats \<Rightarrow> u64 option" where
  "average_size st =
     (if 0 < message_count st then Some (total_message_size st div ucast (message_count st)) else None)"

definition result_of :: "string \<Rightarrow> topic_stats \<Rightarrow> u64 \<Rightarrow> topic_result + topic_result" where
  "result_of none_text st secs =
     (if 0 < message_count st then
        Inr \<lparr>tr_success = True, tr_message_count = message_count st, tr_avg_message_size = average_size st,
             tr_first_message_offset = first_offset st, tr_last_message_offset = last_offset st,
             tr_error_message = None, tr_test_duration_seconds = secs\<rparr>
      else Inl (failed_result none_text secs))"

definition endpoint_settings ::
  "string \<Rightarrow> string \<Rightarrow> string \<Rightarrow> string \<Rightarrow> string \<Rightarrow> string \<Rightarrow> string \<Rightarrow> string \<Rightarrow> string option" where
  "endpoint_settings group_id session heartbeat bootstrap user pass protocol =
     [''bootstrap.servers'' \<mapsto> bootstrap,
      ''group.id'' \<mapsto> group_id,
      ''auto.offset.reset'' \<mapsto> ''latest'',
      ''security.protocol'' \<mapsto> protocol,
      ''sasl.mechanism'' \<mapsto> ''SCRAM-SHA-512'',
      ''sasl.username'' \<mapsto> user,
      ''sasl.password'' \<mapsto> pass,
      ''session.timeout.ms'' \<mapsto> session,
      ''heartbeat.interval.ms'' \<mapsto> heartbeat,
      ''enable.auto.commit'' \<mapsto> ''true'']"

text \<open>
  What a test meets: the start, the answers of \<open>create\<close> (to its settings) and \<open>subscribe\<close> with the
  instants at which a failure is reported, the instant at which the loop is entered, and the polls.
\<close>

record endpoint =
  ep_start :: instant
  ep_create :: "(string \<Rightarrow> string option) \<Rightarrow> string + unit"
  ep_subscribe :: "string \<Rightarrow> string + unit"
  ep_entered :: instant
  ep_polls :: "(poll \<times> instant) list"

definition focused_endpoint ::
  "string \<Rightarrow> string \<Rightarrow> string \<Rightarrow> string \<Rightarrow> string \<Rightarrow> u64 \<Rightarrow> endpoint \<Rightarrow> (topic_result + topic_result) option" where
  "focused_endpoint bootstrap user pass protocol topic timeout_seconds k =
     (let group_id = user @ ''-focused-test-'' @ replace_dots topic
      in case ep_create k (endpoint_settings group_id ''45000'' ''15000'' bootstrap user pass protocol) of
           Inl e \<Rightarrow> Some (Inl (failed_result (''Failed to create consumer: '' @ e) (elapsed_secs (ep_start k) (ep_entered k))))
         | Inr _ \<Rightarrow>
             (case ep_subscribe k topic of
                Inl e \<Rightarrow> Some (Inl (failed_result (''Failed to subscribe: '' @ e) (elapsed_secs (ep_start k) (ep_entered k))))
              | Inr _ \<Rightarrow>
                  map_option
                    (\<lambda>(st, now). result_of ''No messages received'' st (elapsed_secs (ep_start k) now))
                    (focused_loop (ep_start k) (from_secs (unat timeout_seconds)) no_messages (ep_polls k))))"

definition with_topic :: "string \<Rightarrow> topic_result \<Rightarrow> extended_result" where
  "with_topic topic r = topic_result.extend r (extended_result.fields topic)"

definition extended_endpoint ::
  "string \<Rightarrow> string \<Rightarrow> string \<Rightarrow> string \<Rightarrow> string \<Rightarrow> u64 \<Rightarrow> endpoint
   \<Rightarrow> (extended_result + extended_result) option" where
  "extended_endpoint bootstrap user pass protocol topic timeout_seconds k =
     (let group_id = user @ ''-extended-test-'' @ replace_dots topic
      in map_option (map_sum (with_topic topic) (with_topic topic))
         (case ep_create k (endpoint_settings group_id ''30000'' ''10000'' bootstrap user pass protocol) of
           Inl e \<Rightarrow> Some (Inl (failed_result (''Failed to create consumer: '' @ e) (elapsed_secs (ep_start k) (ep_entered k))))
         | Inr _ \<Rightarrow>
             (case ep_subscribe k topic of
                Inl e \<Rightarrow>
                  Some (Inl (failed_result (''Failed to subscribe to topic: '' @ e) (elapsed_secs (ep_start k) (ep_entered k))))
              | Inr _ \<Rightarrow>
                  map_option
                    (\<lambda>(st, now). result_of ''No messages received within timeout period'' st (elapsed_secs (ep_start k) now))
                    (extended_loop (ep_start k) (from_secs (unat timeout_seconds)) (ep_entered k) no_messages
                      (ep_polls k)))))"

section \<open>The test programs\<close>

text \<open>The environment: \<open>None\<close> is the panic of \<open>expect\<close> for a variable that is not set.\<close>

definition test_environment :: "(string \<Rightarrow> string option) \<Rightarrow> (string \<times> string \<times> string \<times> string) option" where
  "test_environment env =
     (case (env ''KAFKA_BROKERS'', env ''KAFKA_USERNAME'', env ''KAFKA_PASSWORD'') of
        (Some bootstrap, Some user, Some pass) \<Rightarrow>
          Some (bootstrap, user, pass,
            (case env ''KAFKA_SECURITY_PROTOCOL'' of Some protocol \<Rightarrow> protocol | None \<Rightarrow> ''SASL_PLAINTEXT''))
      | _ \<Rightarrow> None)"

definition focused_topics :: "(string \<times> string \<times> u64) list" where
  "focused_topics =
     [(''solana.dextrades.proto'', ''Solana DEX Trades (Protobuf)'', 90),
      (''solana.tokens.proto'', ''Solana Token Events (Protobuf)'', 90),
      (''solana.transactions.proto'', ''Solana Transactions (Protobuf)'', 90)]"

definition extended_topics :: "(string \<times> string \<times> u64) list" where
  "extended_topics =
     [(''solana.dextrades.proto'', ''Solana DEX Trades (Protobuf)'', 60),
      (''solana.tokens.proto'', ''Solana Token Events (Protobuf)'', 60),
      (''solana.transactions.proto'', ''Solana Transactions (Protobuf)'', 60),
      (''solana.dextrades'', ''Solana DEX Trades (JSON)'', 60),
      (''solana.transactions'', ''Solana Transactions (JSON)'', 60),
      (''solana.transfers'', ''Solana Token Transfers'', 60),
      (''solana.instructions'', ''Solana Instructions'', 60),
      (''solana.instruction_balance_updates'', ''Solana Balance Updates'', 60),
      (''solana.broadcasted.transactions'', ''Solana Mempool Transactions'', 60),
      (''solana.broadcasted.dextrades'', ''Solana Mempool DEX Trades'', 60),
      (''ethereum.dextrades'', ''Ethereum DEX Trades'', 60),
      (''bitcoin.transactions'', ''Bitcoin Transactions'', 60),
      (''tron.dextrades'', ''Tron DEX Trades'', 60)]"

fun either :: "'r + 'r \<Rightarrow> 'r" where
  "either (Inl r) = r"
| "either (Inr r) = r"

text \<open>One test after the other, each with the endpoint it meets; a test that does not end ends nothing.\<close>

fun run_topics ::
  "(string \<Rightarrow> u64 \<Rightarrow> endpoint \<Rightarrow> ('r + 'r) option) \<Rightarrow> (string \<times> string \<times> u64) list \<Rightarrow> endpoint list
   \<Rightarrow> 'r list option" where
  "run_topics test [] ks = Some []"
| "run_topics test ((topic, description, timeout_seconds) # ts) (k # ks) =
     Option.bind (test topic timeout_seconds k) (\<lambda>r. map_option ((#) (either r)) (run_topics test ts ks))"
| "run_topics test (t # ts) [] = None"

text \<open>The summary: working and all endpoints, the messages (\<open>u32\<close>), and the data.\<close>

definition received_bytes :: "topic_result \<Rightarrow> f64 option" where
  "received_bytes r =
     map_option (\<lambda>size. f_of_nat (unat (ucast (tr_message_count r) * size))) (tr_avg_message_size r)"

definition f_sum :: "f64 list \<Rightarrow> f64" where
  "f_sum xs = foldl f_add (f_lit 0) xs"

definition focused_summary :: "topic_result list \<Rightarrow> nat \<times> nat \<times> u32 \<times> f64" where
  "focused_summary results =
     (let successful_tests = filter tr_success results
      in (length successful_tests, length results, sum_list (map tr_message_count successful_tests),
          f_div (f_sum (List.map_filter received_bytes successful_tests)) (f_lit 1073741824)))"

definition extended_summary :: "topic_result list \<Rightarrow> nat \<times> nat \<times> nat \<times> u32 \<times> f64" where
  "extended_summary results =
     (let successful_tests = filter tr_success results; failed_tests = filter (\<lambda>r. \<not> tr_success r) results
      in (length successful_tests, length failed_tests, length results,
          sum_list (map tr_message_count successful_tests),
          f_sum (map (\<lambda>b. f_div b (f_lit 1048576)) (List.map_filter received_bytes successful_tests))))"

definition focused_main ::
  "(string \<Rightarrow> string option) \<Rightarrow> endpoint list \<Rightarrow> (topic_result list \<times> (nat \<times> nat \<times> u32 \<times> f64)) option" where
  "focused_main env ks =
     Option.bind (test_environment env) (\<lambda>(bootstrap, user, pass, protocol).
       map_option (\<lambda>results. (results, focused_summary results))
         (run_topics (focused_endpoint bootstrap user pass protocol) focused_topics ks))"

definition extended_main ::
  "(string \<Rightarrow> string option) \<Rightarrow> endpoint list
   \<Rightarrow> (extended_result list \<times> (nat \<times> nat \<times> nat \<times> u32 \<times> f64)) option" where
  "extended_main env ks =
     Option.bind (test_environment env) (\<lambda>(bootstrap, user, pass, protocol).
       map_option (\<lambda>results. (results, extended_summary (map topic_result.truncate results)))
         (run_topics (extended_endpoint bootstrap user pass protocol) extended_topics ks))"

section \<open>The contract of the polling loops\<close>

text \<open>
  Both loops count the messages and ignore the errors; they decide only after a poll that ran out of
  time, on the instants of the last message and of now.
\<close>

locale polling =
  fixes loop :: "instant \<Rightarrow> topic_stats \<Rightarrow> (poll \<times> instant) list \<Rightarrow> (topic_stats \<times> instant) option"
    and stop :: "instant \<Rightarrow> instant \<Rightarrow> bool"
  assumes loop_end: "loop latest st [] = None"
    and loop_message: "loop latest st ((PollMessage offset bytes, now) # ps) = loop now (count_message offset bytes st) ps"
    and loop_error: "loop latest st ((PollError e, now) # ps) = loop latest st ps"
    and loop_timeout: "loop latest st ((PollTimeout, now) # ps) = (if stop latest now then Some (st, now) else loop latest st ps)"
begin

lemma no_timeout_no_end: "(\<forall>now. (PollTimeout, now) \<notin> set ps) \<Longrightarrow> loop latest st ps = None"
proof (induction ps arbitrary: latest st)
  case (Cons p ps)
  then show ?case by (cases p; cases "fst p") (auto simp: loop_message loop_error)
qed (simp add: loop_end)

text \<open>The statistics of a loop that ends are those of the messages before its latest poll.\<close>

lemma ends_counting:
  "loop latest st ps = Some (st', now) \<Longrightarrow>
   \<exists>us vs. ps = us @ (PollTimeout, now) # vs
     \<and> st' = fold (\<lambda>p st. case fst p of PollMessage offset bytes \<Rightarrow> count_message offset bytes st | _ \<Rightarrow> st) us st"
proof (induction ps arbitrary: latest st)
  case (Cons p ps)
  obtain a t where p: "p = (a, t)" by fastforce
  have rec: "\<exists>us vs. p # ps = us @ (PollTimeout, now) # vs
      \<and> st' = fold (\<lambda>p st. case fst p of PollMessage offset bytes \<Rightarrow> count_message offset bytes st | _ \<Rightarrow> st) us st"
    if "loop latest1 st1 ps = Some (st', now)"
      "st1 = (case a of PollMessage offset bytes \<Rightarrow> count_message offset bytes st | _ \<Rightarrow> st)" for latest1 st1
  proof -
    note more = Cons.IH [OF that(1)]
    obtain us vs where "ps = us @ (PollTimeout, now) # vs"
      "st' = fold (\<lambda>p st. case fst p of PollMessage offset bytes \<Rightarrow> count_message offset bytes st | _ \<Rightarrow> st) us st1"
      using more by blast
    then show ?thesis using that(2) p by (intro exI [of _ "p # us"] exI [of _ vs]) simp
  qed
  show ?case
  proof (cases a)
    case PollTimeout
    show ?thesis
    proof (cases "stop latest t")
      case True
      then show ?thesis
        using Cons.prems p PollTimeout by (intro exI [of _ "[]"] exI [of _ ps]) (simp add: loop_timeout)
    next
      case False
      have "loop latest st ps = Some (st', now)" using Cons.prems p PollTimeout False by (simp add: loop_timeout)
      then show ?thesis by (rule rec) (simp add: PollTimeout)
    qed
  next
    case (PollMessage offset bytes)
    have "loop t (count_message offset bytes st) ps = Some (st', now)"
      using Cons.prems p PollMessage by (simp add: loop_message)
    then show ?thesis by (rule rec) (simp add: PollMessage)
  next
    case (PollError e)
    have "loop latest st ps = Some (st', now)" using Cons.prems p PollError by (simp add: loop_error)
    then show ?thesis by (rule rec) (simp add: PollError)
  qed
qed (simp add: loop_end)

end

interpretation focused: polling "\<lambda>latest. focused_loop start timeout" "\<lambda>latest now. timeout \<le> now - start"
  for start timeout
  by unfold_locales simp_all

interpretation extended: polling "extended_loop start timeout" "\<lambda>latest now. timeout \<le> now - latest \<or> timeout \<le> now - start"
  for start timeout
  by unfold_locales simp_all

section \<open>Properties\<close>

lemma focused_None:
  "focused_loop start timeout st ps = None \<longleftrightarrow> (\<forall>(p, now) \<in> set ps. p = PollTimeout \<longrightarrow> now - start < timeout)"
  by (induction start timeout st ps rule: focused_loop.induct) auto

text \<open>The break on the last message never fires before the one on the start.\<close>

lemma extended_focused:
  "start \<le> latest \<Longrightarrow> \<forall>(p, now) \<in> set ps. start \<le> now \<Longrightarrow>
   extended_loop start timeout latest st ps = focused_loop start timeout st ps"
proof (induction ps arbitrary: latest st)
  case (Cons p ps)
  then show ?case by (cases p; cases "fst p") auto
qed simp

text \<open>
  A polling loop ends only by a poll that runs out of time once the given time has passed since
  the start; both loops end at the same answer, so the extended test's second clock, on the last
  message, changes nothing. While messages keep coming, each within the poll's limit, a test never ends,
  however long it was meant to run.
\<close>

theorem topic_test_ends:
  assumes "start \<le> entered" "\<forall>(p, now) \<in> set ps. start \<le> now"
  shows "(focused_loop start timeout st ps = None \<longleftrightarrow>
        (\<forall>(p, now) \<in> set ps. p = PollTimeout \<longrightarrow> now - start < timeout))
    \<and> extended_loop start timeout entered st ps = focused_loop start timeout st ps
    \<and> (\<forall>stream :: nat \<Rightarrow> i64 \<times> usize \<times> instant. focused_loop start timeout st
          (map (\<lambda>k. (case stream k of (offset, bytes, now) \<Rightarrow> (PollMessage offset bytes, now))) [0..<n]) = None)"
  using focused_None extended_focused [OF assms] by (auto simp: focused_None split: prod.splits)

definition counted :: "(poll \<times> instant) list \<Rightarrow> (i64 \<times> usize) list" where
  "counted ps = List.map_filter (\<lambda>p. case fst p of PollMessage offset bytes \<Rightarrow> Some (offset, bytes) | _ \<Rightarrow> None) ps"

definition count_all :: "(i64 \<times> usize) list \<Rightarrow> topic_stats" where
  "count_all ms = fold (\<lambda>(offset, bytes). count_message offset bytes) ms no_messages"

lemma counted_Cons:
  "counted ((PollMessage offset bytes, now) # ps) = (offset, bytes) # counted ps"
  "counted ((PollError e, now) # ps) = counted ps" "counted ((PollTimeout, now) # ps) = counted ps"
  by (simp_all add: counted_def List.map_filter_simps)

lemma fold_counted:
  "fold (\<lambda>p st. case fst p of PollMessage offset bytes \<Rightarrow> count_message offset bytes st | _ \<Rightarrow> st) us st =
     fold (\<lambda>(offset, bytes). count_message offset bytes) (counted us) st"
proof (induction us arbitrary: st)
  case (Cons p us)
  then show ?case by (cases p; cases "fst p") (auto simp: counted_Cons)
qed (simp add: counted_def List.map_filter_simps)

lemma count_all_fields:
  "message_count (count_all ms) = of_nat (length ms)
    \<and> total_message_size (count_all ms) = of_nat (sum_list (map (unat \<circ> snd) ms))
    \<and> first_offset (count_all ms) = (if ms = [] then None else Some (fst (hd ms)))
    \<and> last_offset (count_all ms) = (if ms = [] then None else Some (fst (last ms)))"
proof (induction ms rule: rev_induct)
  case (snoc m ms)
  have "count_all (ms @ [m]) = count_message (fst m) (snd m) (count_all ms)"
    by (simp add: count_all_def split: prod.split)
  with snoc show ?case by (cases ms) (auto simp: count_message_def)
qed (simp add: count_all_def no_messages_def)

text \<open>
  The result of a test whose consumer was created and subscribed, if it ends: it stops after some
  poll that ran out of time, and reports the messages before it: success if there was one, their number,
  the offsets of the first and the last, and the average of their sizes rounded down.
\<close>

theorem topic_test_result:
  assumes "focused_endpoint bootstrap user pass protocol topic secs k = Some r"
    and "ep_subscribe k topic = Inr ()" "\<And>settings. ep_create k settings = Inr ()"
    and "length (ep_polls k) < 2 ^ 32"
    and "sum_list (map (unat \<circ> snd) (counted (ep_polls k))) < 2 ^ 64"
  shows "\<exists>us now vs. ep_polls k = us @ (PollTimeout, now) # vs
    \<and> (isl r \<longleftrightarrow> counted us = [])
    \<and> unat (tr_message_count (either r)) = length (counted us)
    \<and> (counted us \<noteq> [] \<longrightarrow>
         tr_first_message_offset (either r) = Some (fst (hd (counted us)))
         \<and> tr_last_message_offset (either r) = Some (fst (last (counted us)))
         \<and> tr_avg_message_size (either r) =
             Some (of_nat (sum_list (map (unat \<circ> snd) (counted us)) div length (counted us))))"
proof -
  let ?secs = "\<lambda>now. elapsed_secs (ep_start k) now"
  obtain st now where fl: "focused_loop (ep_start k) (from_secs (unat secs)) no_messages (ep_polls k) = Some (st, now)"
    and r: "r = result_of ''No messages received'' st (?secs now)"
    using assms(1-3) by (auto simp: focused_endpoint_def Let_def)
  obtain us vs where split: "ep_polls k = us @ (PollTimeout, now) # vs"
    and st: "st = count_all (counted us)"
    using focused.ends_counting [OF fl] by (auto simp: fold_counted count_all_def)
  let ?ms = "counted us"
  have "length ?ms \<le> length us" by (simp add: counted_def List.map_filter_def)
  then have len: "length ?ms < 2 ^ 32" using assms(4) split by simp
  have "counted (ep_polls k) = ?ms @ counted ((PollTimeout, now) # vs)"
    by (simp add: split counted_def List.map_filter_def)
  then have sum: "sum_list (map (unat \<circ> snd) ?ms) < 2 ^ 64" using assms(5) by simp
  note f = count_all_fields [of ?ms, folded st]
  have count: "unat (message_count st) = length ?ms"
    using f len by (simp add: unat_of_nat)
  have total: "unat (total_message_size st) = sum_list (map (unat \<circ> snd) ?ms)"
    using f sum by (simp add: unat_of_nat)
  have pos: "0 < message_count st \<longleftrightarrow> ?ms \<noteq> []"
    by (simp add: word_less_nat_alt count)
  have "unat (ucast (message_count st) :: u64) = length ?ms"
    using count len by (simp add: unsigned_ucast_eq take_bit_nat_eq_self)
  then have avg: "total_message_size st div ucast (message_count st) = of_nat (sum_list (map (unat \<circ> snd) ?ms) div length ?ms)"
    by (simp add: word_arith_nat_div total)
  show ?thesis
    using f pos count avg split
    by (intro exI [of _ us] exI [of _ now] exI [of _ vs])
       (auto simp: r result_of_def failed_result_def average_size_def)
qed

section \<open>Witnesses\<close>

text \<open>Two messages one second apart, an error, and a poll that runs out of time after 95 seconds.\<close>

definition sample_endpoint :: endpoint where
  "sample_endpoint =
     \<lparr>ep_start = 0, ep_create = (\<lambda>_. Inr ()), ep_subscribe = (\<lambda>_. Inr ()), ep_entered = from_secs 1,
      ep_polls = [(PollMessage 7 100, from_secs 2), (PollMessage 8 101, from_secs 3), (PollError ''down'', from_secs 4),
                  (PollTimeout, from_secs 14), (PollTimeout, from_secs 95)]\<rparr>"

theorem topic_test_ends_witness:
  "extended_loop 0 (from_secs 90) (from_secs 1) no_messages (ep_polls sample_endpoint)
     = focused_loop 0 (from_secs 90) no_messages (ep_polls sample_endpoint)
   \<and> focused_loop 0 (from_secs 90) no_messages (ep_polls sample_endpoint) \<noteq> None"
proof -
  have "(0 :: instant) \<le> from_secs 1" "\<forall>(p, now) \<in> set (ep_polls sample_endpoint). 0 \<le> now" by simp_all
  from topic_test_ends [OF this, of "from_secs 90" no_messages]
  show ?thesis by (auto simp: sample_endpoint_def from_secs_def)
qed

theorem topic_test_result_witness:
  "\<exists>r. focused_endpoint ''b'' ''u'' ''p'' ''SASL_SSL'' ''solana.tokens.proto'' 90 sample_endpoint = Some (Inr r)
     \<and> unat (tr_message_count r) = 2 \<and> tr_avg_message_size r = Some 100"
proof -
  obtain r where r: "focused_endpoint ''b'' ''u'' ''p'' ''SASL_SSL'' ''solana.tokens.proto'' 90 sample_endpoint = Some r"
    by (simp add: focused_endpoint_def sample_endpoint_def from_secs_def Let_def)
  have ok: "ep_subscribe sample_endpoint ''solana.tokens.proto'' = Inr ()"
    "\<And>settings. ep_create sample_endpoint settings = Inr ()" by (simp_all add: sample_endpoint_def)
  have small: "length (ep_polls sample_endpoint) < 2 ^ 32"
    "sum_list (map (unat \<circ> snd) (counted (ep_polls sample_endpoint))) < 2 ^ 64"
    by (simp_all add: sample_endpoint_def counted_Cons) (simp add: counted_def List.map_filter_simps)
  from topic_test_result [OF r ok small] obtain us now vs where
    split: "ep_polls sample_endpoint = us @ (PollTimeout, now) # vs"
    and res: "isl r \<longleftrightarrow> counted us = []" "unat (tr_message_count (either r)) = length (counted us)"
      "counted us \<noteq> [] \<Longrightarrow> tr_avg_message_size (either r) =
             Some (of_nat (sum_list (map (unat \<circ> snd) (counted us)) div length (counted us)))"
    by blast
  have "counted us = [(7, 100), (8, 101)]"
    using split unfolding sample_endpoint_def
    by (auto simp: Cons_eq_append_conv counted_Cons) (simp_all add: counted_def List.map_filter_simps)
  with res r show ?thesis by (cases r) (auto simp flip: numeral_2_eq_2)
qed

end
