(* ===== verification/ConnectionTests.thy ===== *)
theory ConnectionTests
  imports Service
begin

text \<open>
  The programs that try a connection: tools/src/main.rs, examples/direct_connection_test.rs and
  examples/connection_test.rs. A program is the list of the lines it prints, each with the values in it;
  rdkafka, the environment, the file system, hex and the UTF-8 check answer through arguments.
\<close>

section \<open>One receive with a time limit\<close>

record raw_message =
  rw_topic :: string
  rw_partition :: "32 word"
  rw_offset :: i64
  rw_key :: "bytes option"
  rw_payload :: "bytes option"

datatype timed_recv = Arrived raw_message | RecvFailure string | TimeUp

datatype line =
    ConsumerCreated
  | CreateFailure string
  | Subscribed
  | SubscribeFailure string
  | MessageLine string "32 word" i64 "nat option" "nat option"
  | PreviewLine string
  | LooksLikeJson
  | LooksBinary
  | ReceiveFailure string
  | NothingReceived
  | HistoricalLine i64 "nat option"
  | HistoricalFailure string
  | NothingHistorical
  | HistoricalCreateFailure string
  | Verdict string

definition message_line :: "raw_message \<Rightarrow> line" where
  "message_line m =
     MessageLine (rw_topic m) (rw_partition m) (rw_offset m) (map_option length (rw_key m))
       (map_option length (rw_payload m))"

section \<open>The live test\<close>

record live_environment =
  lv_brokers :: string
  lv_username :: string
  lv_password :: string
  lv_topic :: string
  lv_group_id :: string
  lv_security_protocol :: string

definition env_or :: "environment \<Rightarrow> string \<Rightarrow> string \<Rightarrow> string" where
  "env_or env key fallback = (case env key of Some v \<Rightarrow> v | None \<Rightarrow> fallback)"

text \<open>\<open>None\<close> is the panic of \<open>expect\<close> for a variable that is not set.\<close>

definition live_environment :: "environment \<Rightarrow> live_environment option" where
  "live_environment env =
     (case (env ''KAFKA_BROKERS'', env ''KAFKA_USERNAME'', env ''KAFKA_PASSWORD'') of
        (Some bs, Some user, Some pass) \<Rightarrow>
          Some \<lparr>lv_brokers = bs, lv_username = user, lv_password = pass,
                lv_topic = env_or env ''KAFKA_TOPIC'' ''solana.dextrades.proto'',
                lv_group_id = env_or env ''KAFKA_GROUP_ID'' ''live-test-consumer'',
                lv_security_protocol = env_or env ''KAFKA_SECURITY_PROTOCOL'' ''SASL_PLAINTEXT''\<rparr>
      | _ \<Rightarrow> None)"

definition live_settings :: "live_environment \<Rightarrow> string \<Rightarrow> string option" where
  "live_settings l =
     [''bootstrap.servers'' \<mapsto> lv_brokers l,
      ''debug'' \<mapsto> ''broker,topic,metadata,fetch'',
      ''group.id'' \<mapsto> lv_group_id l,
      ''auto.offset.reset'' \<mapsto> ''latest'',
      ''security.protocol'' \<mapsto> lv_security_protocol l,
      ''sasl.mechanism'' \<mapsto> ''SCRAM-SHA-512'',
      ''sasl.username'' \<mapsto> lv_username l,
      ''sasl.password'' \<mapsto> lv_password l,
      ''session.timeout.ms'' \<mapsto> ''30000'',
      ''heartbeat.interval.ms'' \<mapsto> ''10000'']"

definition earliest_settings :: "live_environment \<Rightarrow> string \<Rightarrow> string option" where
  "earliest_settings l =
     [''debug'' \<mapsto> ''broker,topic,metadata,fetch'',
      ''bootstrap.servers'' \<mapsto> lv_brokers l,
      ''group.id'' \<mapsto> ''live-test-earliest'',
      ''auto.offset.reset'' \<mapsto> ''earliest'',
      ''security.protocol'' \<mapsto> ''SASL_PLAINTEXT'',
      ''sasl.mechanism'' \<mapsto> ''SCRAM-SHA-512'',
      ''sasl.username'' \<mapsto> lv_username l,
      ''sasl.password'' \<mapsto> lv_password l]"

definition live_summary :: "line list" where
  "live_summary =
     [Verdict ''Authentication: Working'', Verdict ''Connection: Established'',
      Verdict ''Topic subscription: Successful'', Verdict ''Message reception: Depends on live activity'',
      Verdict ''OVERALL RESULT: Bitquery Kafka connection is PRODUCTION READY!'']"

definition preview_line :: "(bytes \<Rightarrow> string) \<Rightarrow> bytes \<Rightarrow> line list" where
  "preview_line hex payload = (if 0 < length payload then [PreviewLine (hex (take (min 100 (length payload)) payload))] else [])"

definition historical_test ::
  "((string \<Rightarrow> string option) \<Rightarrow> string + unit) \<Rightarrow> (string \<Rightarrow> string + unit) \<Rightarrow> timed_recv \<Rightarrow> live_environment \<Rightarrow> line list" where
  "historical_test create subscribe received l =
     (case create (earliest_settings l) of
        Inl e \<Rightarrow> [HistoricalCreateFailure e]
      | Inr _ \<Rightarrow>
          (case subscribe (lv_topic l) of
             Inl _ \<Rightarrow> []
           | Inr _ \<Rightarrow>
               (case received of
                  Arrived m \<Rightarrow>
                    [HistoricalLine (rw_offset m) (map_option length (rw_payload m)),
                     Verdict ''HISTORICAL DATA ACCESS: VERIFIED!'',
                     Verdict ''CONNECTION AND AUTHENTICATION: FULLY WORKING!'']
                | RecvFailure e \<Rightarrow> [HistoricalFailure e]
                | TimeUp \<Rightarrow> [NothingHistorical])))"

definition live_test ::
  "(bytes \<Rightarrow> string) \<Rightarrow> ((string \<Rightarrow> string option) \<Rightarrow> string + unit) \<Rightarrow> (string \<Rightarrow> string + unit)
   \<Rightarrow> timed_recv \<Rightarrow> timed_recv \<Rightarrow> environment \<Rightarrow> line list option" where
  "live_test hex create subscribe received historical env =
     map_option (\<lambda>l.
       case create (live_settings l) of
         Inl e \<Rightarrow> [CreateFailure e]
       | Inr _ \<Rightarrow>
           (case subscribe (lv_topic l) of
              Inl e \<Rightarrow> [ConsumerCreated, SubscribeFailure e]
            | Inr _ \<Rightarrow>
                [ConsumerCreated, Subscribed] @
                (case received of
                   Arrived m \<Rightarrow>
                     [message_line m]
                     @ (case rw_payload m of Some payload \<Rightarrow> preview_line hex payload | None \<Rightarrow> [])
                     @ [Verdict ''REAL-TIME COMMUNICATION TEST: PASSED!'',
                        Verdict ''Bitquery Solana Kafka integration is LIVE and functional!'']
                 | RecvFailure e \<Rightarrow> [ReceiveFailure e] @ historical_test create subscribe historical l @ live_summary
                 | TimeUp \<Rightarrow> [NothingReceived] @ historical_test create subscribe historical l @ live_summary)))
       (live_environment env)"

section \<open>The direct connection test\<close>

definition direct_settings :: "string \<Rightarrow> string option" where
  "direct_settings =
     [''bootstrap.servers'' \<mapsto> ''rpk0.bitquery.io:9092,rpk1.bitquery.io:9092,rpk2.bitquery.io:9092'',
      ''group.id'' \<mapsto> ''solana_113-test-connection'',
      ''auto.offset.reset'' \<mapsto> ''latest'',
      ''enable.auto.commit'' \<mapsto> ''true'',
      ''session.timeout.ms'' \<mapsto> ''30000'',
      ''heartbeat.interval.ms'' \<mapsto> ''10000'',
      ''security.protocol'' \<mapsto> ''SASL_PLAINTEXT'',
      ''sasl.mechanism'' \<mapsto> ''PLAIN'',
      ''sasl.username'' \<mapsto> ''solana_113'',
      ''sasl.password'' \<mapsto> ''cuDDLAUguo75blkNdbCBSHvNCK1udw'']"

text \<open>The lines, and the result of \<open>main\<close>.\<close>

definition direct_test ::
  "(bytes \<Rightarrow> string) \<Rightarrow> (bytes \<Rightarrow> string option) \<Rightarrow> ((string \<Rightarrow> string option) \<Rightarrow> string + unit)
   \<Rightarrow> (string \<Rightarrow> string + unit) \<Rightarrow> timed_recv \<Rightarrow> line list \<times> (string + unit)" where
  "direct_test hex from_utf8 create subscribe received =
     (case create direct_settings of
        Inl e \<Rightarrow> ([CreateFailure e], Inl e)
      | Inr _ \<Rightarrow>
          (case subscribe ''solana.dextrades.proto'' of
             Inl e \<Rightarrow> ([ConsumerCreated, SubscribeFailure e], Inl e)
           | Inr _ \<Rightarrow>
               (case received of
                  Arrived m \<Rightarrow>
                    ([ConsumerCreated, Subscribed, message_line m]
                     @ (case rw_payload m of
                          None \<Rightarrow> []
                        | Some payload \<Rightarrow>
                            PreviewLine (hex (take (min 100 (length payload)) payload))
                            # (case from_utf8 payload of
                                 Some text \<Rightarrow> if text \<noteq> [] \<and> hd text = CHR ''{'' then [LooksLikeJson] else []
                               | None \<Rightarrow> [LooksBinary]))
                     @ [Verdict ''REAL COMMUNICATION TEST PASSED!''], Inr ())
                | RecvFailure e \<Rightarrow> ([ConsumerCreated, Subscribed, ReceiveFailure e], Inl e)
                | TimeUp \<Rightarrow> ([ConsumerCreated, Subscribed, NothingReceived], Inr ()))))"

section \<open>The connection test of the SDK\<close>

text \<open>
  \<open>connection_test.rs\<close>: the default configuration, one event. The answer is the result of \<open>main\<close> with the
  event it logged, or \<open>None\<close> while the program waits for one.
\<close>

definition connection_test ::
  "('j solana_event, 'ec) channel_ops \<Rightarrow> 'j json_ops \<Rightarrow> codecs \<Rightarrow> (init_config \<Rightarrow> sdk_error + unit) \<Rightarrow> environment
   \<Rightarrow> (string \<Rightarrow> bool) \<Rightarrow> ((string \<Rightarrow> string option) \<Rightarrow> string + unit) \<Rightarrow> (string list \<Rightarrow> string + unit)
   \<Rightarrow> string \<Rightarrow> usize \<Rightarrow> bool \<Rightarrow> kafka_input list
   \<Rightarrow> (string + 'j solana_event option \<times> ('j, 'ec, 'bc, 'w) client) option" where
  "connection_test E J K init env path_exists create subscribe uuid num_cpus metrics_feature is =
     (let cfg = config_default uuid num_cpus metrics_feature
      in case init \<lparr>log_filter = ''debug,bitquery_solana_kafka=trace'', init_enable_metrics = True, metrics_port = 9090\<rparr> of
           Inl e \<Rightarrow> Some (Inl (sdk_error_display e))
         | Inr _ \<Rightarrow>
             if env_or env ''KAFKA_SECURITY_PROTOCOL'' [] = ''SASL_SSL'' \<and> \<not> path_exists (ca_cert (ssl (cfg_kafka cfg)))
             then Some (Inl ''Missing SSL certificates'')
             else
               (case and_then (client_new path_exists create cfg)
                       (\<lambda>client :: ('j, 'ec, 'bc, 'w) client. and_then (client_start subscribe client) (\<lambda>_. Inr client)) of
                  Inl e \<Rightarrow> Some (Inl (sdk_error_display e))
                | Inr client \<Rightarrow>
                    (case client_next_event J K is client of
                       None \<Rightarrow> None
                     | Some (_, _, Inl e) \<Rightarrow> Some (Inl (sdk_error_display e))
                     | Some (client', _, Inr event) \<Rightarrow> Some (Inr (event, client_shutdown E client')))))"

section \<open>What the verdicts say\<close>

text \<open>
  The live test prints that the connection is ready for production exactly when no live message came:
  a consumer was created and subscribed, and the receive failed or ran out of time, whatever became of
  the historical messages.
\<close>

lemma live_test_ready:
  assumes "live_test hex create subscribe received historical env = Some ls"
  shows "Verdict ''OVERALL RESULT: Bitquery Kafka connection is PRODUCTION READY!'' \<in> set ls \<longleftrightarrow>
    (\<exists>l. live_environment env = Some l \<and> is_ok (create (live_settings l)) \<and> is_ok (subscribe (lv_topic l))
       \<and> (\<forall>m. received \<noteq> Arrived m))"
proof -
  obtain l where l: "live_environment env = Some l" using assms by (auto simp: live_test_def)
  consider e where "create (live_settings l) = Inl e"
    | e where "create (live_settings l) = Inr ()" "subscribe (lv_topic l) = Inl e"
    | "create (live_settings l) = Inr ()" "subscribe (lv_topic l) = Inr ()"
    by (cases "create (live_settings l)"; cases "subscribe (lv_topic l)") auto
  then show ?thesis
  proof cases
    case 3
    then show ?thesis
      using assms l
      by (cases received)
         (auto simp: live_test_def live_summary_def preview_line_def message_line_def split: option.splits if_splits)
  qed (use assms l in \<open>auto simp: live_test_def\<close>)
qed

text \<open>
  The direct test fails only by rdkafka, and reports success as well when nothing was received.
\<close>

lemma direct_test_result:
  "is_ok (snd (direct_test hex from_utf8 create subscribe received)) \<longleftrightarrow>
     is_ok (create direct_settings) \<and> is_ok (subscribe ''solana.dextrades.proto'')
     \<and> (\<forall>e. received \<noteq> RecvFailure e)"
  by (auto simp: direct_test_def split: sum.split timed_recv.split)

text \<open>
  The default configuration uses no TLS, so the certificate check of the connection test guards nothing:
  the settings handed to rdkafka are those without TLS, whatever the environment says.
\<close>

lemma connection_test_plaintext:
  "kafka_settings (cfg_kafka (config_default uuid n mf)) ''security.protocol'' = Some ''SASL_PLAINTEXT''"
  by (simp add: kafka_settings_def config_default_def kafka_config_default_def Let_def)

end
