(* ===== verification/Tracing.thy ===== *)
theory Tracing
  imports Events
begin

text \<open>
  src/observability/tracing.rs: spans, their contexts, the tracer and the timing helpers. The clock (in
  microseconds), the fresh UUIDs and the order in which a map of tags is iterated are arguments. The
  texts of durations and of errors are the arguments of the code.
\<close>

section \<open>Spans\<close>

record trace_context =
  tc_trace_id :: string
  tc_span_id :: string
  tc_parent_span_id :: "string option"
  tc_baggage :: "string \<Rightarrow> string option"

datatype span_status = SpanOk | SpanError | SpanCancelled | SpanTimeout

record span_event =
  se_name :: string
  se_timestamp :: u64
  se_attributes :: "string \<Rightarrow> string option"

record span =
  sp_span_id :: string
  sp_parent_span_id :: "string option"
  sp_trace_id :: string
  sp_operation_name :: string
  sp_start_time :: u64
  sp_end_time :: "u64 option"
  sp_tags :: "string \<Rightarrow> string option"
  sp_events :: "span_event list"
  sp_status :: span_status

record tracer =
  tr_service_name :: string
  tr_version :: string

record active_span =
  as_span :: span
  as_finished :: bool

definition tracer_new :: "string \<Rightarrow> string \<Rightarrow> tracer" where
  "tracer_new service_name version = \<lparr>tr_service_name = service_name, tr_version = version\<rparr>"

definition active_span_new :: "span \<Rightarrow> active_span" where
  "active_span_new s = \<lparr>as_span = s, as_finished = False\<rparr>"

definition service_tags :: "tracer \<Rightarrow> string \<Rightarrow> string option" where
  "service_tags t = [''service.name'' \<mapsto> tr_service_name t, ''service.version'' \<mapsto> tr_version t]"

definition start_span :: "tracer \<Rightarrow> string \<Rightarrow> string \<Rightarrow> u64 \<Rightarrow> string \<Rightarrow> active_span" where
  "start_span t trace_id span_id now operation_name =
     active_span_new
       \<lparr>sp_span_id = span_id, sp_parent_span_id = None, sp_trace_id = trace_id,
        sp_operation_name = operation_name, sp_start_time = now, sp_end_time = None,
        sp_tags = service_tags t, sp_events = [], sp_status = SpanOk\<rparr>"

definition start_child_span :: "tracer \<Rightarrow> string \<Rightarrow> u64 \<Rightarrow> trace_context \<Rightarrow> string \<Rightarrow> active_span" where
  "start_child_span t span_id now parent_context operation_name =
     active_span_new
       \<lparr>sp_span_id = span_id, sp_parent_span_id = Some (tc_span_id parent_context),
        sp_trace_id = tc_trace_id parent_context, sp_operation_name = operation_name, sp_start_time = now,
        sp_end_time = None, sp_tags = service_tags t, sp_events = [], sp_status = SpanOk\<rparr>"

definition set_tag :: "string \<Rightarrow> string \<Rightarrow> active_span \<Rightarrow> active_span" where
  "set_tag key value a =
     (if \<not> as_finished a then a\<lparr>as_span := (as_span a)\<lparr>sp_tags := (sp_tags (as_span a))(key \<mapsto> value)\<rparr>\<rparr> else a)"

definition add_span_event ::
  "u64 \<Rightarrow> string \<Rightarrow> (string \<Rightarrow> string option) option \<Rightarrow> active_span \<Rightarrow> active_span" where
  "add_span_event now name attributes a =
     (if \<not> as_finished a then
        (let event = \<lparr>se_name = name, se_timestamp = now,
               se_attributes = (case attributes of Some m \<Rightarrow> m | None \<Rightarrow> Map.empty)\<rparr>
         in a\<lparr>as_span := (as_span a)\<lparr>sp_events := sp_events (as_span a) @ [event]\<rparr>\<rparr>)
      else a)"

definition set_status :: "span_status \<Rightarrow> active_span \<Rightarrow> active_span" where
  "set_status status a =
     (if \<not> as_finished a then a\<lparr>as_span := (as_span a)\<lparr>sp_status := status\<rparr>\<rparr> else a)"

definition record_error :: "u64 \<Rightarrow> string \<Rightarrow> active_span \<Rightarrow> active_span" where
  "record_error now error a =
     (if \<not> as_finished a then
        add_span_event now ''error'' (Some [''error.message'' \<mapsto> error])
          (set_tag ''error.message'' error (set_tag ''error'' ''true'' (set_status SpanError a)))
      else a)"

definition span_context :: "active_span \<Rightarrow> trace_context" where
  "span_context a =
     \<lparr>tc_trace_id = sp_trace_id (as_span a), tc_span_id = sp_span_id (as_span a),
      tc_parent_span_id = sp_parent_span_id (as_span a), tc_baggage = Map.empty\<rparr>"

definition sat_sub :: "u64 \<Rightarrow> u64 \<Rightarrow> u64" where
  "sat_sub a b = (if b \<le> a then a - b else 0)"

text \<open>\<open>finish\<close> consumes the active span: the finished span is all that is left.\<close>

definition finish :: "u64 \<Rightarrow> active_span \<Rightarrow> span" where
  "finish now a =
     (if \<not> as_finished a then (as_span a)\<lparr>sp_end_time := Some now\<rparr> else as_span a)"

definition active_duration_micros :: "active_span \<Rightarrow> u64 option" where
  "active_duration_micros a = map_option (\<lambda>e. sat_sub e (sp_start_time (as_span a))) (sp_end_time (as_span a))"

definition finished_duration_micros :: "u64 \<Rightarrow> span \<Rightarrow> u64" where
  "finished_duration_micros now s =
     sat_sub (case sp_end_time s of Some e \<Rightarrow> e | None \<Rightarrow> now) (sp_start_time s)"

definition tag_json :: "'j json_ops \<Rightarrow> (string \<Rightarrow> string option) \<Rightarrow> string \<Rightarrow> 'j list" where
  "tag_json J tags k =
     (case tags k of
        Some v \<Rightarrow> [j_object J [(''key'', j_string J k), (''value'', j_string J v), (''type'', j_string J ''string'')]]
      | None \<Rightarrow> [])"

definition event_json :: "'j json_ops \<Rightarrow> span_event \<Rightarrow> 'j" where
  "event_json J e =
     j_object J
       [(''timestamp'', j_u64 J (se_timestamp e)),
        (''fields'', j_array J [j_object J [(''key'', j_string J ''event''), (''value'', j_string J (se_name e))]])]"

text \<open>\<open>order\<close> is the order in which the tags are iterated.\<close>

definition to_jaeger_json :: "'j json_ops \<Rightarrow> string list \<Rightarrow> u64 \<Rightarrow> span \<Rightarrow> 'j" where
  "to_jaeger_json J order now s =
     j_object J
       [(''traceID'', j_string J (sp_trace_id s)),
        (''spanID'', j_string J (sp_span_id s)),
        (''parentSpanID'', (case sp_parent_span_id s of Some p \<Rightarrow> j_string J p | None \<Rightarrow> j_null J)),
        (''operationName'', j_string J (sp_operation_name s)),
        (''startTime'', j_u64 J (sp_start_time s)),
        (''duration'', j_u64 J (finished_duration_micros now s)),
        (''tags'', j_array J (concat (map (tag_json J (sp_tags s)) order))),
        (''logs'', j_array J (map (event_json J) (sp_events s)))]"

text \<open>The global tracer and the two functions that use it; the version is that of the package.\<close>

definition global_tracer :: "string \<Rightarrow> tracer" where
  "global_tracer pkg_version = tracer_new ''zola-streams'' pkg_version"

definition global_start_span :: "string \<Rightarrow> string \<Rightarrow> string \<Rightarrow> u64 \<Rightarrow> string \<Rightarrow> active_span" where
  "global_start_span pkg_version = start_span (global_tracer pkg_version)"

definition global_start_child_span :: "string \<Rightarrow> string \<Rightarrow> u64 \<Rightarrow> trace_context \<Rightarrow> string \<Rightarrow> active_span" where
  "global_start_child_span pkg_version = start_child_span (global_tracer pkg_version)"

section \<open>Traced code\<close>

text \<open>
  The macros \<open>traced!\<close> and \<open>traced_async!\<close>: the code runs between the start and the finish of a span;
  \<open>show_error\<close> is the debug text of its error.
\<close>

definition traced ::
  "tracer \<Rightarrow> string \<Rightarrow> string \<Rightarrow> u64 \<Rightarrow> u64 \<Rightarrow> u64 \<Rightarrow> ('e \<Rightarrow> string) \<Rightarrow> string
   \<Rightarrow> ('w \<Rightarrow> 'w \<times> ('e + 'a)) \<Rightarrow> 'w \<Rightarrow> 'w \<times> ('e + 'a) \<times> span" where
  "traced t trace_id span_id started failed ended show_error operation code w =
     (let a = start_span t trace_id span_id started operation;
          (w', result) = code w;
          a' = (case result of
                  Inr _ \<Rightarrow> set_status SpanOk a
                | Inl e \<Rightarrow> record_error failed (show_error e) a)
      in (w', result, finish ended a'))"

record performance_monitor =
  pm_tracer :: tracer

definition performance_monitor_new :: "string \<Rightarrow> string \<Rightarrow> performance_monitor" where
  "performance_monitor_new pkg_version service_name = \<lparr>pm_tracer = tracer_new service_name pkg_version\<rparr>"

text \<open>\<open>time_operation\<close> and \<open>time_async_operation\<close>: \<open>before\<close> and \<open>after\<close> are the readings of the clock.\<close>

definition time_operation ::
  "performance_monitor \<Rightarrow> string \<Rightarrow> string \<Rightarrow> u64 \<Rightarrow> u64 \<Rightarrow> instant \<Rightarrow> instant \<Rightarrow> string
   \<Rightarrow> ('w \<Rightarrow> 'w \<times> 'a) \<Rightarrow> 'w \<Rightarrow> 'w \<times> ('a \<times> duration) \<times> span" where
  "time_operation p trace_id span_id started ended before after operation_name f w =
     (let a = start_span (pm_tracer p) trace_id span_id started operation_name;
          (w', result) = f w;
          d = after - before;
          a' = set_tag ''duration_ms'' (dec_string (d div 1000000)) a
      in (w', (result, d), finish ended a'))"

section \<open>Properties\<close>

text \<open>What a program does with a span before it finishes it.\<close>

datatype span_op =
    SetTag string string
  | AddEvent u64 string "(string \<Rightarrow> string option) option"
  | SetStatus span_status
  | RecordError u64 string

fun span_exec :: "span_op \<Rightarrow> active_span \<Rightarrow> active_span" where
  "span_exec (SetTag k v) a = set_tag k v a"
| "span_exec (AddEvent now n attrs) a = add_span_event now n attrs a"
| "span_exec (SetStatus s) a = set_status s a"
| "span_exec (RecordError now e) a = record_error now e a"

lemmas span_defs =
  set_tag_def add_span_event_def set_status_def record_error_def start_span_def start_child_span_def
  active_span_new_def span_context_def

text \<open>What no operation touches.\<close>

definition identity :: "active_span \<Rightarrow> string \<times> string \<times> string option \<times> string \<times> u64 \<times> u64 option \<times> bool" where
  "identity a = (sp_trace_id (as_span a), sp_span_id (as_span a), sp_parent_span_id (as_span a),
     sp_operation_name (as_span a), sp_start_time (as_span a), sp_end_time (as_span a), as_finished a)"

lemma identity_exec [simp]: "identity (span_exec op a) = identity a"
  by (cases op) (simp_all add: identity_def span_defs Let_def)

lemma identity_run: "identity (fold span_exec ops a) = identity a"
  by (induction ops arbitrary: a) simp_all

text \<open>A chain of spans, each started from the context of the one before, after any operations on it.\<close>

fun span_chain :: "tracer \<Rightarrow> (string \<times> u64 \<times> string \<times> span_op list) list \<Rightarrow> active_span \<Rightarrow> active_span list" where
  "span_chain t [] a = [a]"
| "span_chain t ((span_id, now, name, ops) # rest) a =
     a # span_chain t rest (fold span_exec ops (start_child_span t span_id now (span_context a) name))"

lemma span_chain_hd: "span_chain t steps a \<noteq> [] \<and> hd (span_chain t steps a) = a"
  by (cases steps) auto

lemma child_identity:
  "identity (fold span_exec ops (start_child_span t span_id now (span_context a) name)) =
     (sp_trace_id (as_span a), span_id, Some (sp_span_id (as_span a)), name, now, None, False)"
  by (simp only: identity_run) (simp add: identity_def span_defs)

lemma span_chain_ids:
  "map (\<lambda>b. sp_span_id (as_span b)) (span_chain t steps a) = sp_span_id (as_span a) # map fst steps
   \<and> sp_trace_id ` as_span ` set (span_chain t steps a) = {sp_trace_id (as_span a)}
   \<and> map (\<lambda>b. sp_parent_span_id (as_span b)) (tl (span_chain t steps a))
       = map Some (butlast (sp_span_id (as_span a) # map fst steps))"
proof (induction steps arbitrary: a)
  case (Cons step steps)
  obtain span_id now name ops where step: "step = (span_id, now, name, ops)" by (cases step) auto
  define b where "b = fold span_exec ops (start_child_span t span_id now (span_context a) name)"
  have b: "sp_trace_id (as_span b) = sp_trace_id (as_span a)" "sp_span_id (as_span b) = span_id"
    "sp_parent_span_id (as_span b) = Some (sp_span_id (as_span a))"
    using child_identity [of ops t span_id now a name] by (simp_all add: b_def identity_def)
  obtain cs where cs: "span_chain t steps b = b # cs"
    using span_chain_hd [of t steps b] by (cases "span_chain t steps b") auto
  from Cons.IH [of b] show ?case
    by (simp add: step b_def [symmetric] b cs)
qed simp

text \<open>
  Trace correlation: along any chain of child spans, each started from the context of the one before
  it whatever was done to that span meanwhile, every span has the trace id of the first, its own fresh
  span id, and the span id of its predecessor as its parent; and the finished span keeps them, ends at
  the time it is finished and lasts the difference, or 0 if the clock went back.
\<close>

theorem span_chain_correlated:
  "map (\<lambda>b. sp_span_id (as_span b)) (span_chain t steps a) = sp_span_id (as_span a) # map fst steps
    \<and> sp_trace_id ` as_span ` set (span_chain t steps a) = {sp_trace_id (as_span a)}
    \<and> map (\<lambda>b. sp_parent_span_id (as_span b)) (tl (span_chain t steps a))
        = map Some (butlast (sp_span_id (as_span a) # map fst steps))
    \<and> (let s = finish ended (fold span_exec ops (start_child_span t span_id now (span_context a) name))
       in sp_trace_id s = sp_trace_id (as_span a) \<and> sp_parent_span_id s = Some (sp_span_id (as_span a))
          \<and> unat (finished_duration_micros later s) = unat ended - unat now)"
proof -
  have "(let s = finish ended (fold span_exec ops (start_child_span t span_id now (span_context a) name))
       in sp_trace_id s = sp_trace_id (as_span a) \<and> sp_parent_span_id s = Some (sp_span_id (as_span a))
          \<and> unat (finished_duration_micros later s) = unat ended - unat now)"
    using child_identity [of ops t span_id now a name]
    by (simp add: identity_def finish_def finished_duration_micros_def sat_sub_def Let_def
        unat_sub word_le_nat_alt)
  then show ?thesis using span_chain_ids [of t steps a] by blast
qed

text \<open>
  Traced code returns its own result and world; its span ends as an error, with the tag and the event
  of the error, exactly if the code failed.
\<close>

lemma traced_transparent:
  assumes "traced t trace_id span_id started failed ended show_error operation code w = (w', result, s)"
  shows "(w', result) = code w" "sp_status s = (if isl result then SpanError else SpanOk)"
    and "sp_tags s ''error'' = (if isl result then Some ''true'' else None)"
    and "length (sp_events s) = (if isl result then 1 else 0)"
  using assms
  by (auto simp: traced_def span_defs finish_def service_tags_def Let_def split: prod.splits sum.splits)

end
