(* ===== verification/Logging.thy ===== *)
theory Logging
  imports Events
begin

text \<open>
  src/observability/logging.rs: correlation ids, log contexts, the layer that keeps a context for each
  thread and turns tracing events into entries, and the logger of business events. The thread a call
  runs on, the fields of a tracing event and its metadata are arguments.
\<close>

section \<open>Contexts\<close>

datatype correlation_id = CorrelationId (correlation_text: string)

definition correlation_new :: "string \<Rightarrow> correlation_id" where
  "correlation_new uuid = CorrelationId uuid"

definition correlation_from_string :: "string \<Rightarrow> correlation_id" where
  "correlation_from_string text = CorrelationId text"

record 'j log_context =
  lc_correlation_id :: "correlation_id option"
  lc_user_id :: "string option"
  lc_request_id :: "string option"
  lc_component :: "string option"
  lc_fields :: "string \<Rightarrow> 'j option"

definition log_context_new :: "'j log_context" where
  "log_context_new =
     \<lparr>lc_correlation_id = None, lc_user_id = None, lc_request_id = None, lc_component = None,
      lc_fields = Map.empty\<rparr>"

definition with_correlation_id :: "correlation_id \<Rightarrow> 'j log_context \<Rightarrow> 'j log_context" where
  "with_correlation_id i c = c\<lparr>lc_correlation_id := Some i\<rparr>"

definition with_component :: "string \<Rightarrow> 'j log_context \<Rightarrow> 'j log_context" where
  "with_component component c = c\<lparr>lc_component := Some component\<rparr>"

definition with_field :: "string \<Rightarrow> 'j \<Rightarrow> 'j log_context \<Rightarrow> 'j log_context" where
  "with_field key value c = c\<lparr>lc_fields := (lc_fields c)(key \<mapsto> value)\<rparr>"

definition with_user_id :: "string \<Rightarrow> 'j log_context \<Rightarrow> 'j log_context" where
  "with_user_id user_id c = c\<lparr>lc_user_id := Some user_id\<rparr>"

definition with_request_id :: "string \<Rightarrow> 'j log_context \<Rightarrow> 'j log_context" where
  "with_request_id request_id c = c\<lparr>lc_request_id := Some request_id\<rparr>"

section \<open>The visitor\<close>

text \<open>
  The values a tracing event may carry, with the debug text of one that is recorded by \<open>record_debug\<close>,
  and what the visitor makes of each: only texts under the name "message" become the message. A number
  serde_json cannot represent is dropped (\<open>from_f64\<close>).
\<close>

datatype field_value =
    DebugValue string | StrValue string | I64Value i64 | U64Value u64 | F64Value f64 | BoolValue bool

record 'j field_visitor =
  fv_message :: "string option"
  fv_fields :: "string \<Rightarrow> 'j option"

definition visitor_new :: "'j field_visitor" where
  "visitor_new = \<lparr>fv_message = None, fv_fields = Map.empty\<rparr>"

fun put_field :: "string \<Rightarrow> 'j \<Rightarrow> 'j field_visitor \<Rightarrow> 'j field_visitor" where
  "put_field name v visitor = visitor\<lparr>fv_fields := (fv_fields visitor)(name \<mapsto> v)\<rparr>"

definition record_text :: "'j json_ops \<Rightarrow> string \<Rightarrow> string \<Rightarrow> 'j field_visitor \<Rightarrow> 'j field_visitor" where
  "record_text J name text visitor =
     (if name = ''message'' then visitor\<lparr>fv_message := Some text\<rparr>
      else put_field name (j_string J text) visitor)"

fun record_field ::
  "'j json_ops \<Rightarrow> (i64 \<Rightarrow> 'j) \<Rightarrow> string \<times> field_value \<Rightarrow> 'j field_visitor \<Rightarrow> 'j field_visitor" where
  "record_field J j_i64 (name, DebugValue text) visitor = record_text J name text visitor"
| "record_field J j_i64 (name, StrValue text) visitor = record_text J name text visitor"
| "record_field J j_i64 (name, I64Value n) visitor = put_field name (j_i64 n) visitor"
| "record_field J j_i64 (name, U64Value n) visitor = put_field name (j_u64 J n) visitor"
| "record_field J j_i64 (name, F64Value x) visitor =
     (case x of Fin _ \<Rightarrow> put_field name (j_f64 J x) visitor | _ \<Rightarrow> visitor)"
| "record_field J j_i64 (name, BoolValue b) visitor = put_field name (j_bool J b) visitor"

section \<open>The layer\<close>

record 'j structured_log_entry =
  le_timestamp :: string
  le_level :: string
  le_message :: string
  le_module :: "string option"
  le_location :: "string option"
  le_context :: "'j log_context"
  le_fields :: "string \<Rightarrow> 'j option"

record event_metadata =
  em_level :: string
  em_module_path :: "string option"
  em_file :: "string option"
  em_line :: "u32 option"

type_synonym thread_id = string

record 'j logging_layer =
  context_storage :: "thread_id \<Rightarrow> 'j log_context option"

definition logging_layer_new :: "'j logging_layer" where
  "logging_layer_new = \<lparr>context_storage = Map.empty\<rparr>"

definition set_context :: "thread_id \<Rightarrow> 'j log_context \<Rightarrow> 'j logging_layer \<Rightarrow> 'j logging_layer" where
  "set_context thread c l = l\<lparr>context_storage := (context_storage l)(thread \<mapsto> c)\<rparr>"

definition get_context :: "thread_id \<Rightarrow> 'j logging_layer \<Rightarrow> 'j log_context" where
  "get_context thread l = (case context_storage l thread of Some c \<Rightarrow> c | None \<Rightarrow> log_context_new)"

definition to_uppercase :: "string \<Rightarrow> string" where
  "to_uppercase = map (\<lambda>c. let n = of_char c :: nat in if 97 \<le> n \<and> n \<le> 122 then char_of (n - 32) else c)"

definition on_event ::
  "'j json_ops \<Rightarrow> (i64 \<Rightarrow> 'j) \<Rightarrow> string \<Rightarrow> event_metadata \<Rightarrow> (string \<times> field_value) list \<Rightarrow> 'j logging_layer
   \<Rightarrow> 'j structured_log_entry" where
  "on_event J j_i64 now meta event_fields l =
     (let visitor = fold (record_field J j_i64) event_fields visitor_new
      in \<lparr>le_timestamp = now,
          le_level = to_uppercase (em_level meta),
          le_message = (case fv_message visitor of Some m \<Rightarrow> m | None \<Rightarrow> []),
          le_module = Some (case em_module_path meta of Some p \<Rightarrow> p | None \<Rightarrow> ''unknown''),
          le_location =
            Some ((case em_file meta of Some f \<Rightarrow> f | None \<Rightarrow> ''unknown'') @ '':''
              @ dec_string (unat (case em_line meta of Some n \<Rightarrow> n | None \<Rightarrow> 0))),
          le_context = log_context_new,
          le_fields = fv_fields visitor\<rparr>)"

section \<open>Business events\<close>

text \<open>
  A call sets the context of its thread and emits one tracing event: its level and its fields, recorded
  through their display text, \<open>show_f64\<close> for a number.
\<close>

definition business_event_logger_new :: "'j logging_layer" where
  "business_event_logger_new = logging_layer_new"

type_synonym emitted = "string \<times> (string \<times> field_value) list"

definition maybe_correlated :: "correlation_id option \<Rightarrow> 'j log_context \<Rightarrow> 'j log_context" where
  "maybe_correlated i c = (case i of Some x \<Rightarrow> with_correlation_id x c | None \<Rightarrow> c)"

definition log_dex_trade ::
  "'j json_ops \<Rightarrow> (f64 \<Rightarrow> string) \<Rightarrow> thread_id \<Rightarrow> string \<Rightarrow> string \<Rightarrow> f64 \<Rightarrow> f64 \<Rightarrow> correlation_id option
   \<Rightarrow> 'j logging_layer \<Rightarrow> 'j logging_layer \<times> emitted" where
  "log_dex_trade J show_f64 thread program pair volume_usd trade_price i l =
     (let context =
            with_field ''price'' (j_f64 J trade_price)
              (with_field ''volume_usd'' (j_f64 J volume_usd)
                (with_field ''trading_pair'' (j_string J pair)
                  (with_field ''program_id'' (j_string J program)
                    (with_field ''event_type'' (j_string J ''dex_trade'')
                      (with_component ''dex_processor'' log_context_new)))))
      in (set_context thread (maybe_correlated i context) l,
          ''INFO'',
          [(''message'', DebugValue ''DEX trade processed''), (''program_id'', DebugValue program),
           (''trading_pair'', DebugValue pair), (''volume_usd'', DebugValue (show_f64 volume_usd)),
           (''price'', DebugValue (show_f64 trade_price))]))"

definition log_error ::
  "'j json_ops \<Rightarrow> thread_id \<Rightarrow> string \<Rightarrow> string \<Rightarrow> string \<Rightarrow> correlation_id option
   \<Rightarrow> 'j logging_layer \<Rightarrow> 'j logging_layer \<times> emitted" where
  "log_error J thread component error_type error_message i l =
     (let context =
            with_field ''error_message'' (j_string J error_message)
              (with_field ''error_type'' (j_string J error_type)
                (with_field ''event_type'' (j_string J ''error'')
                  (with_component component log_context_new)))
      in (set_context thread (maybe_correlated i context) l,
          ''ERROR'',
          [(''message'', DebugValue ''Error occurred''), (''component'', DebugValue component),
           (''error_type'', DebugValue error_type), (''error_message'', DebugValue error_message)]))"

definition log_performance ::
  "'j json_ops \<Rightarrow> (f64 \<Rightarrow> string) \<Rightarrow> thread_id \<Rightarrow> string \<Rightarrow> f64 \<Rightarrow> bool \<Rightarrow> correlation_id option
   \<Rightarrow> 'j logging_layer \<Rightarrow> 'j logging_layer \<times> emitted" where
  "log_performance J show_f64 thread operation duration_ms success i l =
     (let context =
            with_field ''success'' (j_bool J success)
              (with_field ''duration_ms'' (j_f64 J duration_ms)
                (with_field ''operation'' (j_string J operation)
                  (with_field ''event_type'' (j_string J ''performance'')
                    (with_component ''performance_monitor'' log_context_new))))
      in (set_context thread (maybe_correlated i context) l,
          if success then ''INFO'' else ''WARN'',
          [(''message'', DebugValue ''Operation completed''), (''operation'', DebugValue operation),
           (''duration_ms'', DebugValue (show_f64 duration_ms)),
           (''success'', DebugValue (if success then ''true'' else ''false''))]))"

section \<open>The global logger\<close>

text \<open>\<open>BUSINESS_LOGGER\<close> is made by its first use: \<open>None\<close> is before it.\<close>

type_synonym 'j business_logger = "'j logging_layer option"

definition get_business_logger :: "'j business_logger \<Rightarrow> 'j logging_layer" where
  "get_business_logger g = (case g of None \<Rightarrow> business_event_logger_new | Some l \<Rightarrow> l)"

definition log_dex_trade_global ::
  "'j json_ops \<Rightarrow> (f64 \<Rightarrow> string) \<Rightarrow> thread_id \<Rightarrow> string \<Rightarrow> string \<Rightarrow> f64 \<Rightarrow> f64 \<Rightarrow> correlation_id option
   \<Rightarrow> 'j business_logger \<Rightarrow> 'j business_logger \<times> emitted" where
  "log_dex_trade_global J show_f64 thread program pair volume_usd trade_price i g =
     (let (l, entry) = log_dex_trade J show_f64 thread program pair volume_usd trade_price i (get_business_logger g)
      in (Some l, entry))"

definition log_error_global ::
  "'j json_ops \<Rightarrow> thread_id \<Rightarrow> string \<Rightarrow> string \<Rightarrow> string \<Rightarrow> correlation_id option
   \<Rightarrow> 'j business_logger \<Rightarrow> 'j business_logger \<times> emitted" where
  "log_error_global J thread component error_type error_message i g =
     (let (l, entry) = log_error J thread component error_type error_message i (get_business_logger g)
      in (Some l, entry))"

definition log_performance_global ::
  "'j json_ops \<Rightarrow> (f64 \<Rightarrow> string) \<Rightarrow> thread_id \<Rightarrow> string \<Rightarrow> f64 \<Rightarrow> bool \<Rightarrow> correlation_id option
   \<Rightarrow> 'j business_logger \<Rightarrow> 'j business_logger \<times> emitted" where
  "log_performance_global J show_f64 thread operation duration_ms success i g =
     (let (l, entry) = log_performance J show_f64 thread operation duration_ms success i (get_business_logger g)
      in (Some l, entry))"

section \<open>Properties\<close>

lemma get_set_context [simp]:
  "get_context t (set_context u c l) = (if t = u then c else get_context t l)"
  by (simp add: get_context_def set_context_def)

lemma get_context_new [simp]: "get_context t logging_layer_new = log_context_new"
  by (simp add: get_context_def logging_layer_new_def)

text \<open>A global call leaves the contexts of the other threads alone, and its own has the component of the call.\<close>

lemma global_calls_by_thread:
  "fst (log_error_global J t part kind text i g) = Some l \<Longrightarrow>
     lc_component (get_context t l) = Some part
     \<and> (u \<noteq> t \<longrightarrow> get_context u l = get_context u (get_business_logger g))"
  "fst (log_dex_trade_global J show_f64 t program pair v p i g) = Some l \<Longrightarrow>
     lc_component (get_context t l) = Some ''dex_processor''
     \<and> (u \<noteq> t \<longrightarrow> get_context u l = get_context u (get_business_logger g))"
  "fst (log_performance_global J show_f64 t operation d success i g) = Some l \<Longrightarrow>
     lc_component (get_context t l) = Some ''performance_monitor''
     \<and> (u \<noteq> t \<longrightarrow> get_context u l = get_context u (get_business_logger g))"
  by (auto simp: log_error_global_def log_error_def log_dex_trade_global_def log_dex_trade_def
      log_performance_global_def log_performance_def maybe_correlated_def with_correlation_id_def
      with_component_def with_field_def Let_def split: option.split)

text \<open>The context of a thread is the last one set on it.\<close>

lemma context_of_thread:
  "get_context t (fold (\<lambda>(u, c). set_context u c) sets logging_layer_new) =
     (case filter (\<lambda>(u, c). u = t) sets of [] \<Rightarrow> log_context_new | cs \<Rightarrow> snd (last cs))"
proof (induction sets rule: rev_induct)
  case (snoc p sets)
  then show ?case by (cases p) (auto split: list.splits)
qed simp

text \<open>
  Contexts are kept apart by thread: after any sequence of \<open>set_context\<close> calls, a thread gets the last
  context set on it, and an empty one if none was. But no entry carries a context: the entry of an
  event emitted right after a business event was logged on the same thread has its level and message
  and an empty context, although the layer holds the one of the event, with its component and
  correlation id.
\<close>

theorem contexts_kept_but_not_logged:
  "get_context t (fold (\<lambda>(u, c). set_context u c) sets logging_layer_new) =
      (case filter (\<lambda>(u, c). u = t) sets of [] \<Rightarrow> log_context_new | cs \<Rightarrow> snd (last cs))
    \<and> (let (l', level, fields) = log_error J t component error_type error_message i l;
           entry = on_event J ji now (meta\<lparr>em_level := level\<rparr>) fields l'
       in lc_component (get_context t l') = Some component
          \<and> lc_correlation_id (get_context t l') = i
          \<and> le_level entry = ''ERROR'' \<and> le_message entry = ''Error occurred''
          \<and> le_context entry = log_context_new)"
  by (simp add: context_of_thread log_error_def on_event_def Let_def maybe_correlated_def with_correlation_id_def
      with_field_def with_component_def log_context_new_def record_text_def visitor_new_def to_uppercase_def
      split: option.split)

end
