(* ===== verification/Spec2Isabelle.thy ===== *)
theory Spec2Isabelle
  imports CircuitBreaker CircuitBreakerSdk Base58Cache Deduplicator Retry OneWorker Applications
    TradeMeter DexRaces ServiceAwaits Shutdown Facade TopicTest ConnectionTests Tracing Logging
begin

text \<open>
  A verification development for the Rust SDK and service that consume Bitquery's Solana streams from
  Kafka (src/src; file names below are relative to it).

  \<^bold>\<open>The program.\<close> The service (main.rs) reads a configuration, applies the overrides of the environment,
  validates it, starts a client and turns its event loop. The client (client.rs) owns the stream
  consumer, the resource manager and, in batch mode, a batch processor. The consumer (consumer.rs)
  receives a Kafka message, decompresses it, decodes it by its topic, takes the first event out of it,
  drops duplicates by signature, filters, commits the offset and returns the event. In batch mode
  \<open>process_events\<close> hands the event to the batch processor (batch_processor.rs), where a collector task
  forms batches and worker tasks run an event processor (processors/) over them. The resource manager
  (resource_manager.rs) counts messages in flight and raises backpressure, which the consumer and the
  client's loop obey. Beside this path stand the observability parts (metrics, health, tracing, logging,
  HTTP server) and utilities that nothing on the path calls yet: the circuit breakers, the retry loop, the
  Base58 cache and the message deduplicator. Five example applications (examples/) are built on the
  client, and a few programs (tools/, examples/) test the connection and the topics.

  \<^bold>\<open>Theories, in the order of the imports.\<close>
  \<^item> \<open>Prelude\<close>: names of the machine types, \<open>Result\<close> as a sum with the \<open>?\<close> operator, decimal printing,
    lemmas on lists and words. \<open>Threads\<close>: threads that share a state and interleave between its
    accesses, with the locale \<open>conserving\<close> of the quantities they keep. \<open>Float64\<close>: \<open>f64\<close> over the rationals, with rounding, the conversions of the
    language and \<open>str::parse\<close>; rounding is monotone, idempotent and exact on integers below 2^53.
  \<^item> \<open>Errors\<close> (error.rs, core/error.rs): both error enums and their texts.
  \<^item> \<open>Config\<close> (config.rs): the configuration records, defaults, constructors, and validation, whose five
    parts share the locale \<open>validator\<close>: what passes, and which part reports first.
  \<^item> \<open>CircuitBreaker\<close> and \<open>CircuitBreakerSdk\<close> (core/utils/): both breakers. The locale \<open>breaker\<close> states
    what a breaker promises on outcomes recorded while it is closed, and both files interpret it.
    The state machine of the SDK breaker has its invariant \<open>sdk_inv\<close> by rule induction.
  \<^item> \<open>Lru\<close>: the interface of the LRU cache of the crate lru, as the locale \<open>lru_cache\<close>, with lists as an
    instance. \<open>Base58Cache\<close> and \<open>Deduplicator\<close> (core/utils/) are proved over any such cache.
  \<^item> \<open>Compression\<close> (core/utils/compression.rs): both guesses and the fall-backs, on bytes.
  \<^item> \<open>Retry\<close> (core/utils/retry.rs): the loop, its delays in binary64 and its panics.
  \<^item> \<open>Events\<close>, \<open>Filters\<close>, \<open>Processors\<close> (events.rs, filters.rs, processors/): the event and its
    accessors over any JSON interface (locale \<open>json_api\<close>), the filter as written and as documented, both
    processors with what they count, print and panic on (locale \<open>guarded_processor\<close>). \<open>DexRaces\<close>: the
    statistics of the DEX processor, access by access, for workers that process at the same time.
  \<^item> \<open>Resources\<close> (resource_manager.rs): thresholds in binary64, counters that wrap; each method is
    one step. \<open>ResourceRaces\<close>: the same methods cut at every access of an atomic, for threads that run
    them at the same time (\<open>Threads\<close>); alone, a method does what \<open>Resources\<close> says.
  \<^item> \<open>Channel\<close>, \<open>Batch\<close> (batch_processor.rs): the channels of async_channel as the locale \<open>channel\<close>;
    collector and workers as one transition system. \<open>bp_inv\<close> says where every accepted event is; the
    lemmas of the locale \<open>batch_channels\<close> hold for any two channels and are interpreted on lists.
    \<open>BatchRaces\<close>: the same system with every call of the resource manager cut at its accesses, and the
    consumer's check beside it; \<open>racing_inv\<close> is its simulation by the system of \<open>Batch\<close>. \<open>OneWorker\<close>:
    that system with one worker, where \<open>one_worker_inv\<close> bounds the signals, and without events left.
  \<^item> \<open>Consumer\<close> (consumer.rs): the messages, the parsers, \<open>next_event\<close> over the answers of Kafka.
    \<open>next_event\<close> is recursive on these answers: \<open>None\<close> is an await that they do not end.
  \<^item> \<open>Pipeline\<close>: what the consumer's events meet in the accessors, the filter and the processors.
  \<^item> \<open>Client\<close> (client.rs): construction with the rdkafka settings, the methods, and \<open>process_events\<close> cut
    at its awaits, so that its steps interleave with those of the batch tasks. \<open>bp_follows\<close> is the
    simulation of the client's steps by those of the batch processor. \<open>Shutdown\<close>: what is under way in
    the batch processor, how much that can be (\<open>roomy\<close>), that the steps left after a shutdown
    (\<open>work_left\<close>) only decrease until no task can go on, and the ledger of a run (\<open>ledger_run\<close>): what the
    loop received is processed, abandoned by a panic, or at risk (\<open>at_risk\<close>).
  \<^item> \<open>Facade\<close> (utils/metrics.rs, core/utils/metrics.rs): the timer and the recorders as the operations they
    hand to the metrics facade, with the feature metrics as an argument (without it, the only
    configuration that builds, they hand on nothing); what each message emits, and which calls of
    \<open>record_event_processed\<close> a run of the consumer makes.
  \<^item> \<open>Addresses\<close>: program ids in Base58, as users and defaults give them, against those in hex that the
    consumer writes (locale \<open>hex_codec\<close>). \<open>Calls\<close>: sequences of completed calls of \<open>next_event\<close>, and the
    locale \<open>turn_loop\<close> of the loops that make them, with what each of their results was: decoded,
    filtered, delivered once. \<open>Awaits\<close>: \<open>next_event\<close> cut at its awaits, where a call can be
    dropped; \<open>awaits_next_event\<close> relates it to the whole call. \<open>Direct\<close>: without batch processing,
    \<open>process_events\<close> refines a plain loop of calls of \<open>next_event\<close> on the answers it has received.
  \<^item> \<open>Metrics\<close>, \<open>Health\<close>, \<open>HttpServer\<close>, \<open>Tracing\<close>, \<open>Logging\<close> (observability/, http_server.rs): the
    registry with its two lock sections, histogram statistics, Prometheus text, the trading collector;
    checkers, monitor and report, with the statuses linearly ordered by severity; the handlers of the
    HTTP routes; spans and contexts; log contexts for each thread, business log entries and their global logger.
  \<^item> \<open>Service\<close> (lib.rs, main.rs): initialization, environment overrides, commands, start, and the event
    loop, which is a \<open>turn_loop\<close>. \<open>ServiceAwaits\<close>: the same loop cut at its awaits, where it can be
    interrupted (\<open>service_inv\<close>); \<open>service_turns_at_awaits\<close> relates it to the turns.
  \<^item> \<open>Tuning\<close>, \<open>Applications\<close>, \<open>TradeMeter\<close> (../examples/): the two configurations tuned by hand; the
    basic consumer, the trading bot, the monitor and the high-volume application with their start and
    their loops, the first three turn by turn as instances of the locale \<open>application\<close>, which extends
    to \<open>turn_loop\<close>; the counters of the monitor with its reporter, access by access.
  \<^item> \<open>TopicTest\<close>, \<open>ConnectionTests\<close> (../tools/src, ../examples/): the polling loops of the endpoint
    tests (locale \<open>polling\<close>) with their results and summaries; the connection tests as the lines they
    print.

  \<^bold>\<open>Correspondence.\<close> A struct is a record with the fields of the source, an enum a datatype, an atomic a
  field updated by wrapping arithmetic, \<open>Err\<close> and \<open>Ok\<close> are \<open>Inl\<close> and \<open>Inr\<close>, a panic is a value of its own.
  A method returns its receiver updated. Instants and durations are counted in nanoseconds. A task is cut
  at its awaits; between two awaits it runs atomically, and tasks interleave in any order. On several
  threads this holds for what a lock or a channel protects, not for the atomics of the resource manager
  nor for the two lock sections of \<open>increment_counter\<close>: \<open>ResourceRaces\<close>, \<open>BatchRaces\<close>, \<open>DexRaces\<close> and
  \<open>Metrics\<close> model these at their own grain, in one order of the accesses that all threads see. \<open>set_gauge\<close>
  and \<open>record_histogram\<close> are put together from their two sections too (\<open>gauge_read\<close>, \<open>gauge_insert\<close>,
  \<open>histogram_push\<close>, \<open>histogram_insert\<close>), which \<open>ServiceAwaits\<close> runs one at a time. A string is the list
  of its UTF-8 bytes; \<open>trim\<close> strips the white space of Unicode in that encoding. A few fields are history,
  not state of the program: what was committed, delivered, offered, processed, slept or printed.

  \<^bold>\<open>Parameters.\<close> Code outside src/ is an argument: the LRU cache, the codecs of bs58, lz4_flex and flate2,
  the decoders generated from schemas/, serde_json (\<open>json_ops\<close>), async_channel (\<open>channel_ops\<close>), hex,
  rdkafka (the results of creating and subscribing a consumer, the messages and errors of \<open>recv\<close>, the
  results of commits), fastrand, UUIDs, clocks, the iteration order of hash maps, the printing of an
  \<open>f64\<close>, the environment and the file system. Where a property relies on such code, the reliance is a
  locale with its laws, or a named hypothesis, and a witness meets it.

  \<^bold>\<open>What the properties show.\<close>
  \<^item> Delivery: the consumer delivers an event at most once while its signature is remembered; through the
    client in batch mode every accepted event is in exactly one place, in order: with a worker, waiting,
    or in a batch that was dropped because its channel was closed; with one worker batching is
    sequential processing; without batching \<open>process_events\<close> is the plain loop; a call dropped at an
    await, as by Ctrl-C, loses nothing, nor does the loop of the service; after a shutdown the batch
    processor drains, given time and a worker that lives, and a program that ends before that loses
    committed events: exactly those of the ledger that are at risk or were left behind by a panic, and
    without panics at most a computed number.
  \<^item> Resilience: when breakers open, move and recover; how often \<open>retry\<close> calls and how long it sleeps, and
    that it returns; which errors of Kafka end \<open>process_events\<close>; that the service drains what Kafka holds.
  \<^item> Resources: which requests are refused, and that the counts in flight are exact however the workers
    interleave.
  \<^item> Configuration and parsing: exactly which configurations pass; what each message kind yields; that
    the broker list and the amounts survive their way through the texts they are written as.
  \<^item> Applications: the basic consumer logs exactly the transactions delivered; the three trading
    applications never act on anything; which limit the tuned configurations can reach; when the
    endpoint tests end and what they report.
  \<^item> Observability: statistics of histograms, races of counters, the overall health and its HTTP codes,
    trace ids along chains of spans, what the trade monitor reports and loses, which events the consumer
    reports as processed and as failed.
  \<^item> Defects: several properties state what the code does where it is not what it means to do, as the
    stuck half-open state, the lost event of a failed commit, the worker that a trade without a market
    kills, backpressure that is never released at a limit of one message, after two completions that race or after one that races with the consumer, the
    program ids in hex that no filter and no processor with Base58 addresses can match.

  \<^bold>\<open>Bounds and fuel.\<close> \<open>retry\<close> is a partial function, and its property proves that it returns.
  \<open>service_run n\<close> is the first \<open>n\<close> turns of a loop that has no exit; its properties hold for all \<open>n\<close>.
  The consumer remembers \<open>max buffer_size 100000\<close> signatures (\<open>dedup_limit\<close>) and then clears its cache, so
  the delivery properties promise distinct signatures for runs of at most that many messages, and the
  rest of what they say for all runs. \<open>strip_turns\<close> has the length of the text as its fuel, which is
  enough because every turn takes at least a byte off (\<open>strip_done\<close>). The thresholds of the resource manager and the statistics of
  a histogram are computed in \<open>f64\<close> and are exact up to 2^53. The sign of a zero \<open>f64\<close> is not kept.

  \<^bold>\<open>Not modelled.\<close> The decoders that build.rs generates from schemas/, warp's listening
  and encoding, signal handling and the spawning of tasks, printing and the tracing subscriber, derived
  serialization; the recorders behind the metrics facade (with the feature metrics the crate does not
  compile, \<open>Facade\<close> reads the field that was meant); tests/, and the two stubs health_check.rs and
  connection_recovery.rs of examples/. The tasks that the trading bot spawns are recorded, not run:
  no event ever reaches one. tools/src/bin/comprehensive_test.rs is a copy of focused_test.rs. The health
  checkers of the source return fixed numbers, and the model returns the same.

  \<^bold>\<open>Plan.\<close> What is left would be the loops of the applications over the awaits of \<open>Awaits\<close>, and the
  contexts of the logging layer for tasks that change threads between two awaits.
\<close>

end
